(* ===== verification/Prelude.thy ===== *)
theory Prelude
  imports Main "HOL-Library.Word" "HOL-Library.Sublist"
begin

text \<open>
  What every other theory of the development shares.

  A Go \<open>string\<close> or \<open>[]byte\<close> is a HOL \<open>string\<close>: a list of bytes (a HOL \<open>char\<close> is a byte).
  A Go function that can panic returns \<open>string + 'a\<close>: \<open>Inl m\<close> is the panic with message
  \<open>m\<close>, \<open>Inr x\<close> the normal return of \<open>x\<close>. A nilable slice or map is an \<open>option\<close>.

  The functions of Go's standard library that the modelled code calls (packages \<open>strings\<close>,
  \<open>bytes\<close>, \<open>path\<close>, \<open>strconv\<close>, \<open>unicode\<close>) are defined here on bytes; letter case
  and white space are those of ASCII.
\<close>

section \<open>Collections of facts\<close>

named_theorems panic_simps \<open>equations that propagate a panic\<close>
named_theorems go_string \<open>equations of the string functions of the Go library\<close>

section \<open>Panics\<close>

type_synonym 'a go = "string + 'a"

definition bindG :: "'a go \<Rightarrow> ('a \<Rightarrow> 'b go) \<Rightarrow> 'b go" where
  "bindG r f = (case r of Inl e \<Rightarrow> Inl e | Inr x \<Rightarrow> f x)"

definition mapG :: "('a \<Rightarrow> 'b) \<Rightarrow> 'a go \<Rightarrow> 'b go" where
  "mapG f r = (case r of Inl e \<Rightarrow> Inl e | Inr x \<Rightarrow> Inr (f x))"

lemma bindG_simps [simp, panic_simps]:
  "bindG (Inl e) f = Inl e"
  "bindG (Inr x) f = f x"
  by (simp_all add: bindG_def)

lemma mapG_simps [simp, panic_simps]:
  "mapG f (Inl e) = Inl e"
  "mapG f (Inr x) = Inr (f x)"
  by (simp_all add: mapG_def)

lemma bindG_eq_Inr [panic_simps]: "bindG r f = Inr y \<longleftrightarrow> (\<exists>x. r = Inr x \<and> f x = Inr y)"
  by (cases r) simp_all

lemma mapG_eq_Inr [panic_simps]: "mapG f r = Inr y \<longleftrightarrow> (\<exists>x. r = Inr x \<and> y = f x)"
  by (cases r) auto

lemma bindG_cong [fundef_cong]:
  "r = r' \<Longrightarrow> (\<And>x. r' = Inr x \<Longrightarrow> f x = g x) \<Longrightarrow> bindG r f = bindG r' g"
  by (cases r') auto

text \<open>The run-time panics of the language.\<close>

abbreviation index_panic :: string where
  "index_panic \<equiv> ''runtime error: index out of range''"

abbreviation slice_panic :: string where
  "slice_panic \<equiv> ''runtime error: slice bounds out of range''"

text \<open>A string between single quotes, as many messages print it.\<close>

definition quoted :: "string \<Rightarrow> string" where
  "quoted s = CHR 0x27 # s @ [CHR 0x27]"

definition at :: "'a list \<Rightarrow> nat \<Rightarrow> 'a go" where
  "at xs i = (if i < length xs then Inr (xs ! i) else Inl index_panic)"

section \<open>Lists\<close>

text \<open>\<open>slice xs i j\<close> is Go's \<open>xs[i:j]\<close> for \<open>i \<le> j \<le> len(xs)\<close>.\<close>

definition slice :: "'a list \<Rightarrow> nat \<Rightarrow> nat \<Rightarrow> 'a list" where
  "slice xs i j = take (j - i) (drop i xs)"

lemma length_slice [simp]: "j \<le> length xs \<Longrightarrow> length (slice xs i j) = j - i"
  by (simp add: slice_def)

lemma take_slice_append:
  "i \<le> j \<Longrightarrow> take i xs @ slice xs i j = take j xs"
  unfolding slice_def by (metis le_add_diff_inverse take_add)

lemma slice_drop_append: "i \<le> j \<Longrightarrow> slice xs i j @ drop j xs = drop i xs"
  unfolding slice_def by (metis append_take_drop_id drop_drop le_add_diff_inverse2)

lemma slice_Suc: "i \<le> j \<Longrightarrow> j < length xs \<Longrightarrow> slice xs i (Suc j) = slice xs i j @ [xs ! j]"
  by (simp add: slice_def Suc_diff_le take_Suc_conv_app_nth)

lemma slice_same [simp]: "slice xs i i = []"
  by (simp add: slice_def)

text \<open>The position of the first element equal to \<open>c\<close>, as the code's search loops find it.\<close>

fun find_index :: "'a \<Rightarrow> 'a list \<Rightarrow> nat option" where
  "find_index c [] = None"
| "find_index c (x # xs) = (if c = x then Some 0 else map_option Suc (find_index c xs))"

lemma find_index_None [simp]: "find_index c xs = None \<longleftrightarrow> c \<notin> set xs"
  by (induction xs) auto

lemma find_index_notin [simp]: "c \<notin> set xs \<Longrightarrow> find_index c xs = None"
  by simp

lemma find_index_SomeD:
  "find_index c xs = Some k \<Longrightarrow> k < length xs \<and> xs ! k = c \<and> c \<notin> set (take k xs)"
  by (induction xs arbitrary: k) (auto split: if_splits)

lemma find_index_distinct:
  "distinct xs \<Longrightarrow> k < length xs \<Longrightarrow> find_index (xs ! k) xs = Some k"
proof (induction xs arbitrary: k)
  case (Cons x xs)
  then show ?case by (cases k) auto
qed simp

text \<open>The length of the longest common prefix.\<close>

fun lcp :: "'a list \<Rightarrow> 'a list \<Rightarrow> nat" where
  "lcp (x # xs) (y # ys) = (if x = y then Suc (lcp xs ys) else 0)"
| "lcp _ _ = 0"

lemma lcp_le: "lcp xs ys \<le> length xs \<and> lcp xs ys \<le> length ys"
  by (induction xs ys rule: lcp.induct) auto

lemmas lcp_le1 = lcp_le [THEN conjunct1]
lemmas lcp_le2 = lcp_le [THEN conjunct2]

lemma take_lcp: "take (lcp xs ys) xs = take (lcp xs ys) ys"
  by (induction xs ys rule: lcp.induct) auto

lemma lcp_maximal:
  "lcp xs ys < length xs \<Longrightarrow> lcp xs ys < length ys \<Longrightarrow> xs ! lcp xs ys \<noteq> ys ! lcp xs ys"
  by (induction xs ys rule: lcp.induct) auto

lemma lcp_full: "lcp xs ys = length ys \<longleftrightarrow> prefix ys xs"
  by (induction xs ys rule: lcp.induct) auto

lemma lcp_full_drop: "lcp xs ys = length ys \<Longrightarrow> xs = ys @ drop (length ys) xs"
  by (metis lcp_full append_eq_conv_conj prefixE)

section \<open>The string functions of the Go library\<close>

definition lower_char :: "char \<Rightarrow> char" where
  "lower_char c = (let k = (of_char c :: nat) in if 65 \<le> k \<and> k \<le> 90 then char_of (k + 32) else c)"

definition upper_char :: "char \<Rightarrow> char" where
  "upper_char c = (let k = (of_char c :: nat) in if 97 \<le> k \<and> k \<le> 122 then char_of (k - 32) else c)"

definition ToLower :: "string \<Rightarrow> string" where
  "ToLower = map lower_char"

definition ToUpper :: "string \<Rightarrow> string" where
  "ToUpper = map upper_char"

lemma length_ToLower [simp]: "length (ToLower s) = length s"
  by (simp add: ToLower_def)

lemma ToLower_append [go_string]: "ToLower (s @ t) = ToLower s @ ToLower t"
  by (simp add: ToLower_def)

end
