(* ===== verification/RouteTree.thy ===== *)
theory RouteTree
  imports Prelude
begin

text \<open>
  The radix tree of the HTTP router (gin's \<open>tree.go\<close>): the data type \<open>node\<close>, the insertion
  of a route (\<open>addRoute\<close> with \<open>insertChild\<close> and \<open>incrementChildPrio\<close>), the lookup of a
  request path (\<open>getValue\<close>) and the case-insensitive lookup (\<open>findCaseInsensitivePath\<close>).

  A Go node is a struct whose \<open>children\<close> are pointers and which the code updates in place
  while a local pointer walks down. No node has two parents, so a tree of values models the
  heap: a function that walks down returns the rebuilt node. The fields other than
  \<open>children\<close> are the record \<open>hdr\<close>. The handlers are of an arbitrary type \<open>'h\<close>; a nil
  \<open>HandlersChain\<close> is \<open>None\<close>.
\<close>

section \<open>Parameters\<close>

type_synonym Param = "string \<times> string"
type_synonym Params = "Param list"

fun Params_Get :: "Params \<Rightarrow> string \<Rightarrow> string \<times> bool" where
  "Params_Get [] name = ([], False)"
| "Params_Get ((k, v) # ps) name = (if k = name then (v, True) else Params_Get ps name)"

definition ByName :: "Params \<Rightarrow> string \<Rightarrow> string" where
  "ByName ps name = fst (Params_Get ps name)"

section \<open>Nodes\<close>

datatype nodeType = Static | Param | CatchAll

record 'h hdr =
  n_path :: string
  n_wildChild :: bool
  n_nType :: nodeType
  n_maxParams :: "8 word"
  n_indices :: string
  n_handlers :: "'h list option"
  n_priority :: "32 word"

datatype 'h node = Node (hdr: "'h hdr") (children: "'h node list")

definition zero_hdr :: "'h hdr" where
  "zero_hdr = \<lparr>n_path = [], n_wildChild = False, n_nType = Static, n_maxParams = 0,
     n_indices = [], n_handlers = None, n_priority = 0\<rparr>"

definition new_node :: "'h node" where
  "new_node = Node zero_hdr []"

fun upd :: "('h hdr \<Rightarrow> 'h hdr) \<Rightarrow> 'h node \<Rightarrow> 'h node" where
  "upd f (Node h cs) = Node (f h) cs"

definition incr_priority :: "'h hdr \<Rightarrow> 'h hdr" where
  "incr_priority h = h\<lparr>n_priority := n_priority h + 1\<rparr>"

definition raise_maxParams :: "8 word \<Rightarrow> 'h hdr \<Rightarrow> 'h hdr" where
  "raise_maxParams k h = (if n_maxParams h < k then h\<lparr>n_maxParams := k\<rparr> else h)"

text \<open>The number of nodes of a tree: every loop of the code walks to a child.\<close>

fun nsize :: "'h node \<Rightarrow> nat" where
  "nsize (Node h cs) = Suc (sum_list (map nsize cs))"

lemma nsize_pos [simp]: "0 < nsize n"
  by (cases n) simp

lemma nsize_upd [simp]: "nsize (upd f n) = nsize n"
  by (cases n) simp

lemma hdr_upd [simp]: "hdr (upd f n) = f (hdr n)"
  by (cases n) simp

lemma children_upd [simp]: "children (upd f n) = children n"
  by (cases n) simp

lemma nsize_child: "c \<in> set (children n) \<Longrightarrow> nsize c < nsize n"
proof (cases n)
  case (Node h cs)
  assume "c \<in> set (children n)"
  with Node have "nsize c \<le> sum_list (map nsize cs)"
    by (simp add: member_le_sum_list)
  with Node show ?thesis by simp
qed

section \<open>Insertion\<close>

definition is_wild :: "char \<Rightarrow> bool" where
  "is_wild c \<longleftrightarrow> c = CHR '':'' \<or> c = CHR ''*''"

definition wilds :: "string \<Rightarrow> nat" where
  "wilds p = length (filter is_wild p)"

definition countParams :: "string \<Rightarrow> 8 word" where
  "countParams p = (if 255 \<le> wilds p then 255 else word_of_nat (wilds p))"

text \<open>
  The loop of \<open>incrementChildPrio\<close>: \<open>bubble cs k prio\<close> moves the child at \<open>k\<close> (whose
  priority is \<open>prio\<close>) in front of its neighbours of a lower priority.
\<close>

definition child_prio :: "'h node \<Rightarrow> 32 word" where
  "child_prio n = n_priority (hdr n)"

fun bubble :: "'h node list \<Rightarrow> nat \<Rightarrow> 32 word \<Rightarrow> 'h node list \<times> nat" where
  "bubble cs 0 prio = (cs, 0)"
| "bubble cs (Suc k) prio =
     (if child_prio (cs ! k) < prio
      then bubble (cs[k := cs ! Suc k, Suc k := cs ! k]) k prio
      else (cs, Suc k))"

definition move_index :: "string \<Rightarrow> nat \<Rightarrow> nat \<Rightarrow> string" where
  "move_index idx pos newPos =
     take newPos idx @ slice idx pos (pos + 1) @ slice idx newPos pos @ drop (pos + 1) idx"

definition incrementChildPrio :: "'h node \<Rightarrow> nat \<Rightarrow> ('h node \<times> nat) go" where
  "incrementChildPrio n pos =
     (if pos < length (children n) then
        let cs = (children n)[pos := upd incr_priority (children n ! pos)];
            (cs', newPos) = bubble cs pos (child_prio (cs ! pos))
        in if newPos \<noteq> pos then
             (if pos < length (n_indices (hdr n))
              then Inr (Node ((hdr n)\<lparr>n_indices := move_index (n_indices (hdr n)) pos newPos\<rparr>) cs',
                        newPos)
              else Inl slice_panic)
           else Inr (Node (hdr n) cs', newPos)
      else Inl index_panic)"

text \<open>
  The end of the wildcard that starts before \<open>s\<close>: \<open>None\<close> when a second wildcard character
  comes before the next slash.
\<close>

fun wildcard_end :: "string \<Rightarrow> nat option" where
  "wildcard_end [] = Some 0"
| "wildcard_end (c # s) =
     (if c = CHR ''/'' then Some 0
      else if is_wild c then None
      else map_option Suc (wildcard_end s))"

text \<open>
  \<open>insertChild\<close>: \<open>i\<close> is the loop variable, \<open>offset\<close> the number of bytes of \<open>path\<close> already
  stored in nodes, \<open>n\<close> the node the local pointer is at.
\<close>

function insertChild_loop ::
    "8 word \<Rightarrow> string \<Rightarrow> string \<Rightarrow> 'h list option \<Rightarrow> nat \<Rightarrow> nat \<Rightarrow> 'h node \<Rightarrow> 'h node go" where
  "insertChild_loop numParams path fullPath handlers offset i n =
     (if 0 < numParams then
        if length path \<le> i then Inl index_panic
        else if \<not> is_wild (path ! i) then
          insertChild_loop numParams path fullPath handlers offset (Suc i) n
        else (case wildcard_end (drop (Suc i) path) of
          None \<Rightarrow> Inl (''only one wildcard per path segment is allowed, has: '' @ quoted (drop i path) @ '' in path '' @ quoted fullPath)
        | Some k \<Rightarrow>
          let end = Suc i + k in
          if children n \<noteq> [] then
            Inl (''wildcard route '' @ quoted (slice path i end)
                 @ '' conflicts with existing children in path '' @ quoted fullPath)
          else if end - i < 2 then
            Inl (''wildcards must be named with a non-empty name in path '' @ quoted fullPath)
          else if path ! i = CHR '':'' then
            (let (n1, offset1) =
                   (if 0 < i then (upd (n_path_update (\<lambda>_. slice path offset i)) n, i)
                    else (n, offset));
                 h1 = (hdr n1)\<lparr>n_wildChild := True\<rparr>;
                 child = zero_hdr\<lparr>n_nType := Param, n_maxParams := numParams, n_priority := 1\<rparr>;
                 numParams1 = numParams - 1
             in if end < length path then
                  mapG (\<lambda>g. Node h1 [Node (child\<lparr>n_path := slice path offset1 end\<rparr>) [g]])
                    (insertChild_loop numParams1 path fullPath handlers end (Suc i)
                       (Node (zero_hdr\<lparr>n_maxParams := numParams1, n_priority := 1\<rparr>) []))
                else
                  mapG (\<lambda>c. Node h1 [c])
                    (insertChild_loop numParams1 path fullPath handlers offset1 (Suc i)
                       (Node child [])))
          else if end \<noteq> length path \<or> 1 < numParams then
            Inl (''catch-all routes are only allowed at the end of the path in path '' @ quoted fullPath)
          else if n_path (hdr n) \<noteq> [] \<and> last (n_path (hdr n)) = CHR ''/'' then
            Inl (''catch-all conflicts with existing handle for the path segment root in path '' @ quoted fullPath)
          else if i = 0 then Inl index_panic
          else if path ! (i - 1) \<noteq> CHR ''/'' then
            Inl (''no / before catch-all in path '' @ quoted fullPath)
          else if i - 1 < offset then Inl slice_panic
          else
            Inr (Node ((hdr n)\<lparr>n_path := slice path offset (i - 1), n_indices := [path ! (i - 1)]\<rparr>)
              [Node (zero_hdr\<lparr>n_wildChild := True, n_nType := CatchAll, n_maxParams := 1,
                              n_priority := 1\<rparr>)
                [Node (zero_hdr\<lparr>n_path := drop (i - 1) path, n_nType := CatchAll, n_maxParams := 1,
                                n_handlers := handlers, n_priority := 1\<rparr>) []]]))
      else Inr (upd (\<lambda>h. h\<lparr>n_path := drop offset path, n_handlers := handlers\<rparr>) n))"
  by pat_completeness auto
termination
  by (relation "measure (\<lambda>(_, path, _, _, _, i, _). length path - i)") auto

declare insertChild_loop.simps [simp del]

definition insertChild ::
    "8 word \<Rightarrow> string \<Rightarrow> string \<Rightarrow> 'h list option \<Rightarrow> 'h node \<Rightarrow> 'h node go" where
  "insertChild numParams path fullPath handlers n =
     insertChild_loop numParams path fullPath handlers 0 0 n"

text \<open>
  \<open>splitEdge i n\<close> cuts the path of \<open>n\<close> after \<open>i\<close> bytes: the rest becomes a child that takes over
  the children and handlers of \<open>n\<close>.
\<close>

definition max_of_children :: "'h node list \<Rightarrow> 8 word \<Rightarrow> 8 word" where
  "max_of_children cs m = fold (\<lambda>c m. if m < n_maxParams (hdr c) then n_maxParams (hdr c) else m) cs m"

definition splitEdge :: "nat \<Rightarrow> string \<Rightarrow> 'h node \<Rightarrow> 'h node" where
  "splitEdge i path n =
     (let h = hdr n;
          child = zero_hdr\<lparr>n_path := drop i (n_path h), n_wildChild := n_wildChild h,
                           n_indices := n_indices h, n_handlers := n_handlers h,
                           n_priority := n_priority h - 1,
                           n_maxParams := max_of_children (children n) 0\<rparr>
      in Node (h\<lparr>n_indices := [n_path h ! i], n_path := take i path, n_handlers := None,
                 n_wildChild := False\<rparr>)
              [Node child (children n)])"

text \<open>One round of the \<open>walk\<close> loop up to the choice of the next node.\<close>

definition walk_node :: "8 word \<Rightarrow> string \<Rightarrow> 'h node \<Rightarrow> 'h node" where
  "walk_node numParams path n =
     (let n1 = upd (raise_maxParams numParams) n;
          i = lcp path (n_path (hdr n1))
      in if i < length (n_path (hdr n1)) then splitEdge i path n1 else n1)"

text \<open>The test "the wildcard matches" of \<open>addRoute\<close>.\<close>

definition wildcard_matches :: "string \<Rightarrow> string \<Rightarrow> bool" where
  "wildcard_matches wpath path \<longleftrightarrow>
     length wpath \<le> length path \<and> take (length wpath) path = wpath \<and>
     (length path \<le> length wpath \<or> path ! length wpath = CHR ''/'')"

text \<open>
  The last branch of the walk: a child for the next byte \<open>c\<close>, unless \<open>c\<close> starts a wildcard, and
  \<open>insertChild\<close> there. The new child is the last one; \<open>incrementChildPrio\<close> may move it.
\<close>

definition insert_new :: "8 word \<Rightarrow> string \<Rightarrow> string \<Rightarrow> 'h list option \<Rightarrow> 'h node \<Rightarrow> 'h node go" where
  "insert_new numParams path fullPath handlers n =
     (if is_wild (hd path) then insertChild numParams path fullPath handlers n
      else
        let idx = n_indices (hdr n) @ [hd path];
            child = Node (zero_hdr\<lparr>n_maxParams := numParams\<rparr>) [];
            n1 = Node ((hdr n)\<lparr>n_indices := idx\<rparr>) (children n @ [child])
        in bindG (incrementChildPrio n1 (length idx - 1)) (\<lambda>(n2, newPos).
             let j = (if length idx = length (children n1) then newPos else length (children n));
                 cs = children n2
             in mapG (\<lambda>c. Node (hdr n2) (cs[j := c]))
                  (insertChild numParams path fullPath handlers (cs ! j))))"

lemma bubble_props:
  assumes "pos < length cs"
  shows "length (fst (bubble cs pos p)) = length cs \<and> snd (bubble cs pos p) \<le> pos \<and>
    fst (bubble cs pos p) ! snd (bubble cs pos p) = cs ! pos"
  using assms
proof (induction cs pos p rule: bubble.induct)
  case (2 cs k prio)
  then show ?case by (cases "child_prio (cs ! k) < prio") force+
qed auto

lemma incrementChildPrio_child:
  assumes "incrementChildPrio n pos = Inr (n', j)"
  shows "pos < length (children n)" "j < length (children n')"
    "children n' ! j = upd incr_priority (children n ! pos)"
    "length (children n') = length (children n)"
proof -
  from assms show pos: "pos < length (children n)"
    by (auto simp: incrementChildPrio_def split: if_splits)
  define cs where "cs = (children n)[pos := upd incr_priority (children n ! pos)]"
  have len: "pos < length cs" by (simp add: cs_def pos)
  define r where "r = bubble cs pos (child_prio (cs ! pos))"
  have "children n' = fst r \<and> j = snd r"
    using assms pos unfolding incrementChildPrio_def cs_def [symmetric] Let_def r_def
    by (auto split: prod.splits if_splits)
  with bubble_props [OF len, of "child_prio (cs ! pos)"] pos show "j < length (children n')"
    "children n' ! j = upd incr_priority (children n ! pos)"
    "length (children n') = length (children n)"
    by (auto simp: r_def cs_def)
qed

lemma raise_maxParams_simps [simp]:
  "n_path (raise_maxParams k h) = n_path h"
  "n_wildChild (raise_maxParams k h) = n_wildChild h"
  "n_nType (raise_maxParams k h) = n_nType h"
  "n_indices (raise_maxParams k h) = n_indices h"
  "n_handlers (raise_maxParams k h) = n_handlers h"
  "n_priority (raise_maxParams k h) = n_priority h"
  by (simp_all add: raise_maxParams_def)

lemma incr_priority_simps [simp]:
  "n_path (incr_priority h) = n_path h"
  "n_wildChild (incr_priority h) = n_wildChild h"
  "n_nType (incr_priority h) = n_nType h"
  "n_indices (incr_priority h) = n_indices h"
  "n_handlers (incr_priority h) = n_handlers h"
  "n_maxParams (incr_priority h) = n_maxParams h"
  by (simp_all add: incr_priority_def)

lemma zero_hdr_simps [simp]:
  "n_path zero_hdr = []" "n_wildChild zero_hdr = False" "n_nType zero_hdr = Static"
  "n_maxParams zero_hdr = 0" "n_indices zero_hdr = []" "n_handlers zero_hdr = None"
  "n_priority zero_hdr = 0"
  by (simp_all add: zero_hdr_def)

text \<open>The two outcomes of a round: the node is kept, or it is split where the paths part.\<close>

lemma walk_node_cases:
  obtains (keep) "lcp path (n_path (hdr n)) = length (n_path (hdr n))"
      "walk_node np path n = upd (raise_maxParams np) n"
  | (split) "lcp path (n_path (hdr n)) < length (n_path (hdr n))"
      "walk_node np path n = splitEdge (lcp path (n_path (hdr n))) path (upd (raise_maxParams np) n)"
  using lcp_le2 [of path "n_path (hdr n)"]
  by (cases "lcp path (n_path (hdr n)) < length (n_path (hdr n))") (auto simp: walk_node_def Let_def)

lemma splitEdge_simps [simp]:
  "n_wildChild (hdr (splitEdge i path n)) = False"
  "n_nType (hdr (splitEdge i path n)) = n_nType (hdr n)"
  "n_indices (hdr (splitEdge i path n)) = [n_path (hdr n) ! i]"
  "n_path (hdr (splitEdge i path n)) = take i path"
  "n_handlers (hdr (splitEdge i path n)) = None"
  by (simp_all add: splitEdge_def Let_def)

lemma splitEdge_child:
  assumes "children (splitEdge i path n) = [c]"
  shows "nsize c = nsize n" "n_nType (hdr c) = Static" "children c = children n"
  using assms by (cases n; auto simp: splitEdge_def Let_def)+

text \<open>An index that matches after a round is an index of the node itself.\<close>

lemma walk_node_index:
  assumes "lcp path (n_path (hdr n)) < length path"
    and "find_index (hd (drop (lcp path (n_path (hdr n))) path)) (n_indices (hdr (walk_node np path n))) = Some k"
  shows "walk_node np path n = upd (raise_maxParams np) n"
proof (cases rule: walk_node_cases [of path n np])
  case split
  with assms have "path ! lcp path (n_path (hdr n)) = n_path (hdr n) ! lcp path (n_path (hdr n))"
    by (auto simp: hd_drop_conv_nth split: if_splits)
  with lcp_maximal [OF assms(1) split(1)] show ?thesis by simp
qed simp

function addRoute_walk ::
    "8 word \<Rightarrow> string \<Rightarrow> string \<Rightarrow> 'h list option \<Rightarrow> 'h node \<Rightarrow> 'h node go" where
  "addRoute_walk numParams path fullPath handlers n0 =
     (let i = lcp path (n_path (hdr n0));
          n = walk_node numParams path n0
      in if i < length path then
           let path = drop i path in
           if n_wildChild (hdr n) then
             (case children n of [] \<Rightarrow> Inl index_panic
              | w # ws \<Rightarrow>
                  let w1 = upd (raise_maxParams numParams \<circ> incr_priority) w in
                  if wildcard_matches (n_path (hdr w)) path then
                    mapG (\<lambda>w'. Node (hdr n) (w' # ws))
                      (addRoute_walk (numParams - 1) path fullPath handlers w1)
                  else Inl (''path segment '' @ quoted path @ '' conflicts with existing wildcard ''
                            @ quoted (n_path (hdr w)) @ '' in path '' @ quoted fullPath))
           else
             if n_nType (hdr n) = Param \<and> hd path = CHR ''/'' \<and> length (children n) = 1 then
               mapG (\<lambda>c. Node (hdr n) [c])
                 (addRoute_walk numParams path fullPath handlers (upd incr_priority (hd (children n))))
             else (case find_index (hd path) (n_indices (hdr n)) of
               Some k \<Rightarrow> bindG (incrementChildPrio n k) (\<lambda>(n1, j).
                 mapG (\<lambda>c. Node (hdr n1) ((children n1)[j := c]))
                   (addRoute_walk numParams path fullPath handlers (children n1 ! j)))
             | None \<Rightarrow> insert_new numParams path fullPath handlers n)
         else if n_handlers (hdr n) \<noteq> None then
           Inl (''handlers are already registered for path '' @ [CHR 0x27] @ quoted fullPath)
         else Inr (upd (n_handlers_update (\<lambda>_. handlers)) n))"
  by pat_completeness auto
termination
proof (relation "measure (\<lambda>(_, _, _, _, n). 2 * nsize n + (if n_nType (hdr n) = Param then 1 else 0))",
       goal_cases)
  case 1
  show ?case by simp
next
  case (2 np path full hs n0 i n path' w ws w1)
  then have "w \<in> set (children n)" by simp
  with 2 have "w \<in> set (children n0)"
    by (cases rule: walk_node_cases [of path n0 np]) auto
  from nsize_child [OF this] 2(7) show ?case by simp
next
  case (3 np path full hs n0 i n path')
  from 3(6) obtain c where c: "children n = [c]" by (auto simp: length_Suc_conv)
  show ?case
  proof (cases rule: walk_node_cases [of path n0 np])
    case keep
    with c 3(2) have "c \<in> set (children n0)" by simp
    from nsize_child [OF this] c show ?thesis by simp
  next
    case split
    with splitEdge_child [OF c [unfolded 3(2) split(2)]] 3 c show ?thesis by simp
  qed
next
  case (4 np path full hs n0 i n path' k p n1 j)
  then have "children n1 ! j = upd incr_priority (children n ! k)" "k < length (children n)"
    using incrementChildPrio_child by auto
  moreover from 4 have "n = upd (raise_maxParams np) n0"
    using walk_node_index by blast
  ultimately have "nsize (children n1 ! j) < nsize n0" by (simp add: nsize_child)
  then show ?case by simp
qed

declare addRoute_walk.simps [simp del]

definition addRoute :: "string \<Rightarrow> 'h list option \<Rightarrow> 'h node \<Rightarrow> 'h node go" where
  "addRoute path handlers n =
     (let numParams = countParams path; n1 = upd incr_priority n
      in if n_path (hdr n1) \<noteq> [] \<or> children n1 \<noteq> []
         then addRoute_walk numParams path path handlers n1
         else insertChild numParams path path handlers n1)"

section \<open>Lookup\<close>

text \<open>
  The parameters collected so far are a slice: its elements and its capacity. \<open>save_param\<close>
  makes a new slice when the capacity is below \<open>n.maxParams\<close> and extends it by one element.
\<close>

record pslice =
  p_elems :: Params
  p_cap :: nat

definition save_param :: "8 word \<Rightarrow> nat \<Rightarrow> string \<Rightarrow> string \<Rightarrow> pslice \<Rightarrow> pslice go" where
  "save_param maxParams k npath val p =
     (let q = (if p_cap p < unat maxParams then \<lparr>p_elems = [], p_cap = unat maxParams\<rparr> else p)
      in if length (p_elems q) < p_cap q then
           if k \<le> length npath then Inr (q\<lparr>p_elems := p_elems q @ [(drop k npath, val)]\<rparr>)
           else Inl slice_panic
         else Inl slice_panic)"

text \<open>\<open>path[:len(n.path)] == n.path\<close>, where \<open>path\<close> is longer, is \<open>prefix\<close>.\<close>

definition segment_end :: "string \<Rightarrow> nat" where
  "segment_end path = length (takeWhile (\<lambda>c. c \<noteq> CHR ''/'') path)"

text \<open>The last statement of the loop: nothing found, perhaps with an extra trailing slash.\<close>

definition tsr_extra_slash :: "'h hdr \<Rightarrow> string \<Rightarrow> bool" where
  "tsr_extra_slash h path \<longleftrightarrow>
     path = ''/'' \<or>
     (length (n_path h) = length path + 1 \<and> n_path h ! length path = CHR ''/'' \<and>
      path = take (length (n_path h) - 1) (n_path h) \<and> n_handlers h \<noteq> None)"

text \<open>The test, on the child for the byte \<open>/\<close>, that a trailing slash leads to a handle.\<close>

definition slash_child_handles :: "'h node \<Rightarrow> bool go" where
  "slash_child_handles c =
     (if length (n_path (hdr c)) = 1 \<and> n_handlers (hdr c) \<noteq> None then Inr True
      else if n_nType (hdr c) = CatchAll then
        mapG (\<lambda>g. n_handlers (hdr g) \<noteq> None) (at (children c) 0)
      else Inr False)"

function getValue :: "'h node \<Rightarrow> string \<Rightarrow> pslice \<Rightarrow> ('h list option \<times> pslice \<times> bool) go" where
  "getValue n path p =
     (let np = n_path (hdr n) in
      if length np < length path then
        if prefix np path then
          let path = drop (length np) path in
          if n_wildChild (hdr n) then
            (case children n of [] \<Rightarrow> Inl index_panic
            | w # ws \<Rightarrow>
              (case n_nType (hdr w) of
                 Param \<Rightarrow>
                   let end = segment_end path in
                   bindG (save_param (n_maxParams (hdr w)) 1 (n_path (hdr w)) (take end path) p) (\<lambda>q.
                     if end < length path then
                       (if children w \<noteq> [] then getValue (hd (children w)) (drop end path) q
                        else Inr (None, q, length path = end + 1))
                     else if n_handlers (hdr w) \<noteq> None then Inr (n_handlers (hdr w), q, False)
                     else (case children w of
                         [c] \<Rightarrow> Inr (None, q, n_path (hdr c) = ''/'' \<and> n_handlers (hdr c) \<noteq> None)
                       | _ \<Rightarrow> Inr (None, q, False)))
               | CatchAll \<Rightarrow>
                   bindG (save_param (n_maxParams (hdr w)) 2 (n_path (hdr w)) path p) (\<lambda>q.
                     Inr (n_handlers (hdr w), q, False))
               | Static \<Rightarrow> Inl ''invalid node type''))
          else
            (case find_index (hd path) (n_indices (hdr n)) of
               Some i \<Rightarrow> if i < length (children n) then getValue (children n ! i) path p
                         else Inl index_panic
             | None \<Rightarrow> Inr (None, p, path = ''/'' \<and> n_handlers (hdr n) \<noteq> None))
        else Inr (None, p, tsr_extra_slash (hdr n) path)
      else if path = np then
        if n_handlers (hdr n) \<noteq> None then Inr (n_handlers (hdr n), p, False)
        else (case find_index (CHR ''/'') (n_indices (hdr n)) of
            Some i \<Rightarrow> mapG (\<lambda>t. (None, p, t)) (bindG (at (children n) i) slash_child_handles)
          | None \<Rightarrow> Inr (None, p, False))
      else Inr (None, p, tsr_extra_slash (hdr n) path))"
  by pat_completeness auto
termination
proof (relation "measure (\<lambda>(n, _, _). nsize n)", goal_cases)
  case (2 n path p np path' w ws e p')
  then have "w \<in> set (children n)" "hd (children w) \<in> set (children w)" by simp_all
  then have "nsize (hd (children w)) < nsize w" "nsize w < nsize n" by (simp_all add: nsize_child)
  then show ?case by simp
qed (auto intro: nsize_child)

declare getValue.simps [simp del]

text \<open>
  The case-insensitive lookup. \<open>ci\<close> is the corrected path built so far; \<open>fci_try\<close> is the loop
  over the indices, which must try every child whose index agrees up to case.
\<close>

function (sequential)
  findCaseInsensitive :: "'h node \<Rightarrow> string \<Rightarrow> bool \<Rightarrow> string \<Rightarrow> (string \<times> bool) go" and
  fci_try :: "char \<Rightarrow> string \<Rightarrow> 'h node list \<Rightarrow> string \<Rightarrow> bool \<Rightarrow> string option go" where
  "findCaseInsensitive n path fixTrailingSlash ci =
     (let np = n_path (hdr n) in
      if length np \<le> length path \<and> ToLower (take (length np) path) = ToLower np then
        let path = drop (length np) path; ci = ci @ np in
        if path \<noteq> [] then
          if n_wildChild (hdr n) then
            (case children n of [] \<Rightarrow> Inl index_panic
            | w # ws \<Rightarrow>
              (case n_nType (hdr w) of
                 Param \<Rightarrow>
                   let k = segment_end path; ci = ci @ take k path in
                   if k < length path then
                     (if children w \<noteq> []
                      then findCaseInsensitive (hd (children w)) (drop k path) fixTrailingSlash ci
                      else Inr (ci, fixTrailingSlash \<and> length path = k + 1))
                   else if n_handlers (hdr w) \<noteq> None then Inr (ci, True)
                   else (case children w of
                       [c] \<Rightarrow> if fixTrailingSlash \<and> n_path (hdr c) = ''/'' \<and> n_handlers (hdr c) \<noteq> None
                              then Inr (ci @ ''/'', True) else Inr (ci, False)
                     | _ \<Rightarrow> Inr (ci, False))
               | CatchAll \<Rightarrow> Inr (ci @ path, True)
               | Static \<Rightarrow> Inl ''invalid node type''))
          else
            bindG (fci_try (lower_char (hd path)) (n_indices (hdr n)) (children n) path fixTrailingSlash)
              (\<lambda>r. case r of
                  Some out \<Rightarrow> Inr (ci @ out, True)
                | None \<Rightarrow> Inr (ci, fixTrailingSlash \<and> path = ''/'' \<and> n_handlers (hdr n) \<noteq> None))
        else if n_handlers (hdr n) \<noteq> None then Inr (ci, True)
        else if fixTrailingSlash then
          (case find_index (CHR ''/'') (n_indices (hdr n)) of
             Some i \<Rightarrow> mapG (\<lambda>t. if t then (ci @ ''/'', True) else (ci, False))
                         (bindG (at (children n) i) slash_child_handles)
           | None \<Rightarrow> Inr (ci, False))
        else Inr (ci, False)
      else if fixTrailingSlash \<and> path = ''/'' then Inr (ci, True)
      else if fixTrailingSlash \<and> length path + 1 = length np \<and> np ! length path = CHR ''/'' \<and>
              ToLower path = ToLower (take (length path) np) \<and> n_handlers (hdr n) \<noteq> None
      then Inr (ci @ np, True)
      else Inr (ci, False))"
| "fci_try r [] cs path fixTrailingSlash = Inr None"
| "fci_try r (x # xs) [] path fixTrailingSlash =
     (if r = lower_char x then Inl index_panic else fci_try r xs [] path fixTrailingSlash)"
| "fci_try r (x # xs) (c # cs) path fixTrailingSlash =
     (if r = lower_char x then
        bindG (findCaseInsensitive c path fixTrailingSlash []) (\<lambda>(out, found).
          if found then Inr (Some out) else fci_try r xs cs path fixTrailingSlash)
      else fci_try r xs cs path fixTrailingSlash)"
  by pat_completeness auto
termination
proof (relation "measures
    [\<lambda>x. case x of Inl (n, _, _, _) \<Rightarrow> 2 * nsize n | Inr (_, _, cs, _, _) \<Rightarrow> 2 * sum_list (map nsize cs) + 1,
     \<lambda>x. case x of Inl _ \<Rightarrow> 0 | Inr (_, xs, _, _, _) \<Rightarrow> length xs]", goal_cases)
  case (3 n path f ci np path' ci')
  show ?case by (cases n) simp
next
  case (2 n path f ci np path' ci' w ws k ci'')
  then have "w \<in> set (children n)" "hd (children w) \<in> set (children w)" by simp_all
  then have "nsize (hd (children w)) < nsize w" "nsize w < nsize n" by (simp_all add: nsize_child)
  then show ?case by simp
qed auto

declare findCaseInsensitive.simps [simp del]

definition findCaseInsensitivePath :: "'h node \<Rightarrow> string \<Rightarrow> bool \<Rightarrow> (string \<times> bool) go" where
  "findCaseInsensitivePath n path fixTrailingSlash = findCaseInsensitive n path fixTrailingSlash []"

end
