(* ===== verification/RouteSpec.thy ===== *)
theory RouteSpec
  imports RouteTree
begin

text \<open>
  What a router promises, stated on the registered patterns and without the tree: which
  patterns are well formed (\<open>valid_pat\<close>), which request paths a pattern matches and with
  which parameters (\<open>pmatch\<close>), and the set of routes a tree holds (\<open>routes\<close>).
\<close>

section \<open>Patterns\<close>

abbreviation not_slash :: "char \<Rightarrow> bool" where
  "not_slash c \<equiv> c \<noteq> CHR ''/''"

abbreviation wildfree :: "string \<Rightarrow> bool" where
  "wildfree p \<equiv> (\<forall>c \<in> set p. \<not> is_wild c)"

lemma segment_split:
  assumes "CHR ''/'' \<notin> set nm" "p = [] \<or> hd p = CHR ''/''"
  shows "takeWhile not_slash (nm @ p) = nm" "dropWhile not_slash (nm @ p) = p"
  using assms by (induction nm; cases p; auto)+

lemma dropWhile_slash: "dropWhile not_slash s = [] \<or> hd (dropWhile not_slash s) = CHR ''/''"
  by (induction s) auto

definition good_name :: "string \<Rightarrow> bool" where
  "good_name nm \<longleftrightarrow> nm \<noteq> [] \<and> wildfree nm \<and> CHR ''/'' \<notin> set nm"

text \<open>
  \<open>:name\<close> is one segment and takes the text up to the next slash; \<open>/*name\<close> ends a pattern and
  takes everything that is left, the slash included.
\<close>

function pmatch :: "string \<Rightarrow> string \<Rightarrow> Params option" where
  "pmatch p s =
     (case p of [] \<Rightarrow> (if s = [] then Some [] else None)
      | c # p' \<Rightarrow>
          if c = CHR ''/'' \<and> p' \<noteq> [] \<and> hd p' = CHR ''*'' then
            (if s \<noteq> [] \<and> hd s = CHR ''/'' then Some [(tl p', s)] else None)
          else if c = CHR '':'' then
            (if s = [] then None
             else map_option (Cons (takeWhile not_slash p', takeWhile not_slash s))
                    (pmatch (dropWhile not_slash p') (dropWhile not_slash s)))
          else (case s of [] \<Rightarrow> None | d # s' \<Rightarrow> if c = d then pmatch p' s' else None))"
  by pat_completeness auto
termination
  by (relation "measure (\<lambda>(p, _). length p)") (auto simp: le_imp_less_Suc length_dropWhile_le)

declare pmatch.simps [simp del]

function valid_pat :: "string \<Rightarrow> bool" where
  "valid_pat p =
     (case p of [] \<Rightarrow> True
      | c # p' \<Rightarrow>
          if c = CHR ''/'' \<and> p' \<noteq> [] \<and> hd p' = CHR ''*'' then good_name (tl p')
          else if c = CHR '':'' then
            good_name (takeWhile not_slash p') \<and> valid_pat (dropWhile not_slash p')
          else c \<noteq> CHR ''*'' \<and> valid_pat p')"
  by pat_completeness auto
termination
  by (relation "measure length") (auto simp: le_imp_less_Suc length_dropWhile_le)

declare valid_pat.simps [simp del]

lemma pmatch_Nil [simp]: "pmatch [] s = (if s = [] then Some [] else None)"
  by (simp add: pmatch.simps)

lemma valid_pat_Nil [simp]: "valid_pat []"
  by (simp add: valid_pat.simps)

lemma is_wild_simps [simp]:
  "is_wild (CHR '':'')" "is_wild (CHR ''*'')" "\<not> is_wild (CHR ''/'')"
  by (simp_all add: is_wild_def)

lemma pmatch_catchAll:
  "pmatch (CHR ''/'' # CHR ''*'' # nm) s =
     (if s \<noteq> [] \<and> hd s = CHR ''/'' then Some [(nm, s)] else None)"
  by (simp add: pmatch.simps)

lemma pmatch_param:
  "CHR ''/'' \<notin> set nm \<Longrightarrow> p = [] \<or> hd p = CHR ''/'' \<Longrightarrow>
   pmatch (CHR '':'' # nm @ p) s =
     (if s = [] then None
      else map_option (Cons (nm, takeWhile not_slash s)) (pmatch p (dropWhile not_slash s)))"
  by (subst pmatch.simps) (simp add: segment_split)

lemma pmatch_char:
  "\<not> is_wild c \<Longrightarrow> \<not> (c = CHR ''/'' \<and> p \<noteq> [] \<and> hd p = CHR ''*'') \<Longrightarrow>
   pmatch (c # p) s = (if s \<noteq> [] \<and> hd s = c then pmatch p (tl s) else None)"
  by (subst pmatch.simps) (auto simp: is_wild_def split: list.splits)

text \<open>A wildcard-free beginning is compared byte by byte.\<close>

lemma pmatch_static:
  assumes "wildfree u" "p \<noteq> [] \<Longrightarrow> hd p \<noteq> CHR ''*''"
  shows "pmatch (u @ p) s = (if prefix u s then pmatch p (drop (length u) s) else None)"
  using assms
proof (induction u arbitrary: s)
  case (Cons c u)
  have "\<not> (c = CHR ''/'' \<and> u @ p \<noteq> [] \<and> hd (u @ p) = CHR ''*'')"
    using Cons.prems by (cases u) auto
  with Cons show ?case by (cases s) (auto simp: pmatch_char)
qed simp

lemma valid_pat_catchAll [simp]: "valid_pat (CHR ''/'' # CHR ''*'' # nm) = good_name nm"
  by (simp add: valid_pat.simps)

lemma valid_pat_param:
  "CHR ''/'' \<notin> set nm \<Longrightarrow> p = [] \<or> hd p = CHR ''/'' \<Longrightarrow>
   valid_pat (CHR '':'' # nm @ p) \<longleftrightarrow> good_name nm \<and> valid_pat p"
  by (subst valid_pat.simps) (simp add: segment_split)

lemma valid_pat_char:
  "\<not> is_wild c \<Longrightarrow> \<not> (c = CHR ''/'' \<and> p \<noteq> [] \<and> hd p = CHR ''*'') \<Longrightarrow>
   valid_pat (c # p) = valid_pat p"
  by (subst valid_pat.simps) (auto simp: is_wild_def)

lemma valid_pat_static:
  "wildfree u \<Longrightarrow> (p \<noteq> [] \<Longrightarrow> hd p \<noteq> CHR ''*'') \<Longrightarrow> valid_pat (u @ p) = valid_pat p"
proof (induction u)
  case (Cons c u)
  have "\<not> (c = CHR ''/'' \<and> u @ p \<noteq> [] \<and> hd (u @ p) = CHR ''*'')"
    using Cons.prems by (cases u) auto
  with Cons show ?case by (auto simp: valid_pat_char)
qed simp

lemma valid_pat_star: "\<not> valid_pat (CHR ''*'' # p)"
  by (subst valid_pat.simps) auto

lemma valid_pat_static_star:
  assumes "wildfree u" "valid_pat (u @ CHR ''*'' # nm)"
  shows "\<exists>v. u = v @ ''/''" "good_name nm"
proof -
  have "(\<exists>v. u = v @ ''/'') \<and> good_name nm"
    using assms
  proof (induction u)
    case Nil
    then show ?case by (simp add: valid_pat_star)
  next
    case (Cons c u)
    show ?case
    proof (cases "u = [] \<and> c = CHR ''/''")
      case True
      with Cons.prems show ?thesis by simp
    next
      case False
      with Cons.prems have "\<not> (c = CHR ''/'' \<and> u @ CHR ''*'' # nm \<noteq> [] \<and> hd (u @ CHR ''*'' # nm) = CHR ''*'')"
        by (cases u) auto
      with Cons.prems have "valid_pat (u @ CHR ''*'' # nm)" by (simp add: valid_pat_char)
      with Cons show ?thesis by auto
    qed
  qed
  then show "\<exists>v. u = v @ ''/''" "good_name nm" by auto
qed

text \<open>The first wildcard of a pattern, and what a valid pattern has there.\<close>

definition static_part :: "string \<Rightarrow> string" where
  "static_part p = takeWhile (\<lambda>c. \<not> is_wild c) p"

lemma static_part_wildfree [simp]: "wildfree (static_part p)"
  by (auto simp: static_part_def dest: set_takeWhileD)

lemma valid_pat_cases:
  assumes "valid_pat p"
  obtains (static) "wildfree p" "static_part p = p"
  | (param) u nm r where "p = u @ CHR '':'' # nm @ r" "wildfree u" "static_part p = u"
      "good_name nm" "r = [] \<or> hd r = CHR ''/''" "valid_pat r"
  | (catchAll) u nm where "p = u @ ''/'' @ CHR ''*'' # nm" "wildfree u" "static_part p = u @ ''/''"
      "good_name nm"
proof -
  define u w where "u = static_part p" and "w = dropWhile (\<lambda>c. \<not> is_wild c) p"
  have p: "p = u @ w" by (simp add: u_def w_def static_part_def)
  have u: "wildfree u" by (simp add: u_def)
  show thesis
  proof (cases w)
    case Nil
    with p u u_def static show ?thesis by simp
  next
    case (Cons c w')
    then have "is_wild c"
      by (metis w_def hd_dropWhile list.discI list.sel(1))
    then consider "c = CHR '':''" | "c = CHR ''*''" by (auto simp: is_wild_def)
    then show ?thesis
    proof cases
      case 1
      define nm r where "nm = takeWhile not_slash w'" and "r = dropWhile not_slash w'"
      have w': "w' = nm @ r" by (simp add: nm_def r_def)
      have r: "r = [] \<or> hd r = CHR ''/''"
        unfolding r_def by (rule dropWhile_slash)
      have nm: "CHR ''/'' \<notin> set nm" by (auto simp: nm_def dest: set_takeWhileD)
      have eq: "p = u @ CHR '':'' # nm @ r" using p Cons 1 w' by metis
      with assms valid_pat_static [OF u, of "CHR '':'' # nm @ r"] have "valid_pat (CHR '':'' # nm @ r)"
        by force
      with nm r have "good_name nm" "valid_pat r" by (simp_all add: valid_pat_param)
      with eq show ?thesis using param [of u nm r] u u_def [symmetric] r by blast
    next
      case 2
      from assms p Cons 2 have "valid_pat (u @ CHR ''*'' # w')" by simp
      note star = valid_pat_static_star [OF u this]
      from star(1) obtain v where v: "u = v @ ''/''" by blast
      with p Cons 2 have "p = v @ ''/'' @ CHR ''*'' # w'" by simp
      moreover from v u have "wildfree v" by simp
      moreover from v u_def have "static_part p = v @ ''/''" by simp
      ultimately show ?thesis using catchAll [of v w'] star(2) by blast
    qed
  qed
qed

lemma wilds_simps [simp]:
  "wilds [] = 0"
  "wilds (c # p) = (if is_wild c then Suc (wilds p) else wilds p)"
  "wilds (p @ q) = wilds p + wilds q"
  by (simp_all add: wilds_def)

lemma wilds_wildfree [simp]: "wildfree p \<Longrightarrow> wilds p = 0"
  by (simp add: wilds_def filter_empty_conv)

section \<open>The routes of a tree\<close>

fun routes :: "'h node \<Rightarrow> (string \<times> 'h list) list" where
  "routes (Node h cs) =
     map (\<lambda>(p, hs). (n_path h @ p, hs))
       ((case n_handlers h of None \<Rightarrow> [] | Some hs \<Rightarrow> [([], hs)]) @ concat (map routes cs))"

definition below :: "'h node \<Rightarrow> (string \<times> 'h list) set" where
  "below n = (case n_handlers (hdr n) of None \<Rightarrow> {} | Some hs \<Rightarrow> {([], hs)}) \<union>
     (\<Union>c \<in> set (children n). set (routes c))"

lemma set_routes: "set (routes n) = (\<lambda>(p, hs). (n_path (hdr n) @ p, hs)) ` below n"
  by (cases n) (auto simp: below_def image_iff split: option.splits)

lemma mem_routes:
  "(p, hs) \<in> set (routes n) \<longleftrightarrow> (\<exists>q. p = n_path (hdr n) @ q \<and> (q, hs) \<in> below n)"
  by (force simp: set_routes [of n])

lemma routes_hdr_cong:
  assumes "n_path h = n_path h'" "n_handlers h = n_handlers h'"
  shows "routes (Node h cs) = routes (Node h' cs)"
  using assms by simp

text \<open>The matches of a request path among a set of routes.\<close>

definition matches :: "(string \<times> 'h list) set \<Rightarrow> string \<Rightarrow> ('h list \<times> Params) set" where
  "matches R s = {(hs, ps). \<exists>p. (p, hs) \<in> R \<and> pmatch p s = Some ps}"

lemma in_matches: "(hs, ps) \<in> matches R s \<longleftrightarrow> (\<exists>p. (p, hs) \<in> R \<and> pmatch p s = Some ps)"
  by (simp add: matches_def)

lemma matches_routes:
  "(hs, ps) \<in> matches (set (routes n)) s \<longleftrightarrow>
     (\<exists>q. (q, hs) \<in> below n \<and> pmatch (n_path (hdr n) @ q) s = Some ps)"
  by (auto simp: in_matches mem_routes [of _ _ n])

lemma matches_empty [simp]: "matches {} s = {}"
  by (simp add: matches_def)

lemma matches_Un: "matches (R \<union> R') s = matches R s \<union> matches R' s"
  by (auto simp: matches_def)

lemma matches_UN: "matches (\<Union>x \<in> A. R x) s = (\<Union>x \<in> A. matches (R x) s)"
  by (auto simp: matches_def)

end
