(* ===== verification/RouteLookup.thy ===== *)
theory RouteLookup
  imports RouteSpec
begin

text \<open>
  The invariant \<open>wf_tree\<close> of the radix tree and the correctness of the lookup on a well-formed
  tree: \<open>getValue\<close> does not panic and finds exactly the routes whose pattern matches.
\<close>

section \<open>The invariant\<close>

text \<open>
  \<open>starts x n\<close>: every route of \<open>n\<close> begins with the byte \<open>x\<close>. A node with an empty path stands
  in front of a catch-all.
\<close>

definition starts :: "char \<Rightarrow> 'h node \<Rightarrow> bool" where
  "starts x n \<longleftrightarrow>
     (n_path (hdr n) \<noteq> [] \<and> hd (n_path (hdr n)) = x) \<or>
     (n_path (hdr n) = [] \<and> x = CHR ''/'' \<and> n_handlers (hdr n) = None \<and>
      (n_nType (hdr n) = CatchAll \<or>
       n_nType (hdr n) = Static \<and> n_indices (hdr n) = ''/'' \<and> \<not> n_wildChild (hdr n) \<and>
       length (children n) = 1))"

text \<open>
  \<open>wf_tree B n\<close>, by type: a static node has a path without wildcards and either one wildcard child or
  children told apart by their first byte; a parameter node holds \<open>:name\<close> and at most one child,
  which begins with a slash; a catch-all node is the empty node in front of the node with the
  handlers. No slice capacity below the node exceeds \<open>B\<close>, and it shrinks below a parameter.
\<close>

definition wf_catchAll :: "nat \<Rightarrow> 'h node \<Rightarrow> bool" where
  "wf_catchAll B g \<longleftrightarrow>
     n_nType (hdr g) = CatchAll \<and> \<not> n_wildChild (hdr g) \<and> n_handlers (hdr g) \<noteq> None \<and>
     children g = [] \<and> 1 \<le> unat (n_maxParams (hdr g)) \<and> unat (n_maxParams (hdr g)) \<le> B \<and>
     (\<exists>nm. n_path (hdr g) = CHR ''/'' # CHR ''*'' # nm \<and> good_name nm)"

fun wf_tree :: "nat \<Rightarrow> 'h node \<Rightarrow> bool" where
  "wf_tree B (Node h cs) \<longleftrightarrow>
     (case n_nType h of
        Static \<Rightarrow>
          wildfree (n_path h) \<and> (\<forall>c \<in> set cs. wf_tree B c) \<and>
          (if n_wildChild h
           then n_indices h = [] \<and> (\<exists>w. cs = [w] \<and> n_nType (hdr w) = Param)
           else length (n_indices h) = length cs \<and> distinct (n_indices h) \<and>
                wildfree (n_indices h) \<and>
                list_all2 (\<lambda>x c. starts x c \<and> n_nType (hdr c) \<noteq> Param) (n_indices h) cs)
      | Param \<Rightarrow>
          (\<exists>nm. n_path h = CHR '':'' # nm \<and> good_name nm) \<and> \<not> n_wildChild h \<and>
          1 \<le> unat (n_maxParams h) \<and> unat (n_maxParams h) \<le> B \<and>
          (cs = [] \<and> n_indices h = [] \<or>
           (\<exists>c. cs = [c] \<and> n_nType (hdr c) = Static \<and> starts (CHR ''/'') c \<and>
                n_indices h \<in> {[], ''/''})) \<and>
          (\<forall>c \<in> set cs. wf_tree (unat (n_maxParams h) - 1) c)
      | CatchAll \<Rightarrow>
          n_path h = [] \<and> n_wildChild h \<and> n_handlers h = None \<and> n_indices h = [] \<and> (\<exists>g. cs = [g] \<and> wf_catchAll B g))"

declare wf_tree.simps [simp del]

lemma wf_tree_mono: "wf_tree B n \<Longrightarrow> B \<le> B' \<Longrightarrow> wf_tree B' n"
proof (induction B n arbitrary: B' rule: wf_tree.induct)
  case (1 B h cs)
  then show ?case
  proof (cases "n_nType h")
    case Static
    with "1.prems"(1) have "\<forall>c \<in> set cs. wf_tree B c" by (simp add: wf_tree.simps)
    then have "\<forall>c \<in> set cs. wf_tree B' c" using "1.IH"(1) [OF Static] "1.prems"(2) by blast
    with Static "1.prems"(1) show ?thesis by (simp add: wf_tree.simps)
  next
    case Param
    with "1.prems" show ?thesis by (simp add: wf_tree.simps)
  next
    case CatchAll
    with "1.prems" show ?thesis by (auto simp: wf_tree.simps wf_catchAll_def)
  qed
qed

lemma wf_tree_static:
  "n_nType (hdr n) = Static \<Longrightarrow> wf_tree B n \<longleftrightarrow>
     wildfree (n_path (hdr n)) \<and> (\<forall>c \<in> set (children n). wf_tree B c) \<and>
     (if n_wildChild (hdr n)
      then n_indices (hdr n) = [] \<and> (\<exists>w. children n = [w] \<and> n_nType (hdr w) = Param)
      else length (n_indices (hdr n)) = length (children n) \<and> distinct (n_indices (hdr n)) \<and>
           wildfree (n_indices (hdr n)) \<and>
           list_all2 (\<lambda>x c. starts x c \<and> n_nType (hdr c) \<noteq> Param) (n_indices (hdr n)) (children n))"
  by (cases n) (simp add: wf_tree.simps)

lemma wf_tree_param:
  "n_nType (hdr n) = Param \<Longrightarrow> wf_tree B n \<longleftrightarrow>
     (\<exists>nm. n_path (hdr n) = CHR '':'' # nm \<and> good_name nm) \<and> \<not> n_wildChild (hdr n) \<and>
     1 \<le> unat (n_maxParams (hdr n)) \<and> unat (n_maxParams (hdr n)) \<le> B \<and>
     (children n = [] \<and> n_indices (hdr n) = [] \<or>
      (\<exists>c. children n = [c] \<and> n_nType (hdr c) = Static \<and> starts (CHR ''/'') c \<and>
           n_indices (hdr n) \<in> {[], ''/''})) \<and>
     (\<forall>c \<in> set (children n). wf_tree (unat (n_maxParams (hdr n)) - 1) c)"
  by (cases n) (simp add: wf_tree.simps)

lemma wf_tree_catch:
  "n_nType (hdr n) = CatchAll \<Longrightarrow> wf_tree B n \<longleftrightarrow>
     n_path (hdr n) = [] \<and> n_wildChild (hdr n) \<and> n_handlers (hdr n) = None \<and>
     n_indices (hdr n) = [] \<and> (\<exists>g. children n = [g] \<and> wf_catchAll B g)"
  by (cases n) (simp add: wf_tree.simps)

lemma wf_tree_new_node [simp]: "wf_tree B new_node"
  by (simp add: new_node_def wf_tree.simps)

section \<open>How the routes of a well-formed tree begin\<close>

lemma routes_catchAll:
  assumes "wf_catchAll B g"
  obtains nm hs where "set (routes g) = {(CHR ''/'' # CHR ''*'' # nm, hs)}" "n_handlers (hdr g) = Some hs"
    "n_path (hdr g) = CHR ''/'' # CHR ''*'' # nm"
  using assms by (cases g) (auto simp: wf_catchAll_def)

lemma starts_routes:
  assumes "wf_tree B n" "starts x n" "(p, hs) \<in> set (routes n)"
  shows "p \<noteq> [] \<and> hd p = x"
  using assms
proof (induction "nsize n" arbitrary: n B p rule: less_induct)
  case less
  show ?case
  proof (cases "n_path (hdr n) = []")
    case False
    with less.prems show ?thesis by (auto simp: starts_def set_routes [of n])
  next
    case True
    with less.prems(2) have x: "x = CHR ''/''" and nh: "n_handlers (hdr n) = None"
      and ty: "n_nType (hdr n) = CatchAll \<or> n_nType (hdr n) = Static \<and> n_indices (hdr n) = ''/'' \<and>
        \<not> n_wildChild (hdr n) \<and> length (children n) = 1"
      by (auto simp: starts_def)
    from True nh less.prems(3) obtain c where c: "c \<in> set (children n)" "(p, hs) \<in> set (routes c)"
      by (auto simp: set_routes [of n] below_def)
    from ty show ?thesis
    proof
      assume "n_nType (hdr n) = CatchAll"
      with less.prems(1) c have "wf_catchAll B c" by (auto simp: wf_tree_catch)
      from routes_catchAll [OF this] c(2) x show ?thesis by (metis Pair_inject list.distinct(1) list.sel(1) singletonD)
    next
      assume st: "n_nType (hdr n) = Static \<and> n_indices (hdr n) = ''/'' \<and>
        \<not> n_wildChild (hdr n) \<and> length (children n) = 1"
      with less.prems(1) c have "wf_tree B c" "starts x c"
        by (auto simp: wf_tree_static list_all2_Cons1 x)
      with less.hyps [OF nsize_child [OF c(1)]] c show ?thesis by blast
    qed
  qed
qed

lemma param_routes:
  assumes "wf_tree B w" "n_nType (hdr w) = Param"
  obtains nm where "n_path (hdr w) = CHR '':'' # nm" "good_name nm"
    "\<And>p hs. (p, hs) \<in> below w \<Longrightarrow> p = [] \<or> hd p = CHR ''/''"
proof -
  from assms obtain nm where nm: "n_path (hdr w) = CHR '':'' # nm" "good_name nm"
    by (auto simp: wf_tree_param)
  have "p = [] \<or> hd p = CHR ''/''" if b: "(p, hs) \<in> below w" for p hs
  proof (cases "p = []")
    case False
    with b obtain c where c: "c \<in> set (children w)" "(p, hs) \<in> set (routes c)"
      by (auto simp: below_def split: option.splits)
    with assms have "wf_tree (unat (n_maxParams (hdr w)) - 1) c" "starts (CHR ''/'') c"
      by (auto simp: wf_tree_param)
    from starts_routes [OF this c(2)] show ?thesis by simp
  qed simp
  with nm that show thesis by blast
qed

lemma below_no_star:
  assumes "wf_tree B n" "n_nType (hdr n) = Static" "(p, hs) \<in> below n" "p \<noteq> []"
  shows "hd p \<noteq> CHR ''*''"
proof -
  from assms obtain c where c: "c \<in> set (children n)" "(p, hs) \<in> set (routes c)"
    by (auto simp: below_def split: option.splits)
  show ?thesis
  proof (cases "n_wildChild (hdr n)")
    case True
    with assms(1,2) c have "wf_tree B c" "n_nType (hdr c) = Param" by (auto simp: wf_tree_static)
    then obtain nm where "n_path (hdr c) = CHR '':'' # nm" by (auto simp: wf_tree_param)
    with c(2) show ?thesis by (auto simp: set_routes [of c])
  next
    case False
    with assms(1,2) c(1) obtain x where "wf_tree B c" "starts x c" "\<not> is_wild x"
      by (force simp: wf_tree_static list_all2_conv_all_nth in_set_conv_nth)
    with starts_routes [OF _ _ c(2)] show ?thesis by (auto simp: is_wild_def)
  qed
qed

section \<open>The matches of a request path below a node\<close>

lemma UN_set_nth: "(\<Union>c \<in> set cs. f c) = (\<Union>i < length cs. f (cs ! i))"
  by (force simp: in_set_conv_nth)

lemma pmatch_empty_path: "pmatch p [] = Some ps \<Longrightarrow> p = [] \<and> ps = []"
  by (subst (asm) pmatch.simps) (auto split: list.splits if_splits)

lemma pmatch_hd:
  "pmatch p s = Some ps \<Longrightarrow> p \<noteq> [] \<Longrightarrow> \<not> is_wild (hd p) \<Longrightarrow> s \<noteq> [] \<and> hd s = hd p"
  by (subst (asm) pmatch.simps) (auto simp: is_wild_def split: list.splits if_splits)

lemma matches_static:
  assumes "wf_tree B n" "n_nType (hdr n) = Static"
  shows "matches (set (routes n)) s =
    (if prefix (n_path (hdr n)) s then matches (below n) (drop (length (n_path (hdr n))) s) else {})"
proof -
  have eq: "pmatch (n_path (hdr n) @ p) s =
      (if prefix (n_path (hdr n)) s then pmatch p (drop (length (n_path (hdr n))) s) else None)"
    if "(p, hs) \<in> below n" for p hs
    by (rule pmatch_static) (use assms below_no_star [OF assms that] in \<open>auto simp: wf_tree_static\<close>)
  show ?thesis
    by (rule set_eqI, clarify, subst matches_routes) (auto simp: eq in_matches cong: conj_cong)
qed

lemma matches_below_Nil:
  "matches (below n) [] = (case n_handlers (hdr n) of None \<Rightarrow> {} | Some hs \<Rightarrow> {(hs, [])})
     \<union> {(hs, ps). ps = [] \<and> (\<exists>c \<in> set (children n). ([], hs) \<in> set (routes c))}"
  by (auto simp: matches_def below_def dest: pmatch_empty_path split: option.splits)

lemma matches_below_Cons:
  "s \<noteq> [] \<Longrightarrow> matches (below n) s = (\<Union>c \<in> set (children n). matches (set (routes c)) s)"
  by (auto simp: matches_def below_def split: option.splits)

lemma no_empty_route:
  assumes "wf_tree B n" "n_nType (hdr n) \<noteq> CatchAll" "c \<in> set (children n)"
  shows "([], hs) \<notin> set (routes c)"
proof
  assume e: "([], hs) \<in> set (routes c)"
  consider "n_nType (hdr n) = Static" "n_wildChild (hdr n)"
    | "n_nType (hdr n) = Static" "\<not> n_wildChild (hdr n)" | "n_nType (hdr n) = Param"
    using assms(2) by (cases "n_nType (hdr n)") auto
  then show False
  proof cases
    case 1
    with assms have "wf_tree B c" "n_nType (hdr c) = Param" by (auto simp: wf_tree_static)
    then obtain nm where "n_path (hdr c) = CHR '':'' # nm" by (auto simp: wf_tree_param)
    with e show False by (auto simp: set_routes [of c])
  next
    case 2
    with assms obtain x where "wf_tree B c" "starts x c"
      by (force simp: wf_tree_static list_all2_conv_all_nth in_set_conv_nth)
    with starts_routes [OF _ _ e] show False by blast
  next
    case 3
    with assms have "wf_tree (unat (n_maxParams (hdr n)) - 1) c" "starts (CHR ''/'') c" by (auto simp: wf_tree_param)
    with starts_routes [OF _ _ e] show False by blast
  qed
qed

lemma matches_here:
  assumes "wf_tree B n" "n_nType (hdr n) \<noteq> CatchAll"
  shows "matches (below n) [] = (case n_handlers (hdr n) of None \<Rightarrow> {} | Some hs \<Rightarrow> {(hs, [])})"
  using no_empty_route [OF assms] by (auto simp: matches_below_Nil)

text \<open>Only the child indexed by the next byte can match.\<close>

lemma matches_child:
  assumes "wf_tree B n" "n_nType (hdr n) = Static" "\<not> n_wildChild (hdr n)" "s \<noteq> []"
  shows "matches (below n) s =
    (case find_index (hd s) (n_indices (hdr n)) of
       None \<Rightarrow> {} | Some i \<Rightarrow> matches (set (routes (children n ! i))) s)"
proof -
  have nth: "wf_tree B (children n ! i) \<and> starts (n_indices (hdr n) ! i) (children n ! i) \<and>
      \<not> is_wild (n_indices (hdr n) ! i)" if "i < length (children n)" for i
    using assms that by (auto simp: wf_tree_static list_all2_conv_all_nth)
  have only: "n_indices (hdr n) ! i = hd s"
    if "i < length (children n)" "m \<in> matches (set (routes (children n ! i))) s" for i m
    using that nth [OF that(1)] by (force simp: matches_def dest: starts_routes pmatch_hd)
  have len: "length (n_indices (hdr n)) = length (children n)" "distinct (n_indices (hdr n))"
    using assms by (auto simp: wf_tree_static)
  have UN: "matches (below n) s = (\<Union>i < length (children n). matches (set (routes (children n ! i))) s)"
    by (simp add: matches_below_Cons [OF assms(4)] UN_set_nth)
  show ?thesis
  proof (cases "find_index (hd s) (n_indices (hdr n))")
    case None
    then have "n_indices (hdr n) ! i \<noteq> hd s" if "i < length (children n)" for i
      using len that by (auto simp: in_set_conv_nth)
    with only have "matches (set (routes (children n ! i))) s = {}" if "i < length (children n)" for i
      using that by blast
    with None show ?thesis unfolding UN by simp
  next
    case (Some i)
    then have i: "i < length (children n)" "n_indices (hdr n) ! i = hd s"
      using len by (auto dest: find_index_SomeD)
    have "j = i" if "m \<in> matches (set (routes (children n ! j))) s" "j < length (children n)" for j m
      using only [OF that(2,1)] i len that(2) nth_eq_iff_index_eq [of "n_indices (hdr n)" j i] by simp
    with i(1) Some show ?thesis unfolding UN by auto
  qed
qed

lemma matches_param:
  assumes "wf_tree B w" "n_nType (hdr w) = Param" "s \<noteq> []"
  shows "matches (set (routes w)) s =
    (\<lambda>(hs, ps). (hs, (tl (n_path (hdr w)), takeWhile not_slash s) # ps)) ` matches (below w) (dropWhile not_slash s)"
proof -
  obtain nm where nm: "n_path (hdr w) = CHR '':'' # nm" "CHR ''/'' \<notin> set nm"
    "\<And>p hs. (p, hs) \<in> below w \<Longrightarrow> p = [] \<or> hd p = CHR ''/''"
    using param_routes [OF assms(1,2)] by (metis good_name_def)
  have "pmatch (n_path (hdr w) @ p) s =
      map_option (Cons (nm, takeWhile not_slash s)) (pmatch p (dropWhile not_slash s))"
    if "(p, hs) \<in> below w" for p hs
    using pmatch_param [OF nm(2) nm(3) [OF that]] assms(3) nm(1) by simp
  then have "(hs, ps) \<in> matches (set (routes w)) s \<longleftrightarrow>
      (\<exists>ps'. ps = (nm, takeWhile not_slash s) # ps' \<and> (hs, ps') \<in> matches (below w) (dropWhile not_slash s))"
    for hs ps
    by (subst matches_routes) (auto simp: in_matches cong: conj_cong)
  then show ?thesis by (fastforce simp: nm(1))
qed

lemma matches_catchAll:
  assumes "wf_catchAll B g" "n_handlers (hdr g) = Some hs"
  shows "matches (set (routes g)) s =
    (if s \<noteq> [] \<and> hd s = CHR ''/'' then {(hs, [(drop 2 (n_path (hdr g)), s)])} else {})"
  using assms by (elim routes_catchAll) (auto simp: matches_def pmatch_catchAll)

lemma matches_catch:
  assumes "wf_tree B n" "n_nType (hdr n) = CatchAll"
  obtains g hs where "children n = [g]" "wf_catchAll B g" "n_handlers (hdr g) = Some hs"
    "matches (set (routes n)) s =
      (if s \<noteq> [] \<and> hd s = CHR ''/'' then {(hs, [(drop 2 (n_path (hdr g)), s)])} else {})"
proof -
  from assms obtain g where g: "children n = [g]" "wf_catchAll B g" "n_path (hdr n) = []"
    "n_handlers (hdr n) = None" by (auto simp: wf_tree_catch)
  then have "set (routes n) = set (routes g)" by (auto simp: set_routes [of n] below_def)
  with g matches_catchAll [OF g(2)] that show thesis by (auto simp: wf_catchAll_def)
qed

section \<open>The lookup\<close>

text \<open>
  A slice has room for the parameters below a node when it is empty (the code makes a new one)
  or when its capacity leaves \<open>B\<close> places.
\<close>

definition fits :: "nat \<Rightarrow> pslice \<Rightarrow> bool" where
  "fits B q \<longleftrightarrow> p_elems q = [] \<or> length (p_elems q) + B \<le> p_cap q"

lemma save_param_fits:
  assumes "fits B q" "1 \<le> unat m" "unat m \<le> B" "k \<le> length np"
  obtains q' where "save_param m k np v q = Inr q'" "p_elems q' = p_elems q @ [(drop k np, v)]"
    "fits (unat m - 1) q'"
proof -
  define q0 where "q0 = (if p_cap q < unat m then \<lparr>p_elems = [], p_cap = unat m\<rparr> else q)"
  have "p_elems q0 = p_elems q" "length (p_elems q0) + unat m \<le> p_cap q0"
    using assms by (auto simp: q0_def fits_def)
  moreover from this assms have "save_param m k np v q = Inr (q0\<lparr>p_elems := p_elems q0 @ [(drop k np, v)]\<rparr>)"
    unfolding save_param_def q0_def [symmetric] Let_def by auto
  ultimately show thesis using assms that by (auto simp: fits_def)
qed

text \<open>
  What a lookup of \<open>s\<close> among the routes \<open>R\<close> must answer: the handlers and parameters of the one
  matching route, or nothing when no route matches.
\<close>

definition lookup_ok ::
    "(string \<times> 'h list) set \<Rightarrow> string \<Rightarrow> pslice \<Rightarrow> ('h list option \<times> pslice \<times> bool) go \<Rightarrow> bool" where
  "lookup_ok R s q r \<longleftrightarrow>
     (\<exists>hs q' t. r = Inr (hs, q', t) \<and>
        (case hs of None \<Rightarrow> matches R s = {}
         | Some h \<Rightarrow> \<exists>ps. matches R s = {(h, ps)} \<and> p_elems q' = p_elems q @ ps))"

lemma lookup_ok_None:
  "matches R s = {} \<Longrightarrow> lookup_ok R s q (Inr (None, q', t))"
  by (simp add: lookup_ok_def)

lemma lookup_ok_Some:
  "matches R s = {(h, ps)} \<Longrightarrow> p_elems q' = p_elems q @ ps \<Longrightarrow>
   lookup_ok R s q (Inr (Some h, q', t))"
  by (simp add: lookup_ok_def)

text \<open>A lookup that goes on below a parameter.\<close>

lemma lookup_ok_param:
  assumes "lookup_ok R' s' q' r" "p_elems q' = p_elems q @ [x]"
    "matches R s = (\<lambda>(hs, ps). (hs, x # ps)) ` matches R' s'"
  shows "lookup_ok R s q r"
  using assms unfolding lookup_ok_def by (fastforce split: option.splits)

lemma lookup_ok_cong:
  "matches R s = matches R' s' \<Longrightarrow> lookup_ok R s q r = lookup_ok R' s' q r"
  unfolding lookup_ok_def by presburger

lemma slash_child_total:
  assumes "wf_tree B n" "n_nType (hdr n) = Static" "find_index (CHR ''/'') (n_indices (hdr n)) = Some i"
  shows "\<exists>t. bindG (at (children n) i) slash_child_handles = Inr t"
proof -
  have i: "i < length (children n)"
    using assms by (auto simp: wf_tree_static dest: find_index_SomeD split: if_splits)
  then have "wf_tree B (children n ! i)" using assms by (auto simp: wf_tree_static)
  then have "n_nType (hdr (children n ! i)) = CatchAll \<Longrightarrow> children (children n ! i) \<noteq> []"
    by (auto simp: wf_tree_catch)
  with i show ?thesis
    by (cases "children (children n ! i)") (auto simp: at_def slash_child_handles_def)
qed

lemma segment_end_simps:
  "take (segment_end s) s = takeWhile not_slash s"
  "drop (segment_end s) s = dropWhile not_slash s"
  "segment_end s < length s \<longleftrightarrow> dropWhile not_slash s \<noteq> []"
  unfolding segment_end_def
  by (induction s) auto

text \<open>The branches of one round of \<open>getValue\<close>.\<close>

lemma getValue_no_prefix:
  "\<not> prefix (n_path (hdr n)) s \<Longrightarrow> getValue n s q = Inr (None, q, tsr_extra_slash (hdr n) s)"
  by (subst getValue.simps) (auto simp: Let_def)

lemma getValue_here:
  "getValue n (n_path (hdr n)) q =
     (if n_handlers (hdr n) \<noteq> None then Inr (n_handlers (hdr n), q, False)
      else (case find_index (CHR ''/'') (n_indices (hdr n)) of
          Some i \<Rightarrow> mapG (\<lambda>t. (None, q, t)) (bindG (at (children n) i) slash_child_handles)
        | None \<Rightarrow> Inr (None, q, False)))"
  by (subst getValue.simps) (simp add: Let_def)

lemma getValue_index:
  assumes "s \<noteq> []" "\<not> n_wildChild (hdr n)"
  shows "getValue n (n_path (hdr n) @ s) q =
     (case find_index (hd s) (n_indices (hdr n)) of
        Some i \<Rightarrow> if i < length (children n) then getValue (children n ! i) s q else Inl index_panic
      | None \<Rightarrow> Inr (None, q, s = ''/'' \<and> n_handlers (hdr n) \<noteq> None))"
  using assms by (subst getValue.simps) (simp add: Let_def)

lemma getValue_param:
  assumes "s \<noteq> []" "n_wildChild (hdr n)" "children n = w # ws" "n_nType (hdr w) = Param"
  shows "getValue n (n_path (hdr n) @ s) q =
      bindG (save_param (n_maxParams (hdr w)) 1 (n_path (hdr w)) (takeWhile not_slash s) q) (\<lambda>q.
        if dropWhile not_slash s \<noteq> [] then
          (if children w \<noteq> [] then getValue (hd (children w)) (dropWhile not_slash s) q
           else Inr (None, q, length s = segment_end s + 1))
        else if n_handlers (hdr w) \<noteq> None then Inr (n_handlers (hdr w), q, False)
        else (case children w of
            [c] \<Rightarrow> Inr (None, q, n_path (hdr c) = ''/'' \<and> n_handlers (hdr c) \<noteq> None)
          | _ \<Rightarrow> Inr (None, q, False)))"
  using assms by (subst getValue.simps) (simp add: Let_def segment_end_simps cong: if_cong)

lemma getValue_catchAll:
  assumes "s \<noteq> []" "n_wildChild (hdr n)" "children n = w # ws" "n_nType (hdr w) = CatchAll"
  shows "getValue n (n_path (hdr n) @ s) q =
     bindG (save_param (n_maxParams (hdr w)) 2 (n_path (hdr w)) s q)
       (\<lambda>q. Inr (n_handlers (hdr w), q, False))"
  using assms by (subst getValue.simps) (simp add: Let_def)

lemma getValue_catch:
  assumes "wf_tree B n" "n_nType (hdr n) = CatchAll" "fits B q" "s \<noteq> []" "hd s = CHR ''/''"
  shows "lookup_ok (set (routes n)) s q (getValue n s q)"
proof -
  obtain g hs where g: "children n = [g]" "wf_catchAll B g" "n_handlers (hdr g) = Some hs"
    and m: "matches (set (routes n)) s = {(hs, [(drop 2 (n_path (hdr g)), s)])}"
    using matches_catch [OF assms(1,2)] assms(4,5) by metis
  from assms(1,2) have n: "n_path (hdr n) = []" "n_wildChild (hdr n)" by (auto simp: wf_tree_catch)
  from g(2) have gt: "n_nType (hdr g) = CatchAll" "1 \<le> unat (n_maxParams (hdr g))"
    "unat (n_maxParams (hdr g)) \<le> B" "2 \<le> length (n_path (hdr g))"
    by (auto simp: wf_catchAll_def)
  obtain q' where q': "save_param (n_maxParams (hdr g)) 2 (n_path (hdr g)) s q = Inr q'"
    "p_elems q' = p_elems q @ [(drop 2 (n_path (hdr g)), s)]"
    using save_param_fits [OF assms(3) gt(2,3,4)] by metis
  with n g gt assms(4) have "getValue n s q = Inr (Some hs, q', False)"
    using getValue_catchAll [of s n g] by simp
  with m q' show ?thesis by (simp add: lookup_ok_Some)
qed

text \<open>The static nodes, one case each: the path ends here, goes through the wildcard, or on to a child.\<close>

lemma getValue_ends_here:
  assumes "wf_tree B n" "n_nType (hdr n) = Static"
  shows "lookup_ok (set (routes n)) (n_path (hdr n)) q (getValue n (n_path (hdr n)) q)"
proof (cases "n_handlers (hdr n)")
  case None
  have "\<exists>r. getValue n (n_path (hdr n)) q = Inr (None, r)"
  proof (cases "find_index (CHR ''/'') (n_indices (hdr n))")
    case (Some i)
    with slash_child_total [OF assms Some] None show ?thesis
      by (auto simp: getValue_here simp del: find_index_None)
  qed (use None in \<open>auto simp: getValue_here\<close>)
  with None assms show ?thesis
    using matches_static [OF assms, of "n_path (hdr n)"] by (auto simp: lookup_ok_None matches_here [OF assms(1)])
next
  case (Some hs)
  with assms show ?thesis
    using matches_static [OF assms, of "n_path (hdr n)"]
    by (simp add: getValue_here lookup_ok_Some matches_here [OF assms(1)])
qed

text \<open>What the code does at a parameter node, once the value is saved.\<close>

lemma param_node_ok:
  assumes w: "wf_tree B w" "n_nType (hdr w) = Param" and s: "s \<noteq> []"
    and q': "p_elems q' = p_elems q @ [(tl (n_path (hdr w)), takeWhile not_slash s)]"
    and IH: "\<And>c. children w = [c] \<Longrightarrow> dropWhile not_slash s \<noteq> [] \<Longrightarrow>
      lookup_ok (set (routes c)) (dropWhile not_slash s) q' (getValue c (dropWhile not_slash s) q')"
  shows "lookup_ok (set (routes w)) s q
    (if dropWhile not_slash s \<noteq> [] then
       (if children w \<noteq> [] then getValue (hd (children w)) (dropWhile not_slash s) q'
        else Inr (None, q', length s = segment_end s + 1))
     else if n_handlers (hdr w) \<noteq> None then Inr (n_handlers (hdr w), q', False)
     else (case children w of
         [c] \<Rightarrow> Inr (None, q', n_path (hdr c) = ''/'' \<and> n_handlers (hdr c) \<noteq> None)
       | _ \<Rightarrow> Inr (None, q', False)))"
proof (cases "dropWhile not_slash s = []")
  case True
  with matches_param [OF w s] have "matches (set (routes w)) s =
      (case n_handlers (hdr w) of None \<Rightarrow> {} | Some hs \<Rightarrow> {(hs, [(tl (n_path (hdr w)), takeWhile not_slash s)])})"
    using w(2) by (simp add: matches_here [OF w(1)] split: option.splits)
  with True q' show ?thesis
    by (cases "n_handlers (hdr w)") (auto simp: lookup_ok_None lookup_ok_Some split: list.splits)
next
  case rest: False
  show ?thesis
  proof (cases "children w")
    case Nil
    with rest matches_param [OF w s] show ?thesis by (simp add: matches_below_Cons lookup_ok_None)
  next
    case (Cons c cs)
    with w have c: "cs = []" by (auto simp: wf_tree_param)
    with IH Cons rest have "lookup_ok (set (routes c)) (dropWhile not_slash s) q' (getValue c (dropWhile not_slash s) q')"
      by blast
    moreover from rest Cons c have "matches (below w) (dropWhile not_slash s) = matches (set (routes c)) (dropWhile not_slash s)"
      by (simp add: matches_below_Cons)
    ultimately show ?thesis
      using lookup_ok_param [OF _ q', of "set (routes c)" "dropWhile not_slash s"] matches_param [OF w s] rest Cons by simp
  qed
qed

lemma getValue_through_param:
  assumes n: "wf_tree B n" "n_nType (hdr n) = Static" "n_wildChild (hdr n)" and s: "s \<noteq> []" and q: "fits B q"
    and IH: "\<And>w c B q s. children n = [w] \<Longrightarrow> children w = [c] \<Longrightarrow> wf_tree B c \<Longrightarrow> n_nType (hdr c) = Static \<Longrightarrow>
      fits B q \<Longrightarrow> lookup_ok (set (routes c)) s q (getValue c s q)"
  shows "lookup_ok (below n) s q (getValue n (n_path (hdr n) @ s) q)"
proof -
  from n obtain w where w: "children n = [w]" "n_nType (hdr w) = Param" "wf_tree B w"
    by (auto simp: wf_tree_static)
  then have wc: "1 \<le> unat (n_maxParams (hdr w))" "unat (n_maxParams (hdr w)) \<le> B" "1 \<le> length (n_path (hdr w))"
    by (auto simp: wf_tree_param)
  obtain q' where q': "save_param (n_maxParams (hdr w)) 1 (n_path (hdr w)) (takeWhile not_slash s) q = Inr q'"
    "p_elems q' = p_elems q @ [(tl (n_path (hdr w)), takeWhile not_slash s)]" "fits (unat (n_maxParams (hdr w)) - 1) q'"
    using save_param_fits [OF q wc] by (metis One_nat_def drop_0 drop_Suc)
  have "lookup_ok (set (routes c)) (dropWhile not_slash s) q' (getValue c (dropWhile not_slash s) q')"
    if "children w = [c]" for c
    using that w by (intro IH [OF w(1) that _ _ q'(3)]) (auto simp: wf_tree_param)
  from param_node_ok [OF w(3,2) s q'(2) this] have "lookup_ok (set (routes w)) s q (getValue n (n_path (hdr n) @ s) q)"
    using getValue_param [OF s n(3) w(1,2), of q] q'(1) by simp
  then show ?thesis
    using w(1) by (simp add: lookup_ok_cong [of "below n" s "set (routes w)" s] matches_below_Cons [OF s])
qed

lemma getValue_to_child:
  assumes n: "wf_tree B n" "n_nType (hdr n) = Static" "\<not> n_wildChild (hdr n)" and s: "s \<noteq> []"
    and IH: "\<And>c. c \<in> set (children n) \<Longrightarrow> wf_tree B c \<Longrightarrow> n_nType (hdr c) \<noteq> Param \<Longrightarrow>
      (n_nType (hdr c) = CatchAll \<Longrightarrow> hd s = CHR ''/'') \<Longrightarrow> lookup_ok (set (routes c)) s q (getValue c s q)"
  shows "lookup_ok (below n) s q (getValue n (n_path (hdr n) @ s) q)"
proof (cases "find_index (hd s) (n_indices (hdr n))")
  case None
  with matches_child [OF n s] getValue_index [OF s n(3), of q] show ?thesis by (simp add: lookup_ok_None)
next
  case (Some i)
  with n have i: "i < length (children n)" "n_indices (hdr n) ! i = hd s"
    by (auto simp: wf_tree_static dest: find_index_SomeD)
  let ?c = "children n ! i"
  from i n have c: "wf_tree B ?c" "starts (hd s) ?c" "n_nType (hdr ?c) \<noteq> Param"
    by (auto simp: wf_tree_static list_all2_conv_all_nth)
  then have "n_nType (hdr ?c) = CatchAll \<Longrightarrow> hd s = CHR ''/''" by (auto simp: starts_def wf_tree_catch)
  with IH [of ?c] i(1) c have "lookup_ok (set (routes ?c)) s q (getValue ?c s q)" by simp
  moreover from Some i(1) have "getValue n (n_path (hdr n) @ s) q = getValue ?c s q"
    using getValue_index [OF s n(3), of q] by simp
  ultimately show ?thesis
    using matches_child [OF n s] Some by (simp add: lookup_ok_cong [of "below n" s "set (routes ?c)" s])
qed

lemma getValue_wf:
  assumes "wf_tree B n" "n_nType (hdr n) \<noteq> Param" "fits B q"
    "n_nType (hdr n) = CatchAll \<Longrightarrow> s \<noteq> [] \<and> hd s = CHR ''/''"
  shows "lookup_ok (set (routes n)) s q (getValue n s q)"
  using assms
proof (induction "nsize n" arbitrary: n B q s rule: less_induct)
  case less
  show ?case
  proof (cases "n_nType (hdr n) = CatchAll")
    case True
    with less.prems getValue_catch show ?thesis by blast
  next
    case False
    with less.prems(2) have st: "n_nType (hdr n) = Static" by (cases "n_nType (hdr n)") auto
    note m = matches_static [OF less.prems(1) st, of s]
    consider (none) "\<not> prefix (n_path (hdr n)) s" | (here) "s = n_path (hdr n)"
      | (deeper) s' where "s = n_path (hdr n) @ s'" "s' \<noteq> []"
      by (cases "prefix (n_path (hdr n)) s") (auto simp: prefix_def)
    then show ?thesis
    proof cases
      case none
      with m show ?thesis by (simp add: getValue_no_prefix lookup_ok_None)
    next
      case here
      with getValue_ends_here [OF less.prems(1) st] show ?thesis by simp
    next
      case deeper
      have child: "nsize c < nsize n" if "children n = [w]" "children w = [c]" for w c
        using that nsize_child [of w n] nsize_child [of c w] by simp
      have "lookup_ok (below n) s' q (getValue n s q)"
      proof (cases "n_wildChild (hdr n)")
        case True
        show ?thesis unfolding deeper(1)
          by (rule getValue_through_param [OF less.prems(1) st True deeper(2) less.prems(3)], rule less.hyps [OF child])
             simp_all
      next
        case F: False
        from getValue_to_child [OF less.prems(1) st F deeper(2)] less.hyps [OF nsize_child _ _ less.prems(3)] deeper(2)
        show ?thesis unfolding deeper(1) by blast
      qed
      with m deeper lookup_ok_cong [of "set (routes n)" s "below n" s'] show ?thesis by simp
    qed
  qed
qed

end
