(* ===== verification/RouteInsert.thy ===== *)
theory RouteInsert
  imports RouteLookup "HOL-Library.Multiset"
begin

text \<open>
  The insertion of a route keeps the invariant \<open>wf_tree\<close> and adds exactly the new pattern to the
  routes of the tree (for a valid pattern with at most 255 parameters).
\<close>

section \<open>Updates that change no route\<close>

definition harmless :: "('h hdr \<Rightarrow> 'h hdr) \<Rightarrow> bool" where
  "harmless f \<longleftrightarrow> (\<forall>h. n_path (f h) = n_path h \<and> n_wildChild (f h) = n_wildChild h \<and>
     n_nType (f h) = n_nType h \<and> n_indices (f h) = n_indices h \<and> n_handlers (f h) = n_handlers h)"

lemma harmless_incr [simp]: "harmless incr_priority"
  by (simp add: harmless_def)

lemma harmless_raise [simp]: "harmless (raise_maxParams k)"
  by (simp add: harmless_def)

lemma harmless_raise_incr [simp]: "harmless (raise_maxParams k \<circ> incr_priority)"
  by (simp add: harmless_def)

lemma harmless_starts [simp]: "harmless f \<Longrightarrow> starts x (upd f n) = starts x n"
  by (simp add: starts_def harmless_def)

lemma harmless_below: "harmless f \<Longrightarrow> below (upd f n) = below n"
  by (simp add: below_def harmless_def)

lemma harmless_routes [simp]: "harmless f \<Longrightarrow> set (routes (upd f n)) = set (routes n)"
  by (simp add: set_routes [of "upd f n"] set_routes [of n] harmless_below) (simp add: harmless_def)

lemma wf_tree_incr [simp]: "wf_tree B (upd incr_priority n) = wf_tree B n"
  by (cases n) (simp add: wf_tree.simps split: nodeType.split)

lemma unat_raise: "unat (n_maxParams (raise_maxParams k h)) = max (unat (n_maxParams h)) (unat k)"
  by (auto simp: raise_maxParams_def word_less_nat_alt)

lemma wf_tree_raise:
  assumes "wf_tree B n" "unat k \<le> B"
  shows "wf_tree B (upd (raise_maxParams k) n)"
proof (cases n)
  case (Node h cs)
  show ?thesis
  proof (cases "n_nType h")
    case Param
    have "wf_tree (unat (n_maxParams h) - 1) c \<Longrightarrow> wf_tree (max (unat (n_maxParams h)) (unat k) - 1) c" for c :: "'a node"
      by (erule wf_tree_mono) simp
    with Param Node assms show ?thesis by (auto simp: wf_tree.simps unat_raise)
  qed (use Node assms in \<open>simp_all add: wf_tree.simps\<close>)
qed

lemma wf_tree_raise_incr:
  assumes "wf_tree B n" "unat k \<le> B"
  shows "wf_tree B (upd (raise_maxParams k \<circ> incr_priority) n)"
proof -
  have "upd (raise_maxParams k \<circ> incr_priority) n = upd (raise_maxParams k) (upd incr_priority n)"
    by (cases n) simp
  with wf_tree_raise [of B "upd incr_priority n" k] assms show ?thesis by simp
qed

section \<open>The order of the children\<close>

definition move :: "'a list \<Rightarrow> nat \<Rightarrow> nat \<Rightarrow> 'a list" where
  "move xs pos newPos = take newPos xs @ [xs ! pos] @ slice xs newPos pos @ drop (Suc pos) xs"

lemma bubble_move:
  "pos < length cs \<Longrightarrow> fst (bubble cs pos p) = move cs pos (snd (bubble cs pos p))"
proof (induction cs pos p rule: bubble.induct)
  case (1 cs prio)
  then show ?case by (simp add: move_def Cons_nth_drop_Suc)
next
  case (2 cs k prio)
  show ?case
  proof (cases "child_prio (cs ! k) < prio")
    case True
    let ?cs = "cs[k := cs ! Suc k, Suc k := cs ! k]"
    obtain j where j: "snd (bubble ?cs k prio) = j" by blast
    have "j \<le> k" using bubble_props [of k ?cs prio] 2 j by simp
    then have "slice cs j (Suc k) = slice cs j k @ [cs ! k]"
      using "2.prems" by (simp add: slice_Suc)
    moreover have "slice ?cs j k = slice cs j k" "take j ?cs = take j cs"
      using \<open>j \<le> k\<close> by (simp_all add: slice_def take_drop)
    moreover have "drop (Suc k) ?cs = cs ! k # drop (Suc (Suc k)) cs"
      using "2.prems" by (simp add: drop_update_swap Cons_nth_drop_Suc [symmetric])
    ultimately show ?thesis
      using True "2.IH" "2.prems" j \<open>j \<le> k\<close> by (simp add: move_def)
  next
    case False
    with "2.prems" show ?thesis by (simp add: move_def id_take_nth_drop [symmetric])
  qed
qed

lemma move_id [simp]: "pos < length xs \<Longrightarrow> move xs pos pos = xs"
  by (simp add: move_def id_take_nth_drop [symmetric])

lemma move_index_eq: "pos < length xs \<Longrightarrow> move_index xs pos j = move xs pos j"
  by (simp add: move_index_def move_def slice_def Cons_nth_drop_Suc [symmetric])

lemma length_move [simp]: "j \<le> pos \<Longrightarrow> pos < length xs \<Longrightarrow> length (move xs pos j) = length xs"
  by (simp add: move_def)

lemma mset_move: "j \<le> pos \<Longrightarrow> pos < length xs \<Longrightarrow> mset (move xs pos j) = mset xs"
proof -
  assume a: "j \<le> pos" "pos < length xs"
  have "xs = take j xs @ slice xs j pos @ [xs ! pos] @ drop (Suc pos) xs"
    using a by (metis append.assoc append_Cons append_Nil id_take_nth_drop take_slice_append)
  then have "mset xs = mset (take j xs @ slice xs j pos @ [xs ! pos] @ drop (Suc pos) xs)" by simp
  then show ?thesis by (simp add: move_def)
qed

lemma zip_move:
  "length xs = length ys \<Longrightarrow> j \<le> pos \<Longrightarrow> pos < length xs \<Longrightarrow>
   zip (move xs pos j) (move ys pos j) = move (zip xs ys) pos j"
  by (simp add: move_def slice_def take_zip drop_zip)

lemma move_update:
  "j \<le> pos \<Longrightarrow> pos < length xs \<Longrightarrow> (move xs pos j)[j := x] = move (xs[pos := x]) pos j"
  by (simp add: move_def list_update_append slice_def take_drop)

text \<open>
  What \<open>incrementChildPrio\<close> does: it does not panic, and up to the order of the pairs of an index
  and its child only the priority of one child changes.
\<close>

lemma incrementChildPrio_replace:
  assumes "length (n_indices (hdr n)) = length (children n)" "k < length (children n)"
  obtains n' j where "incrementChildPrio n k = Inr (n', j)"
    "hdr n' = (hdr n)\<lparr>n_indices := n_indices (hdr n')\<rparr>"
    "children n' ! j = upd incr_priority (children n ! k)" "j < length (children n')"
    "length (n_indices (hdr n')) = length (children n')"
    "\<And>c. mset (zip (n_indices (hdr n')) ((children n')[j := c])) =
          mset (zip (n_indices (hdr n)) ((children n)[k := c]))"
proof -
  define cs where "cs = (children n)[k := upd incr_priority (children n ! k)]"
  define j where "j = snd (bubble cs k (child_prio (cs ! k)))"
  define idx where "idx = move (n_indices (hdr n)) k j"
  have k: "k < length cs" "k < length (n_indices (hdr n))" using assms by (simp_all add: cs_def)
  have b: "bubble cs k (child_prio (cs ! k)) = (move cs k j, j)" and j: "j \<le> k"
    using bubble_move [OF k(1)] bubble_props [OF k(1)] by (auto simp: j_def prod_eq_iff)
  let ?n' = "Node ((hdr n)\<lparr>n_indices := idx\<rparr>) (move cs k j)"
  have "incrementChildPrio n k = Inr (?n', j)"
    using assms b k unfolding incrementChildPrio_def cs_def [symmetric] Let_def
    by (simp add: idx_def move_index_eq)
  moreover have "move cs k j ! j = upd incr_priority (children n ! k)"
    using j k assms by (simp add: move_def nth_append cs_def)
  moreover have "mset (zip idx ((move cs k j)[j := c])) = mset (zip (n_indices (hdr n)) ((children n)[k := c]))"
    for c
  proof -
    have "(move cs k j)[j := c] = move ((children n)[k := c]) k j"
      using j k by (simp add: move_update cs_def)
    with assms j k show ?thesis by (simp add: idx_def zip_move mset_move)
  qed
  ultimately show thesis using that [of ?n' j] j k assms by (simp add: idx_def cs_def)
qed

text \<open>The order of the pairs matters neither for \<open>wf_tree\<close> nor for the routes.\<close>

lemma pairs_perm:
  assumes "length xs = length cs" "length xs' = length cs'" "mset (zip xs cs) = mset (zip xs' cs')"
  shows "set cs' = set cs" "set xs' = set xs" "distinct xs' = distinct xs"
    "list_all2 P xs' cs' = list_all2 P xs cs"
proof -
  have s: "set (zip xs' cs') = set (zip xs cs)" using assms(3) by (metis mset_eq_setD)
  have "mset (map snd (zip xs cs)) = mset (map snd (zip xs' cs'))"
    "mset (map fst (zip xs cs)) = mset (map fst (zip xs' cs'))"
    unfolding mset_map assms(3) by simp_all
  with assms(1,2) have m: "mset cs = mset cs'" "mset xs = mset xs'" by simp_all
  then show "set cs' = set cs" "set xs' = set xs" "distinct xs' = distinct xs"
    by (metis mset_eq_setD, metis mset_eq_setD, metis mset_eq_imp_distinct_iff)
  show "list_all2 P xs' cs' = list_all2 P xs cs"
    using assms(1,2) s by (simp add: list_all2_iff)
qed

lemma below_perm: "n_handlers (hdr n') = n_handlers (hdr n) \<Longrightarrow> set (children n') = set (children n) \<Longrightarrow>
   below n' = below n"
  by (simp add: below_def)

lemma wf_tree_perm:
  assumes "n_nType (hdr n) = Static" "\<not> n_wildChild (hdr n)" "wf_tree B n"
    "hdr n' = (hdr n)\<lparr>n_indices := n_indices (hdr n')\<rparr>"
    "length (n_indices (hdr n')) = length (children n')"
    "mset (zip (n_indices (hdr n')) (children n')) = mset (zip (n_indices (hdr n)) (children n))"
  shows "wf_tree B n'"
proof -
  have len: "length (n_indices (hdr n)) = length (children n)"
    using assms(1,2,3) by (simp add: wf_tree_static)
  note p = pairs_perm [OF len assms(5) assms(6) [symmetric]]
  have h: "n_nType (hdr n') = Static" "\<not> n_wildChild (hdr n')" "n_path (hdr n') = n_path (hdr n)"
    using assms(1,2) arg_cong [OF assms(4), of n_nType] arg_cong [OF assms(4), of n_wildChild]
      arg_cong [OF assms(4), of n_path] by auto
  show ?thesis using assms(1,2,3,5) h p by (simp add: wf_tree_static)
qed

section \<open>\<open>insertChild\<close> on a node without children\<close>

lemma wildcard_end_name:
  "good_name nm \<Longrightarrow> r = [] \<or> hd r = CHR ''/'' \<Longrightarrow> wildcard_end (nm @ r) = Some (length nm)"
proof -
  have "CHR ''/'' \<notin> set nm \<Longrightarrow> wildfree nm \<Longrightarrow> r = [] \<or> hd r = CHR ''/'' \<Longrightarrow>
    wildcard_end (nm @ r) = Some (length nm)"
    by (induction nm) (auto, cases r, auto)
  then show "good_name nm \<Longrightarrow> r = [] \<or> hd r = CHR ''/'' \<Longrightarrow> ?thesis" by (simp add: good_name_def)
qed

text \<open>The loop runs over bytes that start no wildcard.\<close>

lemma insertChild_skip:
  assumes "wildfree u"
  shows "insertChild_loop np (p @ u @ r) full hs offset (length p) n =
    insertChild_loop np (p @ u @ r) full hs offset (length p + length u) n"
  using assms
proof (induction u arbitrary: p)
  case (Cons c u)
  from Cons.IH [of "p @ [c]"] Cons.prems
  have "insertChild_loop np (p @ (c # u) @ r) full hs offset (Suc (length p)) n =
      insertChild_loop np (p @ (c # u) @ r) full hs offset (length p + length (c # u)) n" by simp
  moreover have "insertChild_loop np (p @ (c # u) @ r) full hs offset (length p) n =
      insertChild_loop np (p @ (c # u) @ r) full hs offset (Suc (length p)) n"
  proof (cases "0 < np")
    case True
    with Cons.prems show ?thesis
      by (subst insertChild_loop.simps) (simp add: nth_append)
  next
    case False
    then show ?thesis by (simp add: insertChild_loop.simps)
  qed
  ultimately show ?case by simp
qed simp

lemma of_nat_pos: "0 < k \<Longrightarrow> k \<le> 255 \<Longrightarrow> 0 < (word_of_nat k :: 8 word)"
  by (simp add: word_less_nat_alt unat_of_nat)

lemma unat_of_nat_255 [simp]: "k \<le> 255 \<Longrightarrow> unat (word_of_nat k :: 8 word) = k"
  by (simp add: unat_of_nat)

lemma of_nat_Suc_minus: "(word_of_nat (Suc k) :: 8 word) - 1 = word_of_nat k"
  by simp

definition fresh :: "'h node \<Rightarrow> bool" where
  "fresh n \<longleftrightarrow> children n = [] \<and> n_path (hdr n) = [] \<and> n_nType (hdr n) = Static \<and>
     \<not> n_wildChild (hdr n) \<and> n_indices (hdr n) = [] \<and> n_handlers (hdr n) = None"

text \<open>What an inserted subtree \<open>n\<close> for the pattern \<open>p\<close> with the handlers \<open>h\<close> is.\<close>

definition holds :: "nat \<Rightarrow> string \<Rightarrow> 'h list \<Rightarrow> 'h node \<Rightarrow> bool" where
  "holds B p h n \<longleftrightarrow> wf_tree B n \<and> n_nType (hdr n) = Static \<and> starts (hd p) n \<and>
     set (routes n) = {(p, h)}"

definition holds_param :: "nat \<Rightarrow> string \<Rightarrow> string \<Rightarrow> 'h list \<Rightarrow> 'h node \<Rightarrow> bool" where
  "holds_param B nm r h w \<longleftrightarrow> wf_tree B w \<and> n_nType (hdr w) = Param \<and>
     set (routes w) = {(CHR '':'' # nm @ r, h)}"

text \<open>The round of the loop at a parameter \<open>:nm\<close>, given that the rest \<open>r\<close> can be inserted.\<close>

lemma insertChild_param_step:
  fixes n :: "'h node" and h :: "'h list" and q r nm :: string and offset :: nat
  defines "hd_n \<equiv> (if q \<noteq> [] then (hdr n)\<lparr>n_path := slice (q @ CHR '':'' # nm @ r) offset (length q)\<rparr> else hdr n)\<lparr>n_wildChild := True\<rparr>"
    and "child \<equiv> zero_hdr\<lparr>n_nType := Param, n_maxParams := word_of_nat (Suc (wilds r)), n_priority := 1\<rparr> :: 'h hdr"
  assumes path: "path = q @ CHR '':'' # nm @ r" and nm: "good_name nm" "r = [] \<or> hd r = CHR ''/''"
    and np: "Suc (wilds r) \<le> 255" and n: "children n = []" "offset \<le> length q"
  shows "insertChild_loop (word_of_nat (Suc (wilds r))) path full (Some h) offset (length q) n =
    (if r \<noteq> [] then
       mapG (\<lambda>g. Node hd_n [Node (child\<lparr>n_path := CHR '':'' # nm\<rparr>) [g]])
         (insertChild_loop (word_of_nat (wilds r)) path full (Some h) (length q + Suc (length nm)) (Suc (length q))
            (Node (zero_hdr\<lparr>n_maxParams := word_of_nat (wilds r), n_priority := 1\<rparr>) []))
     else mapG (\<lambda>c. Node hd_n [c])
         (insertChild_loop (word_of_nat (wilds r)) path full (Some h) (length q) (Suc (length q)) (Node child [])))"
proof -
  have pos: "0 < (word_of_nat (Suc (wilds r)) :: 8 word)" using of_nat_pos [of "Suc (wilds r)"] np by simp
  have facts: "\<not> length path \<le> length q" "path ! length q = CHR '':''"
    "drop (Suc (length q)) path = nm @ r" "length q + Suc (length nm) < length path \<longleftrightarrow> r \<noteq> []"
    "slice path (length q) (length q + Suc (length nm)) = CHR '':'' # nm" "drop (length q) path = CHR '':'' # nm @ r"
    by (simp_all add: path slice_def)
  have nm': "nm \<noteq> []" "CHR ''/'' \<notin> set nm" using nm by (auto simp: good_name_def)
  show ?thesis
    using pos facts n nm' unfolding child_def hd_n_def path [symmetric]
    by (subst insertChild_loop.simps, cases "q = []"; cases n)
       (simp_all add: wildcard_end_name [OF nm] Let_def of_nat_Suc_minus cong: if_cong)
qed

lemma insertChild_param:
  assumes path: "path = q @ CHR '':'' # nm @ r" and nm: "good_name nm" "r = [] \<or> hd r = CHR ''/''"
    and np: "Suc (wilds r) \<le> 255" and n: "children n = []" "offset \<le> length q"
    and rest: "\<And>g. r \<noteq> [] \<Longrightarrow> fresh g \<Longrightarrow> \<exists>g'. insertChild_loop (word_of_nat (wilds r)) path full (Some h)
      (length path - length r) (length path - length r) g = Inr g' \<and> holds (wilds r) r h g'"
  obtains w where "holds_param (Suc (wilds r)) nm r h w"
    "insertChild_loop (word_of_nat (Suc (wilds r))) path full (Some h) offset (length q) n =
      Inr (Node ((if q \<noteq> [] then (hdr n)\<lparr>n_path := slice path offset (length q)\<rparr> else hdr n)
                   \<lparr>n_wildChild := True\<rparr>) [w])"
proof -
  let ?e = "length q + Suc (length nm)"
  let ?h = "(if q \<noteq> [] then (hdr n)\<lparr>n_path := slice path offset (length q)\<rparr> else hdr n)\<lparr>n_wildChild := True\<rparr>"
  let ?child = "zero_hdr\<lparr>n_nType := Param, n_maxParams := word_of_nat (Suc (wilds r)), n_priority := 1\<rparr> :: 'a hdr"
  let ?grand = "Node (zero_hdr\<lparr>n_maxParams := word_of_nat (wilds r), n_priority := 1\<rparr>) [] :: 'a node"
  have u: "unat (1 + word_of_nat (wilds r) :: 8 word) = Suc (wilds r)"
    using unat_of_nat_255 [of "Suc (wilds r)"] np by simp
  note step = insertChild_param_step [OF path nm np n, of full h, folded path]
  show thesis
  proof (cases "r = []")
    case True
    let ?w = "Node (?child\<lparr>n_path := CHR '':'' # nm, n_handlers := Some h\<rparr>) []"
    have "drop (length q) path = CHR '':'' # nm" by (simp add: path True)
    with True step have "insertChild_loop (word_of_nat (Suc (wilds r))) path full (Some h) offset (length q) n = Inr (Node ?h [?w])"
      by (simp add: insertChild_loop.simps [of 0])
    moreover from True nm have "holds_param (Suc (wilds r)) nm r h ?w"
      by (simp add: holds_param_def wf_tree.simps)
    ultimately show thesis using that by blast
  next
    case False
    have e: "length path - length r = ?e" by (simp add: path)
    from False rest [of ?grand] obtain g where
      g: "insertChild_loop (word_of_nat (wilds r)) path full (Some h) ?e ?e ?grand = Inr g" "holds (wilds r) r h g"
      by (auto simp: fresh_def e)
    have "insertChild_loop (word_of_nat (wilds r)) path full (Some h) ?e (Suc (length q)) ?grand = Inr g"
      using insertChild_skip [of nm "word_of_nat (wilds r)" "q @ [CHR '':'']" r full "Some h" ?e ?grand] nm g(1)
      by (simp add: path good_name_def)
    with False step have "insertChild_loop (word_of_nat (Suc (wilds r))) path full (Some h) offset (length q) n =
        Inr (Node ?h [Node (?child\<lparr>n_path := CHR '':'' # nm\<rparr>) [g]])" by simp
    moreover have "holds_param (Suc (wilds r)) nm r h (Node (?child\<lparr>n_path := CHR '':'' # nm\<rparr>) [g])"
      using g(2) nm np False u by (auto simp: holds_param_def holds_def wf_tree.simps)
    ultimately show thesis using that by blast
  qed
qed

lemma insertChild_catchAll:
  assumes "path = q @ v @ ''/'' @ CHR ''*'' # nm" "good_name nm" "fresh n" "wildfree v" "1 \<le> B"
  obtains n' where "insertChild_loop 1 path full (Some h) (length q) (length (q @ v @ ''/'')) n = Inr n'"
    "holds B (v @ ''/'' @ CHR ''*'' # nm) h n'"
proof -
  let ?i = "Suc (length q + length v)"
  let ?g = "Node (zero_hdr\<lparr>n_path := CHR ''/'' # CHR ''*'' # nm, n_nType := CatchAll, n_maxParams := 1,
                                n_handlers := Some h, n_priority := 1\<rparr>) [] :: 'a node"
  let ?n = "Node ((hdr n)\<lparr>n_path := v, n_indices := ''/''\<rparr>)
              [Node (zero_hdr\<lparr>n_wildChild := True, n_nType := CatchAll, n_maxParams := 1, n_priority := 1\<rparr>) [?g]]"
  have facts: "path ! ?i = CHR ''*''" "drop (Suc ?i) path = nm" "?i < length path"
    "Suc ?i + length nm = length path" "path ! (length q + length v) = CHR ''/''"
    "slice path (length q) (length q + length v) = v"
    "drop (length q + length v) path = CHR ''/'' # CHR ''*'' # nm"
    by (simp_all add: assms(1) nth_append slice_def)
  have "insertChild_loop 1 path full (Some h) (length q) ?i n = Inr ?n"
    using facts assms(2,3) wildcard_end_name [OF assms(2), of "[]"]
    by (subst insertChild_loop.simps) (auto simp: fresh_def good_name_def Let_def)
  moreover have "holds B (v @ ''/'' @ CHR ''*'' # nm) h ?n"
    using assms by (cases v) (auto simp: holds_def wf_tree.simps wf_catchAll_def starts_def fresh_def)
  ultimately show thesis using that by simp
qed

lemma insertChild_fresh:
  assumes "valid_pat p" "p \<noteq> []" "\<not> is_wild (hd p)" "wilds p \<le> B" "B \<le> 255" "fresh n" "path = q @ p"
  shows "\<exists>n'. insertChild_loop (word_of_nat (wilds p)) path full (Some h) (length q) (length q) n = Inr n'
    \<and> holds B p h n'"
  using assms
proof (induction "length p" arbitrary: p q B n rule: less_induct)
  case less
  from less.prems(1) show ?case
  proof (cases rule: valid_pat_cases)
    case static
    with less.prems show ?thesis
      by (cases n) (auto simp: insertChild_loop.simps [of 0] holds_def fresh_def wf_tree.simps starts_def)
  next
    case (param u nm r)
    from less.prems(3) param(1) have u: "u \<noteq> []" "hd p = hd u" by (cases u; auto)+
    have wp: "wilds p = Suc (wilds r)" using param by (simp add: good_name_def)
    have path: "path = (q @ u) @ CHR '':'' # nm @ r" using less.prems(7) param(1) by simp
    have rest: "\<exists>g'. insertChild_loop (word_of_nat (wilds r)) path full (Some h)
        (length path - length r) (length path - length r) g = Inr g' \<and> holds (wilds r) r h g'"
      if "r \<noteq> []" "fresh g" for g
      using less.hyps [of r "wilds r" g "q @ u @ CHR '':'' # nm"] that param path less.prems(4,5) wp by simp
    obtain w where w: "holds_param (Suc (wilds r)) nm r h w"
      "insertChild_loop (word_of_nat (Suc (wilds r))) path full (Some h) (length q) (length (q @ u)) n =
        Inr (Node ((if q @ u \<noteq> [] then (hdr n)\<lparr>n_path := slice path (length q) (length (q @ u))\<rparr> else hdr n)
                   \<lparr>n_wildChild := True\<rparr>) [w])"
      using insertChild_param [OF path param(4,5) _ _ _ rest, of n "length q"] less.prems wp
      by (auto simp: fresh_def)
    have "slice path (length q) (length (q @ u)) = u" by (simp add: path slice_def)
    with w(2) u have "insertChild_loop (word_of_nat (wilds p)) path full (Some h) (length q) (length q) n =
        Inr (Node ((hdr n)\<lparr>n_path := u, n_wildChild := True\<rparr>) [w])"
      using insertChild_skip [OF param(2), of "word_of_nat (wilds p)" q "CHR '':'' # nm @ r" full "Some h" "length q" n]
      by (simp add: path wp)
    moreover have "holds B p h (Node ((hdr n)\<lparr>n_path := u, n_wildChild := True\<rparr>) [w])"
      using w(1) u less.prems(4,6) wp param(1,2) wf_tree_mono [of "Suc (wilds r)" w B]
      by (auto simp: holds_def holds_param_def fresh_def wf_tree.simps starts_def)
    ultimately show ?thesis by blast
  next
    case (catchAll v nm)
    have wp: "wilds p = 1" using catchAll by (simp add: good_name_def)
    obtain n' where n': "insertChild_loop 1 path full (Some h) (length q) (length (q @ v @ ''/'')) n = Inr n'"
      "holds B p h n'"
      using insertChild_catchAll [of path q v nm n B full h] catchAll less.prems wp by auto
    moreover have "insertChild_loop 1 path full (Some h) (length q) (length q) n =
        insertChild_loop 1 path full (Some h) (length q) (length (q @ v @ ''/'')) n"
      using insertChild_skip [of "v @ ''/''" 1 q "CHR ''*'' # nm" full "Some h" "length q" n]
        catchAll(1,2) less.prems(7) by simp
    ultimately show ?thesis using wp by simp
  qed
qed

section \<open>The walk\<close>

text \<open>
  \<open>added B p h n n'\<close>: \<open>n'\<close> is \<open>n\<close> with the new route \<open>p\<close>, and still well formed.
\<close>

definition added :: "nat \<Rightarrow> string \<Rightarrow> 'h list \<Rightarrow> 'h node \<Rightarrow> 'h node \<Rightarrow> bool" where
  "added B p h n n' \<longleftrightarrow> wf_tree B n' \<and> set (routes n') = insert (p, h) (set (routes n)) \<and>
     p \<notin> fst ` set (routes n) \<and> n_nType (hdr n') = n_nType (hdr n) \<and>
     (\<forall>x. starts x n \<longrightarrow> starts x n')"

lemma added_bump: "harmless f \<Longrightarrow> added B p h (upd f n) n' = added B p h n n'"
  by (simp add: added_def) (simp add: harmless_def)

lemma routes_insert:
  assumes "n_path (hdr n') = n_path (hdr n)" "below n' = insert (r, h) (below n)" "r \<notin> fst ` below n"
  shows "set (routes n') = insert (n_path (hdr n) @ r, h) (set (routes n))"
    "n_path (hdr n) @ r \<notin> fst ` set (routes n)"
  using assms by (force simp: set_routes [of n'] set_routes [of n])+

lemma UN_update:
  assumes "k < length cs" "f c = insert x (f (cs ! k))"
  shows "(\<Union>c \<in> set (cs[k := c]). f c) = insert x (\<Union>c \<in> set cs. f c)"
proof -
  have "(\<Union>i < length cs. f (cs[k := c] ! i)) = insert x (\<Union>i < length cs. f (cs ! i))"
  proof (intro set_eqI iffI)
    fix y assume "y \<in> (\<Union>i < length cs. f (cs[k := c] ! i))"
    then obtain i where "i < length cs" "y \<in> f (cs[k := c] ! i)" by auto
    with assms show "y \<in> insert x (\<Union>i < length cs. f (cs ! i))" by (cases "i = k") auto
  next
    fix y assume "y \<in> insert x (\<Union>i < length cs. f (cs ! i))"
    then consider "y = x" | i where "i < length cs" "y \<in> f (cs ! i)" by auto
    then show "y \<in> (\<Union>i < length cs. f (cs[k := c] ! i))"
    proof cases
      case 1
      with assms show ?thesis by (intro UN_I [of k]) auto
    next
      case 2
      with assms show ?thesis by (intro UN_I [of i]) (auto simp: nth_list_update)
    qed
  qed
  then show ?thesis by (simp add: UN_set_nth)
qed

text \<open>A route is added below \<open>n\<close> by adding its rest to one child.\<close>

lemma routes_child:
  assumes "wf_tree B n" "n_nType (hdr n) \<noteq> CatchAll" "k < length (children n)"
    "set (routes c) = insert (r, h) (set (routes (children n ! k)))"
    "\<And>i hs. i < length (children n) \<Longrightarrow> (r, hs) \<notin> set (routes (children n ! i))" "r \<noteq> []"
    "n_path (hdr n') = n_path (hdr n)" "n_handlers (hdr n') = n_handlers (hdr n)"
    "set (children n') = set ((children n)[k := c])"
  shows "set (routes n') = insert (n_path (hdr n) @ r, h) (set (routes n))"
    "n_path (hdr n) @ r \<notin> fst ` set (routes n)"
proof -
  have "below n' = insert (r, h) (below n)"
    using assms(8,9) UN_update [OF assms(3), of "\<lambda>c. set (routes c)" c "(r, h)"] assms(4)
    by (simp add: below_def)
  moreover have "r \<notin> fst ` below n"
    using assms(5,6) by (force simp: below_def in_set_conv_nth split: option.splits)
  ultimately show "set (routes n') = insert (n_path (hdr n) @ r, h) (set (routes n))"
    "n_path (hdr n) @ r \<notin> fst ` set (routes n)"
    using routes_insert [OF assms(7)] by blast+
qed

text \<open>Replacing the child with the index \<open>x\<close> in a static node, up to the order of the children.\<close>

lemma static_replace:
  assumes n: "wf_tree B n" "n_nType (hdr n) = Static" "\<not> n_wildChild (hdr n)"
    and k: "k < length (children n)"
    and c: "wf_tree B c" "n_nType (hdr c) \<noteq> Param" "starts (n_indices (hdr n) ! k) c"
    and n': "hdr n' = (hdr n)\<lparr>n_indices := n_indices (hdr n')\<rparr>"
      "length (n_indices (hdr n')) = length (children n')"
      "mset (zip (n_indices (hdr n')) (children n')) = mset (zip (n_indices (hdr n)) ((children n)[k := c]))"
  shows "wf_tree B n'" "set (children n') = set ((children n)[k := c])" "starts x n \<Longrightarrow> starts x n'"
proof -
  let ?n = "Node (hdr n) ((children n)[k := c])"
  have len: "length (n_indices (hdr n)) = length (children n)" using n by (simp add: wf_tree_static)
  have wf: "wf_tree B ?n"
    using n c k by (auto simp: wf_tree_static list_all2_conv_all_nth nth_list_update dest!: set_update_subset_insert [THEN subsetD])
  from wf_tree_perm [OF _ _ this, of n'] n n' show "wf_tree B n'" by simp
  note p = pairs_perm [OF _ n'(2) n'(3) [symmetric]]
  from p(1) len show sc: "set (children n') = set ((children n)[k := c])" by simp
  have "mset (map fst (zip (n_indices (hdr n')) (children n'))) =
      mset (map fst (zip (n_indices (hdr n)) ((children n)[k := c])))"
    unfolding mset_map n'(3) by simp
  with n'(2) len have m: "mset (n_indices (hdr n')) = mset (n_indices (hdr n))" by simp
  then have "length (children n') = length (children n)" using n'(2) len by (metis size_mset)
  moreover have "n_indices (hdr n) = ''/'' \<Longrightarrow> n_indices (hdr n') = ''/''" using m by simp
  moreover have "n_path (hdr n') = n_path (hdr n)" "n_handlers (hdr n') = n_handlers (hdr n)"
    "n_nType (hdr n') = n_nType (hdr n)" "n_wildChild (hdr n') = n_wildChild (hdr n)"
    using arg_cong [OF n'(1), of n_path] arg_cong [OF n'(1), of n_handlers]
      arg_cong [OF n'(1), of n_nType] arg_cong [OF n'(1), of n_wildChild] by simp_all
  ultimately show "starts x n \<Longrightarrow> starts x n'" by (auto simp: starts_def)
qed

text \<open>The edge split: same routes, same beginning, still well formed.\<close>

lemma splitEdge_ok:
  assumes "wf_tree B n" "n_nType (hdr n) = Static" "0 < i" "i < length (n_path (hdr n))"
    "take i path = take i (n_path (hdr n))"
  shows "wf_tree B (splitEdge i path n)" "set (routes (splitEdge i path n)) = set (routes n)"
    "starts x n \<Longrightarrow> starts x (splitEdge i path n)"
proof -
  obtain c where c: "splitEdge i path n = Node ((hdr n)\<lparr>n_indices := [n_path (hdr n) ! i], n_path := take i path,
      n_handlers := None, n_wildChild := False\<rparr>) [c]" "hdr c = zero_hdr\<lparr>n_path := drop i (n_path (hdr n)),
      n_wildChild := n_wildChild (hdr n), n_indices := n_indices (hdr n), n_handlers := n_handlers (hdr n),
      n_priority := n_priority (hdr n) - 1, n_maxParams := max_of_children (children n) 0\<rparr>"
    "children c = children n"
    by (simp add: splitEdge_def Let_def)
  have wc: "wf_tree B c" "n_nType (hdr c) = Static"
    using assms c(2,3) by (auto simp: wf_tree_static dest: in_set_dropD)
  moreover have "starts (n_path (hdr n) ! i) c" using assms(4) c(2) by (simp add: starts_def hd_drop_conv_nth)
  moreover have "wildfree (n_path (hdr n))" using assms(1,2) by (simp add: wf_tree_static)
  ultimately show "wf_tree B (splitEdge i path n)"
    using assms by (auto simp: c(1) wf_tree.simps dest: in_set_takeD)
  have "below c = below n" by (simp add: below_def c(2,3))
  then show "set (routes (splitEdge i path n)) = set (routes n)"
    by (force simp: c(1) set_routes [of n] set_routes [of c] c(2) assms(5) append_assoc [symmetric] simp del: append_assoc)
  show "starts x n \<Longrightarrow> starts x (splitEdge i path n)"
    using assms(3,4,5) by (cases path; cases "n_path (hdr n)") (auto simp: starts_def c(1) take_Cons split: nat.splits)
qed

lemma walk_node_static:
  assumes "wf_tree B n" "n_nType (hdr n) = Static" "path \<noteq> []" "starts (hd path) n" "unat np \<le> B"
  obtains rest where "path = n_path (hdr (walk_node np path n)) @ rest"
    "rest = drop (lcp path (n_path (hdr n))) path"
    "wf_tree B (walk_node np path n)" "n_nType (hdr (walk_node np path n)) = Static"
    "set (routes (walk_node np path n)) = set (routes n)"
    "\<And>x. starts x n \<Longrightarrow> starts x (walk_node np path n)"
proof -
  let ?n = "upd (raise_maxParams np) n" and ?i = "lcp path (n_path (hdr n))"
  have wf: "wf_tree B ?n" using assms(1,5) by (rule wf_tree_raise)
  show thesis
  proof (cases rule: walk_node_cases [of path n np])
    case keep
    with that [of "drop ?i path"] wf assms(2) lcp_full_drop [OF keep(1)] show ?thesis by simp
  next
    case split
    from split(1) assms(3,4) have "0 < ?i" by (cases path; cases "n_path (hdr n)") (auto simp: starts_def)
    note ok = splitEdge_ok [OF wf, of ?i path]
    have "path = n_path (hdr (walk_node np path n)) @ drop ?i path" using split by simp
    moreover from ok split \<open>0 < ?i\<close> assms(2) take_lcp [of path "n_path (hdr n)"]
    have "wf_tree B (walk_node np path n)" "n_nType (hdr (walk_node np path n)) = Static"
      "set (routes (walk_node np path n)) = set (routes n)"
      "\<And>x. starts x n \<Longrightarrow> starts x (walk_node np path n)" by auto
    ultimately show ?thesis using that [of "drop ?i path"] by blast
  qed
qed

text \<open>The branches of a round, once the node holds a prefix of the path.\<close>

lemma walk_end:
  assumes "drop (lcp path (n_path (hdr n0))) path = []"
  shows "addRoute_walk np path full hs n0 =
    (let n = walk_node np path n0 in
     if n_handlers (hdr n) \<noteq> None then
       Inl (''handlers are already registered for path '' @ [CHR 0x27] @ quoted full)
     else Inr (upd (n_handlers_update (\<lambda>_. hs)) n))"
  using assms by (subst addRoute_walk.simps) (simp add: Let_def)

lemma walk_wild:
  assumes "drop (lcp path (n_path (hdr n0))) path = rest" "rest \<noteq> []"
    "n = walk_node np path n0" "n_wildChild (hdr n)" "children n = w # ws"
  shows "addRoute_walk np path full hs n0 =
    (if wildcard_matches (n_path (hdr w)) rest then
       mapG (\<lambda>w'. Node (hdr n) (w' # ws))
         (addRoute_walk (np - 1) rest full hs (upd (raise_maxParams np \<circ> incr_priority) w))
     else Inl (''path segment '' @ quoted rest @ '' conflicts with existing wildcard ''
               @ quoted (n_path (hdr w)) @ '' in path '' @ quoted full))"
  using assms by (subst addRoute_walk.simps) (auto simp: Let_def)

lemma walk_static:
  assumes "drop (lcp path (n_path (hdr n0))) path = rest" "rest \<noteq> []"
    "n = walk_node np path n0" "\<not> n_wildChild (hdr n)"
    "\<not> (n_nType (hdr n) = Param \<and> hd rest = CHR ''/'' \<and> length (children n) = 1)"
  shows "addRoute_walk np path full hs n0 =
    (case find_index (hd rest) (n_indices (hdr n)) of
       Some k \<Rightarrow> bindG (incrementChildPrio n k) (\<lambda>(n1, j).
         mapG (\<lambda>c. Node (hdr n1) ((children n1)[j := c]))
           (addRoute_walk np rest full hs (children n1 ! j)))
     | None \<Rightarrow> insert_new np rest full hs n)"
  using assms by (subst addRoute_walk.simps) (auto simp: Let_def)

lemma walk_slash:
  assumes "drop (lcp path (n_path (hdr n0))) path = rest" "rest \<noteq> []"
    "n = walk_node np path n0" "\<not> n_wildChild (hdr n)"
    "n_nType (hdr n) = Param" "hd rest = CHR ''/''" "children n = [c]"
  shows "addRoute_walk np path full hs n0 =
    mapG (\<lambda>c. Node (hdr n) [c]) (addRoute_walk np rest full hs (upd incr_priority c))"
  using assms by (subst addRoute_walk.simps) (auto simp: Let_def)

text \<open>Routes with the handlers of the node itself.\<close>

lemma added_here:
  assumes "wf_tree B n" "n_nType (hdr n) \<noteq> CatchAll" "n_handlers (hdr n) = None" "n_path (hdr n) \<noteq> []"
  shows "added B (n_path (hdr n)) h n (upd (n_handlers_update (\<lambda>_. Some h)) n)"
proof -
  let ?n = "upd (n_handlers_update (\<lambda>_. Some h)) n"
  have "below ?n = insert ([], h) (below n)" using assms(3) by (simp add: below_def)
  moreover have "[] \<notin> fst ` below n"
    using no_empty_route [OF assms(1,2)] assms(3) by (force simp: below_def)
  ultimately have "set (routes ?n) = insert (n_path (hdr n), h) (set (routes n))"
    "n_path (hdr n) \<notin> fst ` set (routes n)"
    using routes_insert [of ?n n "[]" h] by simp_all
  moreover have "wf_tree B ?n" using assms(1,2)
    by (cases n; cases "n_nType (hdr n)") (simp_all add: wf_tree.simps)
  moreover have "starts x n \<longrightarrow> starts x ?n" for x using assms(4) by (simp add: starts_def)
  ultimately show ?thesis by (simp add: added_def)
qed

lemma static_child:
  assumes "wf_tree B n" "n_nType (hdr n) = Static" "\<not> n_wildChild (hdr n)" "i < length (children n)"
  shows "wf_tree B (children n ! i)" "starts (n_indices (hdr n) ! i) (children n ! i)"
    "n_nType (hdr (children n ! i)) \<noteq> Param" "\<not> is_wild (n_indices (hdr n) ! i)"
    "\<And>p hs. (p, hs) \<in> set (routes (children n ! i)) \<Longrightarrow> p \<noteq> [] \<and> hd p = n_indices (hdr n) ! i"
proof -
  show w: "wf_tree B (children n ! i)" "starts (n_indices (hdr n) ! i) (children n ! i)"
    "n_nType (hdr (children n ! i)) \<noteq> Param" "\<not> is_wild (n_indices (hdr n) ! i)"
    using assms by (auto simp: wf_tree_static list_all2_conv_all_nth)
  show "\<And>p hs. (p, hs) \<in> set (routes (children n ! i)) \<Longrightarrow> p \<noteq> [] \<and> hd p = n_indices (hdr n) ! i"
    using starts_routes [OF w(1,2)] by blast
qed

text \<open>The route goes on in the child \<open>k\<close> of a static node.\<close>

lemma added_index:
  assumes n: "wf_tree B n" "n_nType (hdr n) = Static" "\<not> n_wildChild (hdr n)"
    and k: "k < length (children n)" "n_indices (hdr n) ! k = hd rest" "rest \<noteq> []"
    and c: "added B rest h (children n ! k) c"
    and n': "hdr n' = (hdr n)\<lparr>n_indices := n_indices (hdr n')\<rparr>"
      "length (n_indices (hdr n')) = length (children n')"
      "mset (zip (n_indices (hdr n')) (children n')) = mset (zip (n_indices (hdr n)) ((children n)[k := c]))"
  shows "added B (n_path (hdr n) @ rest) h n n'"
proof -
  note ck = static_child [OF n k(1)]
  have c': "wf_tree B c" "n_nType (hdr c) \<noteq> Param" "starts (n_indices (hdr n) ! k) c"
    "set (routes c) = insert (rest, h) (set (routes (children n ! k)))"
    "rest \<notin> fst ` set (routes (children n ! k))"
    using c ck(2,3) by (auto simp: added_def)
  note r = static_replace [OF n k(1) c'(1,2,3) n']
  have "(rest, hs) \<notin> set (routes (children n ! i))" if i: "i < length (children n)" for i hs
  proof
    assume a: "(rest, hs) \<in> set (routes (children n ! i))"
    then have "n_indices (hdr n) ! i = n_indices (hdr n) ! k" using static_child(5) [OF n i a] k(2) by simp
    then have "i = k" using n i k(1) by (simp add: wf_tree_static nth_eq_iff_index_eq)
    with a c'(5) show False by (force simp: image_iff)
  qed
  moreover have h: "n_path (hdr n') = n_path (hdr n)" "n_handlers (hdr n') = n_handlers (hdr n)"
    "n_nType (hdr n') = n_nType (hdr n)"
    using arg_cong [OF n'(1), of n_path] arg_cong [OF n'(1), of n_handlers] arg_cong [OF n'(1), of n_nType]
    by simp_all
  ultimately have "set (routes n') = insert (n_path (hdr n) @ rest, h) (set (routes n))"
    "n_path (hdr n) @ rest \<notin> fst ` set (routes n)"
    using routes_child [OF n(1) _ k(1) c'(4) _ k(3) _ _ r(2)] n(2) by auto
  with r h show ?thesis by (simp add: added_def)
qed

text \<open>A new child of a node whose children are told apart by their first byte.\<close>

lemma insert_new_static:
  assumes n: "length (n_indices (hdr n)) = length (children n)"
    and rest: "valid_pat rest" "rest \<noteq> []" "\<not> is_wild (hd rest)" "wilds rest \<le> B" "B \<le> 255"
    and np: "np = word_of_nat (wilds rest)"
  obtains n' c where "insert_new np rest full (Some h) n = Inr n'" "holds B rest h c"
    "hdr n' = (hdr n)\<lparr>n_indices := n_indices (hdr n')\<rparr>"
    "length (n_indices (hdr n')) = length (children n')"
    "mset (zip (n_indices (hdr n')) (children n')) =
     mset (zip (n_indices (hdr n) @ [hd rest]) (children n @ [c]))"
proof -
  let ?idx = "n_indices (hdr n) @ [hd rest]" and ?child = "Node (zero_hdr\<lparr>n_maxParams := np\<rparr>) [] :: 'a node"
  let ?n = "Node ((hdr n)\<lparr>n_indices := ?idx\<rparr>) (children n @ [?child])"
  have len: "length (n_indices (hdr ?n)) = length (children ?n)" using n by simp
  have "length (children n) < length (children ?n)" by simp
  from incrementChildPrio_replace [OF len this] obtain n2 j where
    i: "incrementChildPrio ?n (length (children n)) = Inr (n2, j)"
    "hdr n2 = (hdr ?n)\<lparr>n_indices := n_indices (hdr n2)\<rparr>"
    "children n2 ! j = upd incr_priority (children ?n ! length (children n))" "j < length (children n2)"
    "length (n_indices (hdr n2)) = length (children n2)"
    "\<And>c. mset (zip (n_indices (hdr n2)) ((children n2)[j := c])) =
          mset (zip (n_indices (hdr ?n)) ((children ?n)[length (children n) := c]))" by metis
  have "fresh (children n2 ! j)" by (simp add: i(3) fresh_def nth_append incr_priority_def)
  from insertChild_fresh [OF rest this, of rest "[]" full h] obtain c where
    c: "insertChild np rest full (Some h) (children n2 ! j) = Inr c" "holds B rest h c"
    by (auto simp: insertChild_def np)
  let ?n' = "Node (hdr n2) ((children n2)[j := c])"
  have "insert_new np rest full (Some h) n = Inr ?n'"
    using i(1) c(1) rest(3) n by (simp add: insert_new_def Let_def)
  moreover have "hdr ?n' = (hdr n)\<lparr>n_indices := n_indices (hdr ?n')\<rparr>" using i(2) by simp
  moreover have "mset (zip (n_indices (hdr ?n')) (children ?n')) = mset (zip ?idx (children n @ [c]))"
    using i(6) [of c] by simp
  ultimately show thesis using that [of ?n' c] c(2) i(5) by simp
qed

lemma starts_cong:
  "starts x n \<Longrightarrow> n_path (hdr n) \<noteq> [] \<Longrightarrow> n_path (hdr n') = n_path (hdr n) \<Longrightarrow> starts x n'"
  by (auto simp: starts_def)

lemma added_new_child:
  assumes n: "wf_tree B n" "n_nType (hdr n) = Static" "\<not> n_wildChild (hdr n)" "n_path (hdr n) \<noteq> []"
    and rest: "valid_pat rest" "rest \<noteq> []" "\<not> is_wild (hd rest)" "wilds rest \<le> B" "B \<le> 255"
    and np: "np = word_of_nat (wilds rest)" and new: "hd rest \<notin> set (n_indices (hdr n))"
  obtains n' where "insert_new np rest full (Some h) n = Inr n'" "added B (n_path (hdr n) @ rest) h n n'"
proof -
  have len: "length (n_indices (hdr n)) = length (children n)" using n by (simp add: wf_tree_static)
  from insert_new_static [OF len rest np] obtain n' c where
    i: "insert_new np rest full (Some h) n = Inr n'" "holds B rest h c"
    "hdr n' = (hdr n)\<lparr>n_indices := n_indices (hdr n')\<rparr>"
    "length (n_indices (hdr n')) = length (children n')"
    "mset (zip (n_indices (hdr n')) (children n')) =
     mset (zip (n_indices (hdr n) @ [hd rest]) (children n @ [c]))" by metis
  let ?n = "Node ((hdr n)\<lparr>n_indices := n_indices (hdr n) @ [hd rest]\<rparr>) (children n @ [c])"
  have c: "wf_tree B c" "n_nType (hdr c) \<noteq> Param" "starts (hd rest) c" "set (routes c) = {(rest, h)}"
    using i(2) by (auto simp: holds_def)
  have wf: "wf_tree B ?n" using n c new rest(3) by (auto simp: wf_tree_static list_all2_append)
  have h: "n_path (hdr n') = n_path (hdr n)" "n_handlers (hdr n') = n_handlers (hdr n)"
    "n_nType (hdr n') = n_nType (hdr n)"
    using arg_cong [OF i(3), of n_path] arg_cong [OF i(3), of n_handlers] arg_cong [OF i(3), of n_nType]
    by simp_all
  have "wf_tree B n'"
    by (rule wf_tree_perm [OF _ _ wf _ i(4)]) (use n i(3,5) in simp_all)
  moreover have sc: "set (children n') = insert c (set (children n))"
    using pairs_perm(1) [OF _ i(4) i(5) [symmetric]] len by simp
  have "below n' = insert (rest, h) (below n)"
    using c(4) by (simp add: below_def sc h)
  moreover have "rest \<notin> fst ` below n"
  proof
    assume "rest \<in> fst ` below n"
    with rest(2) obtain j hs where "j < length (children n)" "(rest, hs) \<in> set (routes (children n ! j))"
      by (force simp: below_def in_set_conv_nth split: option.splits)
    with static_child(5) [OF n(1,2,3)] new len show False by (metis nth_mem)
  qed
  ultimately show thesis
    using that [OF i(1)] routes_insert [OF h(1), of rest h] h starts_cong [OF _ n(4) h(1)]
    by (simp add: added_def)
qed


text \<open>A wildcard below a static node: only a parameter below a node without children is accepted.\<close>

text \<open>
  A wildcard after a static node can be added at a leaf only, and it is a parameter with a good name: a
  catch-all there would lack the slash before it.
\<close>

lemma insert_wild_cases:
  assumes n: "wf_tree B n" "n_nType (hdr n) = Static"
    and path: "valid_pat (n_path (hdr n) @ rest)" "rest \<noteq> []" "is_wild (hd rest)" "wilds rest \<le> 255"
    and ins: "insertChild_loop (word_of_nat (wilds rest)) rest full (Some h) 0 0 n = Inr n'"
  obtains nm r where "children n = []" "rest = CHR '':'' # nm @ r" "good_name nm" "r = [] \<or> hd r = CHR ''/''" "valid_pat r"
proof -
  have u: "wildfree (n_path (hdr n))" using n by (simp add: wf_tree_static)
  have "0 < wilds rest" using path(2,3) by (cases rest) auto
  then have pos: "0 < (word_of_nat (wilds rest) :: 8 word)" using path(4) by (simp add: of_nat_pos)
  have leaf: "children n = []"
    using ins pos path(2,3)
    by (subst (asm) insertChild_loop.simps) (auto simp: hd_conv_nth split: if_splits option.splits)
  have "hd rest \<noteq> CHR ''*''"
  proof
    assume st: "hd rest = CHR ''*''"
    then obtain nm where nm: "rest = CHR ''*'' # nm" using path(2) by (cases rest) auto
    from valid_pat_static_star [OF u path(1) [unfolded nm]] obtain v where v: "n_path (hdr n) = v @ ''/''" by blast
    from ins pos v show False
      by (subst (asm) insertChild_loop.simps) (simp add: nm Let_def split: if_splits option.splits)
  qed
  with path(3) have c: "hd rest = CHR '':''" by (simp add: is_wild_def)
  have "valid_pat rest" using path(1) u c by (simp add: valid_pat_static)
  then show thesis
  proof (cases rule: valid_pat_cases)
    case static
    with path(2,3) show thesis by (cases rest) auto
  next
    case (param u nm r)
    then have "u = []" using c by (cases u) auto
    with param leaf that show thesis by auto
  next
    case (catchAll u nm)
    with c show thesis by (cases u) auto
  qed
qed

lemma added_wild:
  assumes n: "wf_tree B n" "n_nType (hdr n) = Static" "children n = []"
    and w: "wf_tree B w" "n_nType (hdr w) = Param" "set (routes w) = {(rest, h)}" "rest \<noteq> []"
  shows "added B (n_path (hdr n) @ rest) h n (Node ((hdr n)\<lparr>n_wildChild := True\<rparr>) [w])" (is "added _ _ _ _ ?n'")
proof -
  have "length (n_indices (hdr n)) = length (children n) \<or> n_wildChild (hdr n)" using n by (auto simp: wf_tree_static)
  then have "wf_tree B ?n'" using n w by (auto simp: wf_tree.simps wf_tree_static)
  moreover have "below ?n' = insert (rest, h) (below n)" "rest \<notin> fst ` below n"
    using n(3) w by (auto simp: below_def split: option.splits)
  from routes_insert [OF _ this] have "set (routes ?n') = insert (n_path (hdr n) @ rest, h) (set (routes n))"
    "n_path (hdr n) @ rest \<notin> fst ` set (routes n)" by simp_all
  moreover have "starts x n \<longrightarrow> starts x ?n'" for x using n(2,3) by (auto simp: starts_def)
  ultimately show ?thesis by (simp add: added_def)
qed

lemma insert_new_wild:
  assumes n: "wf_tree B n" "n_nType (hdr n) = Static" "\<not> n_wildChild (hdr n)"
    and path: "valid_pat (n_path (hdr n) @ rest)" "rest \<noteq> []" "is_wild (hd rest)" "wilds rest \<le> B" "B \<le> 255"
    and ins: "insert_new (word_of_nat (wilds rest)) rest full (Some h) n = Inr n'"
  shows "added B (n_path (hdr n) @ rest) h n n'"
proof -
  have ins': "insertChild_loop (word_of_nat (wilds rest)) rest full (Some h) 0 0 n = Inr n'"
    using ins path(3) by (simp add: insert_new_def insertChild_def)
  have "wilds rest \<le> 255" using path(4,5) by simp
  from insert_wild_cases [OF n(1,2) path(1-3) this ins'] obtain nm r where leaf: "children n = []"
    and r: "rest = CHR '':'' # nm @ r" "good_name nm" "r = [] \<or> hd r = CHR ''/''" "valid_pat r" .
  have wr: "wilds rest = Suc (wilds r)" using r by (simp add: good_name_def)
  have sub: "\<exists>g'. insertChild_loop (word_of_nat (wilds r)) rest full (Some h) (length rest - length r) (length rest - length r) g =
      Inr g' \<and> holds (wilds r) r h g'" if "r \<noteq> []" "fresh g" for g
    using insertChild_fresh [OF r(4) that(1) _ order_refl _ that(2), of rest "CHR '':'' # nm" full h] r(1,3) that path(4,5) wr
    by simp
  obtain w where w: "holds_param (Suc (wilds r)) nm r h w"
    "insertChild_loop (word_of_nat (Suc (wilds r))) rest full (Some h) 0 (length ([] :: string)) n =
       Inr (Node ((if ([] :: string) \<noteq> [] then (hdr n)\<lparr>n_path := slice rest 0 (length ([] :: string))\<rparr> else hdr n)
          \<lparr>n_wildChild := True\<rparr>) [w])"
    using insertChild_param [of rest "[]" nm r n 0 full h] r path(4,5) wr leaf sub by auto
  have "n' = Node ((hdr n)\<lparr>n_wildChild := True\<rparr>) [w]" using ins' w(2) by (simp add: wr)
  moreover have "wf_tree B w" "n_nType (hdr w) = Param" "set (routes w) = {(rest, h)}"
    using w(1) wf_tree_mono [of "Suc (wilds r)" w B] path(4) wr r(1) by (auto simp: holds_param_def)
  ultimately show ?thesis using added_wild [OF n(1,2) leaf _ _ _ path(2)] by simp
qed

section \<open>The whole walk\<close>

text \<open>
  What holds each time the walk reaches a node: at a static or catch-all node a non-empty rest of
  the pattern that shares its first byte with the node, at a parameter node its name.
\<close>

definition reached :: "nat \<Rightarrow> 8 word \<Rightarrow> string \<Rightarrow> 'h node \<Rightarrow> bool" where
  "reached B np path n \<longleftrightarrow>
     (if n_nType (hdr n) = Param
      then \<exists>r. path = n_path (hdr n) @ r \<and> (r = [] \<or> hd r = CHR ''/'') \<and> valid_pat r \<and>
             np = word_of_nat (wilds r) \<and> Suc (wilds r) \<le> unat (n_maxParams (hdr n))
      else valid_pat path \<and> path \<noteq> [] \<and> \<not> is_wild (hd path) \<and> starts (hd path) n \<and>
           np = word_of_nat (wilds path) \<and> wilds path \<le> B)"

lemma added_from:
  assumes "added B p h n n'" "set (routes n) = set (routes n0)" "n_nType (hdr n) = n_nType (hdr n0)"
    "\<And>x. starts x n0 \<Longrightarrow> starts x n"
  shows "added B p h n0 n'"
  using assms by (simp add: added_def)

lemma wildcard_matches_split:
  assumes "wildcard_matches w p"
  obtains r where "p = w @ r" "r = [] \<or> hd r = CHR ''/''"
proof -
  from assms have "p = w @ drop (length w) p" by (metis append_take_drop_id wildcard_matches_def)
  moreover from assms have "length p \<le> length w \<or> p ! length w = CHR ''/''"
    by (simp add: wildcard_matches_def)
  then have "drop (length w) p = [] \<or> hd (drop (length w) p) = CHR ''/''"
    by (cases "length w < length p") (simp_all add: hd_drop_conv_nth)
  ultimately show thesis using that by blast
qed

text \<open>The catch-all: every pattern that gets there is the registered one.\<close>

lemma walk_catchAll:
  assumes "wf_tree B n" "n_nType (hdr n) = CatchAll" "valid_pat path" "path \<noteq> []"
  shows "addRoute_walk np path full (Some h) n \<noteq> Inr n'"
proof
  assume a: "addRoute_walk np path full (Some h) n = Inr n'"
  from assms(1,2) obtain g where g: "n_path (hdr n) = []" "n_wildChild (hdr n)" "children n = [g]" "wf_catchAll B g"
    by (auto simp: wf_tree_catch)
  have wn: "walk_node np path n = upd (raise_maxParams np) n" using g(1) by (simp add: walk_node_def)
  let ?g = "upd (raise_maxParams np \<circ> incr_priority) g"
  have "wildcard_matches (n_path (hdr g)) path"
    "\<exists>w'. addRoute_walk (np - 1) path full (Some h) ?g = Inr w'"
    using a walk_wild [of path n path "walk_node np path n" np g "[]" full "Some h"] assms(4) g wn
    by (auto simp: mapG_eq_Inr split: if_splits)
  then obtain r w' where r: "path = n_path (hdr g) @ r" "r = [] \<or> hd r = CHR ''/''"
    and w': "addRoute_walk (np - 1) path full (Some h) ?g = Inr w'"
    using wildcard_matches_split by metis
  from g(4) obtain nm where nm: "n_path (hdr g) = CHR ''/'' # CHR ''*'' # nm" "n_handlers (hdr g) \<noteq> None"
    by (auto simp: wf_catchAll_def)
  with r(1) assms(3) have "good_name (nm @ r)" by simp
  with r(2) have "r = []" by (cases r) (auto simp: good_name_def)
  with r(1) have p: "path = n_path (hdr g)" by simp
  have l: "lcp path path = length path" by (simp add: lcp_full)
  have wg: "walk_node (np - 1) path ?g = upd (raise_maxParams (np - 1)) ?g"
    by (simp add: walk_node_def p [symmetric] l)
  have "\<exists>e. addRoute_walk (np - 1) path full (Some h) ?g = Inl e"
    using walk_end [of path ?g "np - 1" full "Some h"] nm(2) wg by (simp add: p [symmetric] l)
  with w' show False by simp
qed

text \<open>The static node.\<close>

text \<open>
  At a static node \<open>n\<close>, split or raised from \<open>n0\<close>, a rest of the pattern is left. The three lemmas that follow are
  the branches of the code: into the wildcard child, into a new child, or into the child of the next byte.
\<close>

definition at_static :: "nat \<Rightarrow> 8 word \<Rightarrow> string \<Rightarrow> string \<Rightarrow> 'h node \<Rightarrow> 'h node \<Rightarrow> bool" where
  "at_static B np path rest n0 n \<longleftrightarrow>
     n = walk_node np path n0 \<and> drop (lcp path (n_path (hdr n0))) path = rest \<and> path = n_path (hdr n) @ rest \<and>
     wf_tree B n \<and> n_nType (hdr n) = Static \<and> starts (hd path) n \<and> rest \<noteq> [] \<and> valid_pat path \<and>
     (hd rest \<noteq> CHR ''*'' \<longrightarrow> valid_pat rest) \<and> np = word_of_nat (wilds rest) \<and> wilds rest \<le> B \<and> B \<le> 255"

lemma at_staticD:
  assumes "at_static B np path rest n0 n"
  shows "wf_tree B n" "n_nType (hdr n) = Static" "rest \<noteq> []" "wilds rest \<le> B" "B \<le> 255" "np = word_of_nat (wilds rest)"
    "n = walk_node np path n0" "drop (lcp path (n_path (hdr n0))) path = rest" "path = n_path (hdr n) @ rest"
    "valid_pat path" "starts (hd path) n" "hd rest \<noteq> CHR ''*'' \<Longrightarrow> valid_pat rest"
  using assms unfolding at_static_def by blast+

lemma walk_into_wild:
  assumes s: "at_static B np path rest n0 n" and wc: "n_wildChild (hdr n)"
    and IH: "\<And>m B np path n'. nsize m < nsize n0 \<Longrightarrow> wf_tree B m \<Longrightarrow> B \<le> 255 \<Longrightarrow> reached B np path m \<Longrightarrow>
      addRoute_walk np path full (Some h) m = Inr n' \<Longrightarrow> added B path h m n'"
    and walk: "addRoute_walk np path full (Some h) n0 = Inr n'"
  shows "added B (n_path (hdr n) @ rest) h n n'"
proof -
  note n = at_staticD(1,2) [OF s] and ne = at_staticD(3) [OF s] and B = at_staticD(4,5) [OF s] and np = at_staticD(6) [OF s]
    and def_n = at_staticD(7) [OF s] and d = at_staticD(8) [OF s]
  have un: "unat np \<le> B" using np B by simp
  from n wc obtain w where w: "children n = [w]" "n_nType (hdr w) = Param" "wf_tree B w" "n_indices (hdr n) = []"
    by (auto simp: wf_tree_static)
  let ?w = "upd (raise_maxParams np \<circ> incr_priority) w"
  from walk walk_wild [OF d ne def_n wc w(1), of full "Some h"] obtain w' where
    m: "wildcard_matches (n_path (hdr w)) rest"
    "addRoute_walk (np - 1) rest full (Some h) ?w = Inr w'" "n' = Node (hdr n) [w']"
    by (auto simp: mapG_eq_Inr split: if_splits)
  from m(1) obtain r where r: "rest = n_path (hdr w) @ r" "r = [] \<or> hd r = CHR ''/''"
    by (rule wildcard_matches_split)
  from w(2,3) obtain nm where nm: "n_path (hdr w) = CHR '':'' # nm" "good_name nm" by (auto simp: wf_tree_param)
  have "hd rest = CHR '':''" using r nm by simp
  then have "valid_pat rest" by (intro at_staticD(12) [OF s]) simp
  with r nm have v: "valid_pat r" by (simp add: valid_pat_param good_name_def)
  have wr: "wilds rest = Suc (wilds r)" using r nm by (simp add: good_name_def)
  have small: "nsize ?w < nsize n0"
  proof (cases rule: walk_node_cases [of path n0 np])
    case keep
    with w(1) nsize_child [of w n0] show ?thesis by (simp add: def_n [symmetric])
  qed (use wc in \<open>simp add: def_n [symmetric]\<close>)
  have "Suc (wilds r) \<le> unat (n_maxParams (hdr ?w))"
    using np B wr by (simp add: unat_raise del: of_nat_Suc)
  with r v np wr w(2) have "reached B (np - 1) rest ?w" by (auto simp: reached_def)
  from IH [OF small wf_tree_raise_incr [OF w(3) un] B(2) this m(2)] have "added B rest h w w'"
    by (simp add: added_bump)
  then have a: "wf_tree B w'" "set (routes w') = insert (rest, h) (set (routes w))"
    "rest \<notin> fst ` set (routes w)" "n_nType (hdr w') = Param" using w(2) by (auto simp: added_def)
  have "(rest, hs) \<notin> set (routes (children n ! i))" if "i < length (children n)" for i hs
    using that w(1) a(3) by (auto simp: image_iff)
  with routes_child [OF n(1) _ _ _ _ ne, of 0 w' h n'] a(2) w(1) m(3) n(2)
  have "set (routes n') = insert (n_path (hdr n) @ rest, h) (set (routes n))"
    "n_path (hdr n) @ rest \<notin> fst ` set (routes n)" by simp_all
  moreover have "wf_tree B n'" using n a w wc m(3) by (simp add: wf_tree_static)
  moreover have "starts x n \<longrightarrow> starts x n'" for x using wc m(3) by (auto simp: starts_def)
  ultimately show ?thesis using m(3) by (simp add: added_def)
qed

lemma walk_to_new:
  assumes s: "at_static B np path rest n0 n" and nwc: "\<not> n_wildChild (hdr n)"
    and new: "find_index (hd rest) (n_indices (hdr n)) = None"
    and walk: "addRoute_walk np path full (Some h) n0 = Inr n'"
  shows "added B (n_path (hdr n) @ rest) h n n'"
proof -
  note n = at_staticD(1,2) [OF s] and ne = at_staticD(3) [OF s] and B = at_staticD(4,5) [OF s] and np = at_staticD(6) [OF s]
    and def_n = at_staticD(7) [OF s] and d = at_staticD(8) [OF s]
    and path = at_staticD(9-11) [OF s]
  from walk walk_static [OF d ne def_n nwc, of full "Some h"] new n(2)
  have ins: "insert_new np rest full (Some h) n = Inr n'" by simp
  show ?thesis
  proof (cases "is_wild (hd rest)")
    case True
    with insert_new_wild [OF n nwc _ ne True B] ins path np show ?thesis by metis
  next
    case False
    then have v: "valid_pat rest" by (intro at_staticD(12) [OF s]) auto
    have "n_path (hdr n) \<noteq> []"
    proof
      assume e: "n_path (hdr n) = []"
      with path(3) n(2) have "n_indices (hdr n) = ''/''" "hd path = CHR ''/''" by (auto simp: starts_def)
      with new e path(1) show False by simp
    qed
    moreover have "hd rest \<notin> set (n_indices (hdr n))" using new by simp
    ultimately obtain n'' where "insert_new np rest full (Some h) n = Inr n''" "added B (n_path (hdr n) @ rest) h n n''"
      using added_new_child [OF n nwc _ v ne False B np] by metis
    with ins show ?thesis by simp
  qed
qed

lemma walk_into_child:
  assumes s: "at_static B np path rest n0 n" and nwc: "\<not> n_wildChild (hdr n)"
    and idx: "find_index (hd rest) (n_indices (hdr n)) = Some k"
    and IH: "\<And>m B np path n'. nsize m < nsize n0 \<Longrightarrow> wf_tree B m \<Longrightarrow> B \<le> 255 \<Longrightarrow> reached B np path m \<Longrightarrow>
      addRoute_walk np path full (Some h) m = Inr n' \<Longrightarrow> added B path h m n'"
    and walk: "addRoute_walk np path full (Some h) n0 = Inr n'"
  shows "added B (n_path (hdr n) @ rest) h n n'"
proof -
  note n = at_staticD(1,2) [OF s] and ne = at_staticD(3) [OF s] and B = at_staticD(4,5) [OF s] and np = at_staticD(6) [OF s]
    and def_n = at_staticD(7) [OF s] and d = at_staticD(8) [OF s]
  have len: "length (n_indices (hdr n)) = length (children n)" using n nwc by (simp add: wf_tree_static)
  from find_index_SomeD [OF idx] len have k: "k < length (children n)" "n_indices (hdr n) ! k = hd rest" by simp_all
  note ck = static_child [OF n nwc k(1)]
  from incrementChildPrio_replace [OF len k(1)] obtain n1 j where
    i: "incrementChildPrio n k = Inr (n1, j)" "hdr n1 = (hdr n)\<lparr>n_indices := n_indices (hdr n1)\<rparr>"
    "children n1 ! j = upd incr_priority (children n ! k)" "j < length (children n1)"
    "length (n_indices (hdr n1)) = length (children n1)"
    "\<And>c. mset (zip (n_indices (hdr n1)) ((children n1)[j := c])) = mset (zip (n_indices (hdr n)) ((children n)[k := c]))"
    by metis
  from walk walk_static [OF d ne def_n nwc, of full "Some h"] n(2) idx i(1,3) obtain c where
    c: "n' = Node (hdr n1) ((children n1)[j := c])"
    "addRoute_walk np rest full (Some h) (upd incr_priority (children n ! k)) = Inr c"
    by (auto simp: mapG_eq_Inr)
  have "n = upd (raise_maxParams np) n0"
    unfolding def_n by (rule walk_node_index [OF _ idx [unfolded def_n d [symmetric]]]) (use ne [folded d] in simp)
  with k(1) have "nsize (upd incr_priority (children n ! k)) < nsize n0" by (simp add: nsize_child)
  moreover have "valid_pat rest" using ck(4) k(2) by (intro at_staticD(12) [OF s]) auto
  with ck k(2) ne np B have "reached B np rest (upd incr_priority (children n ! k))"
    by (simp add: reached_def)
  ultimately have "added B rest h (upd incr_priority (children n ! k)) c" using IH [OF _ _ B(2) _ c(2)] ck(1) by simp
  then have "added B rest h (children n ! k) c" by (simp add: added_bump)
  with added_index [OF n nwc k ne this, of n'] i c(1) show ?thesis by simp
qed

lemma walk_static_node:
  assumes wf: "wf_tree B n0" "n_nType (hdr n0) = Static" "B \<le> 255"
    and re: "valid_pat path" "path \<noteq> []" "\<not> is_wild (hd path)" "starts (hd path) n0"
      "np = word_of_nat (wilds path)" "wilds path \<le> B"
    and IH: "\<And>m B np path n'. nsize m < nsize n0 \<Longrightarrow> wf_tree B m \<Longrightarrow> B \<le> 255 \<Longrightarrow> reached B np path m \<Longrightarrow>
      addRoute_walk np path full (Some h) m = Inr n' \<Longrightarrow> added B path h m n'"
    and walk: "addRoute_walk np path full (Some h) n0 = Inr n'"
  shows "added B path h n0 n'"
proof -
  have un: "unat np \<le> B" using re(5,6) wf(3) by simp
  let ?n = "walk_node np path n0"
  obtain rest where r: "path = n_path (hdr ?n) @ rest" "rest = drop (lcp path (n_path (hdr n0))) path"
    and n: "wf_tree B ?n" "n_nType (hdr ?n) = Static" "set (routes ?n) = set (routes n0)"
      "\<And>x. starts x n0 \<Longrightarrow> starts x ?n"
    using walk_node_static [OF wf(1,2) re(2,4) un] by blast
  have u: "wildfree (n_path (hdr ?n))" using n by (simp add: wf_tree_static)
  have "added B (n_path (hdr ?n) @ rest) h ?n n'"
  proof (cases "rest = []")
    case True
    with r(1) re(2) have "n_path (hdr ?n) \<noteq> []" by auto
    moreover from walk walk_end [of path n0 np full "Some h"] True r(2)
    have "n_handlers (hdr ?n) = None" "n' = upd (n_handlers_update (\<lambda>_. Some h)) ?n"
      by (auto simp: Let_def split: if_splits)
    ultimately show ?thesis using added_here [OF n(1), of h] n(2) True by simp
  next
    case False
    have "wilds rest = wilds path" using u arg_cong [OF r(1), of wilds] by simp
    moreover have "valid_pat rest" if "hd rest \<noteq> CHR ''*''"
      using valid_pat_static [OF u, of rest] that r(1) re(1) by (metis (no_types))
    ultimately have s: "at_static B np path rest n0 ?n"
      using False n r re wf(3) unfolding at_static_def by (metis (no_types))
    show ?thesis
    proof (cases "n_wildChild (hdr ?n)")
      case True
      from s this IH walk show ?thesis by (rule walk_into_wild)
    next
      case nwc: False
      show ?thesis
      proof (cases "find_index (hd rest) (n_indices (hdr ?n))")
        case None
        from s nwc this walk show ?thesis by (rule walk_to_new)
      next
        case (Some k)
        from s nwc this IH walk show ?thesis by (rule walk_into_child)
      qed
    qed
  qed
  then show ?thesis using added_from [OF _ n(3) _ n(4)] n(2) wf(2) r(1) by simp
qed

text \<open>The parameter node.\<close>

lemma added_param:
  assumes n: "wf_tree B n" "n_nType (hdr n) = Param" and r: "r \<noteq> []" "hd r = CHR ''/''"
    and c: "wf_tree (unat (n_maxParams (hdr n)) - 1) c" "n_nType (hdr c) = Static" "starts (CHR ''/'') c"
      "set (routes c) = insert (r, h) (\<Union>d \<in> set (children n). set (routes d))"
      "r \<notin> fst ` (\<Union>d \<in> set (children n). set (routes d))"
    and n': "children n' = [c]" "hdr n' = (hdr n)\<lparr>n_indices := n_indices (hdr n')\<rparr>"
      "n_indices (hdr n') \<in> {[], ''/''}"
  shows "added B (n_path (hdr n) @ r) h n n'"
proof -
  have h: "n_path (hdr n') = n_path (hdr n)" "n_handlers (hdr n') = n_handlers (hdr n)"
    "n_nType (hdr n') = n_nType (hdr n)" "n_wildChild (hdr n') = n_wildChild (hdr n)"
    "n_maxParams (hdr n') = n_maxParams (hdr n)"
    using arg_cong [OF n'(2), of n_path] arg_cong [OF n'(2), of n_handlers] arg_cong [OF n'(2), of n_nType]
      arg_cong [OF n'(2), of n_wildChild] arg_cong [OF n'(2), of n_maxParams] by simp_all
  have "below n' = insert (r, h) (below n)" using c(4) h by (simp add: below_def n'(1))
  moreover have "r \<notin> fst ` below n" using c(5) r(1) by (auto simp: below_def split: option.splits)
  ultimately have "set (routes n') = insert (n_path (hdr n) @ r, h) (set (routes n))"
    "n_path (hdr n) @ r \<notin> fst ` set (routes n)" using routes_insert [OF h(1)] by simp_all
  moreover have "wf_tree B n'" using n n' h c(1-3) by (simp add: wf_tree_param)
  moreover have "starts x n \<longrightarrow> starts x n'" for x using n h by (auto simp: starts_def wf_tree_param)
  ultimately show ?thesis using h by (simp add: added_def)
qed

text \<open>A parameter node gets its first child, or the rest goes into the child it has.\<close>

lemma param_to_new:
  assumes n: "wf_tree B n" "n_nType (hdr n) = Param" and leaf: "children n = []"
    and r: "r \<noteq> []" "hd r = CHR ''/''" "valid_pat r" "wilds r \<le> unat (n_maxParams (hdr n)) - 1" "B \<le> 255"
    and ins: "insert_new (word_of_nat (wilds r)) r full (Some h) n = Inr n'"
  shows "added B (n_path (hdr n) @ r) h n n'"
proof -
  let ?m = "unat (n_maxParams (hdr n)) - 1"
  have idx: "n_indices (hdr n) = []" and m: "?m \<le> 255" using n leaf r(5) by (auto simp: wf_tree_param)
  obtain n'' c where i: "insert_new (word_of_nat (wilds r)) r full (Some h) n = Inr n''" "holds ?m r h c"
    "hdr n'' = (hdr n)\<lparr>n_indices := n_indices (hdr n'')\<rparr>" "length (n_indices (hdr n'')) = length (children n'')"
    "mset (zip (n_indices (hdr n'')) (children n'')) = mset (zip (n_indices (hdr n) @ [hd r]) (children n @ [c]))"
    using insert_new_static [of n r ?m _ full h] leaf idx r m by auto
  with ins leaf idx r(2) have c: "holds ?m r h c" "hdr n' = (hdr n)\<lparr>n_indices := n_indices (hdr n')\<rparr>"
    "length (n_indices (hdr n')) = length (children n')" "zip (n_indices (hdr n')) (children n') = [(CHR ''/'', c)]"
    by simp_all
  then have "children n' = [c]" "n_indices (hdr n') = ''/''"
    by (cases "n_indices (hdr n')"; cases "children n'"; auto)+
  moreover have "r \<notin> fst ` (\<Union>d \<in> set (children n). set (routes d))" using leaf by simp
  ultimately show ?thesis
    using added_param [OF n r(1,2), of c h n'] c(1,2) leaf r(2) by (simp add: holds_def)
qed

lemma param_into_child:
  assumes n: "wf_tree B n" "n_nType (hdr n) = Param" and c: "children n = [c]"
    and r: "r \<noteq> []" "hd r = CHR ''/''"
    and added: "added (unat (n_maxParams (hdr n)) - 1) r h c c'" and n': "n' = Node (hdr n) [c']"
  shows "added B (n_path (hdr n) @ r) h n n'"
proof -
  from n c have "n_nType (hdr c) = Static" "starts (CHR ''/'') c" "n_indices (hdr n) \<in> {[], ''/''}"
    by (auto simp: wf_tree_param)
  with added c show ?thesis
    using added_param [OF n r, of c' h n'] n' by (simp add: added_def)
qed

lemma walk_param_node:
  assumes wf: "wf_tree B n0" "n_nType (hdr n0) = Param" "B \<le> 255"
    and re: "path = n_path (hdr n0) @ r" "r = [] \<or> hd r = CHR ''/''" "valid_pat r"
      "np = word_of_nat (wilds r)" "Suc (wilds r) \<le> unat (n_maxParams (hdr n0))"
    and IH: "\<And>m B np path n'. nsize m < nsize n0 \<Longrightarrow> wf_tree B m \<Longrightarrow> B \<le> 255 \<Longrightarrow> reached B np path m \<Longrightarrow>
      addRoute_walk np path full (Some h) m = Inr n' \<Longrightarrow> added B path h m n'"
    and walk: "addRoute_walk np path full (Some h) n0 = Inr n'"
  shows "added B path h n0 n'"
proof -
  let ?n = "walk_node np path n0" and ?m = "unat (n_maxParams (hdr n0)) - 1"
  have l: "lcp path (n_path (hdr n0)) = length (n_path (hdr n0))" by (simp add: lcp_full re(1))
  then have r: "drop (lcp path (n_path (hdr n0))) path = r" by (simp add: re(1))
  have m: "unat (n_maxParams (hdr n0)) \<le> B" using wf by (simp add: wf_tree_param)
  have un: "unat np = wilds r" using re(4,5) m wf(3) by simp
  have same: "n_maxParams (hdr ?n) = n_maxParams (hdr n0)"
    using re(5) un l by (auto simp: walk_node_def Let_def raise_maxParams_def word_less_nat_alt)
  have n: "wf_tree B ?n" "n_nType (hdr ?n) = Param" "set (routes ?n) = set (routes n0)" "children ?n = children n0"
    "n_path (hdr ?n) = n_path (hdr n0)" "\<And>x. starts x n0 \<Longrightarrow> starts x ?n"
    "\<not> n_wildChild (hdr ?n)" "n_indices (hdr ?n) = n_indices (hdr n0)"
    using l wf wf_tree_raise [OF wf(1), of np] un re(5) m by (auto simp: walk_node_def Let_def wf_tree_param)
  have "added B (n_path (hdr ?n) @ r) h ?n n'"
  proof (cases "r = []")
    case True
    from walk walk_end [of path n0 np full "Some h"] True r
    have "n_handlers (hdr ?n) = None" "n' = upd (n_handlers_update (\<lambda>_. Some h)) ?n"
      by (auto simp: Let_def split: if_splits)
    moreover have "n_path (hdr ?n) \<noteq> []" using n(1,2) by (auto simp: wf_tree_param)
    ultimately show ?thesis using added_here [OF n(1), of h] n(2) True by simp
  next
    case ne: False
    with re(2) have sl: "hd r = CHR ''/''" by simp
    have B': "?m \<le> 255" and wm: "wilds r \<le> ?m" using m wf(3) re(5) by simp_all
    show ?thesis
    proof (cases "children ?n")
      case Nil
      then have "n_indices (hdr ?n) = []" using n(1,2) by (simp add: wf_tree_param)
      with walk walk_static [OF r ne refl n(7), of full "Some h"] Nil re(4)
      have "insert_new (word_of_nat (wilds r)) r full (Some h) ?n = Inr n'" by simp
      from param_to_new [OF n(1,2) Nil ne sl re(3) _ wf(3) this] wm show ?thesis by (simp add: same)
    next
      case (Cons c cs)
      with n(1,2) have c: "children ?n = [c]" "n_nType (hdr c) = Static" "starts (CHR ''/'') c" "wf_tree ?m c"
        using same by (auto simp: wf_tree_param)
      from walk walk_slash [OF r ne refl n(7,2) sl c(1), of full "Some h"] obtain c' where
        c': "addRoute_walk np r full (Some h) (upd incr_priority c) = Inr c'" "n' = Node (hdr ?n) [c']"
        by (auto simp: mapG_eq_Inr)
      have "reached ?m np r (upd incr_priority c)" using c(2,3) re(3,4) ne sl wm by (simp add: reached_def)
      moreover have "nsize (upd incr_priority c) < nsize n0" using c(1) n(4) nsize_child [of c n0] by simp
      ultimately have "added ?m r h c c'" using IH [OF _ _ B' _ c'(1)] c(4) by (simp add: added_bump)
      with param_into_child [OF n(1,2) c(1) ne sl _ c'(2)] show ?thesis by (simp add: same)
    qed
  qed
  then show ?thesis using added_from [OF _ n(3) _ n(6)] n(2,5) wf(2) re(1) by simp
qed

theorem addRoute_walk_added:
  assumes "wf_tree B n" "B \<le> 255" "reached B np path n"
    "addRoute_walk np path full (Some h) n = Inr n'"
  shows "added B path h n n'"
  using assms
proof (induction "nsize n" arbitrary: n B np path n' rule: less_induct)
  case less
  show ?case
  proof (cases "n_nType (hdr n)")
    case Static
    with less.prems(3) show ?thesis
      using walk_static_node [OF less.prems(1) Static less.prems(2) _ _ _ _ _ _ less.hyps less.prems(4)]
      by (simp add: reached_def)
  next
    case Param
    with less.prems(3) obtain r where "path = n_path (hdr n) @ r" "r = [] \<or> hd r = CHR ''/''" "valid_pat r"
      "np = word_of_nat (wilds r)" "Suc (wilds r) \<le> unat (n_maxParams (hdr n))" by (auto simp: reached_def)
    from walk_param_node [OF less.prems(1) Param less.prems(2) this less.hyps less.prems(4)] show ?thesis .
  next
    case CatchAll
    with less.prems walk_catchAll [of B n path np full h n'] show ?thesis by (simp add: reached_def)
  qed
qed

end
