(* ===== verification/RouteTable.thy ===== *)
theory RouteTable
  imports RouteInsert
begin

text \<open>
  The contract between the tree and the rest of the router: the locale \<open>route_table\<close> states what a
  table of routes promises of its insertion and its lookup, the lemmas that follow from the
  promise alone are proved inside it, and the tree of \<open>tree.go\<close> is an instance.
\<close>

section \<open>Roots\<close>

text \<open>
  What holds of the root of a tree between two calls: it is the node that \<open>new(node)\<close> makes, or
  every route below it begins with a slash.
\<close>

definition root_ok :: "'h node \<Rightarrow> bool" where
  "root_ok n \<longleftrightarrow> wf_tree 255 n \<and> n_nType (hdr n) = Static \<and> (fresh n \<or> starts (CHR ''/'') n)"

text \<open>The patterns the correctness results speak of.\<close>

definition route_pat :: "string \<Rightarrow> bool" where
  "route_pat p \<longleftrightarrow> valid_pat p \<and> p \<noteq> [] \<and> hd p = CHR ''/'' \<and> wilds p \<le> 255"

lemma countParams_wilds: "wilds p \<le> 255 \<Longrightarrow> countParams p = word_of_nat (wilds p)"
  by (cases "wilds p = 255") (simp_all add: countParams_def)

lemma root_ok_new_node [simp]: "root_ok new_node"
  by (simp add: root_ok_def) (simp add: new_node_def fresh_def)

lemma routes_fresh: "fresh n \<Longrightarrow> routes n = []"
  by (cases n) (simp add: fresh_def)

lemma routes_new_node [simp]: "routes new_node = []"
  by (simp add: new_node_def)

lemma addRoute_root:
  assumes n: "root_ok n" and p: "route_pat p" and ins: "addRoute p (Some h) n = Inr n'"
  shows "root_ok n'" "set (routes n') = insert (p, h) (set (routes n))" "p \<notin> fst ` set (routes n)"
proof -
  let ?n = "upd incr_priority n"
  have np: "countParams p = word_of_nat (wilds p)" "wilds p \<le> 255" "\<not> is_wild (hd p)"
    using p by (simp_all add: route_pat_def countParams_wilds)
  have "added 255 p h n n' \<and> (fresh n' \<or> starts (CHR ''/'') n')"
  proof (cases "n_path (hdr n) \<noteq> [] \<or> children n \<noteq> []")
    case True
    then have st: "starts (CHR ''/'') n" using n by (auto simp: root_ok_def fresh_def)
    have "addRoute_walk (countParams p) p p (Some h) ?n = Inr n'"
      using ins True by (simp add: addRoute_def Let_def)
    moreover have "reached 255 (countParams p) p ?n"
      using n p np st by (simp add: reached_def root_ok_def route_pat_def)
    moreover have "wf_tree 255 ?n" using n by (simp add: root_ok_def)
    ultimately have "added 255 p h n n'" using addRoute_walk_added added_bump harmless_incr by blast
    with st show ?thesis by (simp add: added_def)
  next
    case False
    then have fr: "fresh n" using n by (auto simp: root_ok_def starts_def)
    then have fr': "fresh ?n" by (simp add: fresh_def)
    have "addRoute p (Some h) n = insertChild (countParams p) p p (Some h) ?n"
      using False by (simp add: addRoute_def Let_def)
    with insertChild_fresh [OF _ _ np(3,2) order_refl fr', of p "[]" p h] p np(1) ins
    have "holds 255 p h n'" by (auto simp: insertChild_def route_pat_def)
    with fr p show ?thesis
      by (auto simp: added_def holds_def routes_fresh route_pat_def) (auto simp: fresh_def starts_def)
  qed
  then show "root_ok n'" "set (routes n') = insert (p, h) (set (routes n))" "p \<notin> fst ` set (routes n)"
    using n by (auto simp: added_def root_ok_def)
qed

text \<open>The lookup as the caller sees it: the handlers and the parameters, if there are any.\<close>

definition find_route :: "nat \<Rightarrow> 'h node \<Rightarrow> string \<Rightarrow> ('h list \<times> Params) option go" where
  "find_route cap n s =
     mapG (\<lambda>(hs, q, _). map_option (\<lambda>h. (h, p_elems q)) hs) (getValue n s \<lparr>p_elems = [], p_cap = cap\<rparr>)"

lemma find_route_root:
  assumes "root_ok n"
  obtains r where "find_route cap n s = Inr r"
    "matches (set (routes n)) s = (case r of None \<Rightarrow> {} | Some m \<Rightarrow> {m})"
proof -
  have "lookup_ok (set (routes n)) s \<lparr>p_elems = [], p_cap = cap\<rparr> (getValue n s \<lparr>p_elems = [], p_cap = cap\<rparr>)"
    using assms by (intro getValue_wf [of 255]) (auto simp: root_ok_def fits_def)
  then obtain hs q t where g: "getValue n s \<lparr>p_elems = [], p_cap = cap\<rparr> = Inr (hs, q, t)"
    and c: "case hs of None \<Rightarrow> matches (set (routes n)) s = {}
     | Some h \<Rightarrow> \<exists>ps. matches (set (routes n)) s = {(h, ps)} \<and> p_elems q = p_elems \<lparr>p_elems = [], p_cap = cap\<rparr> @ ps"
    unfolding lookup_ok_def by auto
  have "find_route cap n s = Inr (map_option (\<lambda>h. (h, p_elems q)) hs)" by (simp add: find_route_def g)
  with c that show thesis by (cases hs) auto
qed

section \<open>The contract\<close>

fun register_all :: "(string \<Rightarrow> 'h list \<Rightarrow> 't \<Rightarrow> 't go) \<Rightarrow> (string \<times> 'h list) list \<Rightarrow> 't \<Rightarrow> 't go" where
  "register_all ins [] t = Inr t"
| "register_all ins ((p, h) # rs) t = bindG (ins p h t) (register_all ins rs)"

locale route_table =
  fixes empty :: "'t"
    and ins :: "string \<Rightarrow> 'h list \<Rightarrow> 't \<Rightarrow> 't go"
    and look :: "'t \<Rightarrow> string \<Rightarrow> ('h list \<times> Params) option go"
    and entries :: "'t \<Rightarrow> (string \<times> 'h list) set"
    and inv :: "'t \<Rightarrow> bool"
  assumes inv_empty: "inv empty"
    and entries_empty: "entries empty = {}"
    and ins_law: "inv t \<Longrightarrow> route_pat p \<Longrightarrow> ins p h t = Inr t' \<Longrightarrow>
          inv t' \<and> entries t' = insert (p, h) (entries t) \<and> p \<notin> fst ` entries t"
    and look_law: "inv t \<Longrightarrow> \<exists>r. look t s = Inr r \<and>
          matches (entries t) s = (case r of None \<Rightarrow> {} | Some m \<Rightarrow> {m})"
begin

lemma look_total: "inv t \<Longrightarrow> \<exists>r. look t s = Inr r"
  using look_law by blast

lemma look_cases:
  assumes "inv t"
  obtains (none) "look t s = Inr None" "matches (entries t) s = {}"
  | (some) m where "look t s = Inr (Some m)" "matches (entries t) s = {m}"
proof -
  from look_law [OF assms] obtain r where r: "look t s = Inr r"
    "matches (entries t) s = (case r of None \<Rightarrow> {} | Some m \<Rightarrow> {m})" by blast
  then show thesis by (cases r) (use none some in simp_all)
qed

lemma look_Some: "inv t \<Longrightarrow> look t s = Inr (Some m) \<longleftrightarrow> m \<in> matches (entries t) s"
  by (rule look_cases [of t s]) auto

lemma look_None: "inv t \<Longrightarrow> look t s = Inr None \<longleftrightarrow> matches (entries t) s = {}"
  by (rule look_cases [of t s]) auto

text \<open>No request path is matched by two routes, and the handlers of a route are its own.\<close>

lemma unambiguous:
  "inv t \<Longrightarrow> (p, h) \<in> entries t \<Longrightarrow> (p', h') \<in> entries t \<Longrightarrow>
   pmatch p s = Some ps \<Longrightarrow> pmatch p' s = Some ps' \<Longrightarrow> h = h' \<and> ps = ps'"
  by (erule look_cases [of t s]) (use in_matches [of h ps "entries t" s] in_matches [of h' ps' "entries t" s] in auto)

lemma register_all_law:
  assumes "inv t" "register_all ins rs t = Inr t'" "\<forall>(p, h) \<in> set rs. route_pat p"
  shows "inv t' \<and> entries t' = set rs \<union> entries t \<and> distinct (map fst rs) \<and>
    fst ` set rs \<inter> fst ` entries t = {}"
  using assms
proof (induction rs arbitrary: t)
  case (Cons r rs)
  obtain p h where r: "r = (p, h)" by fastforce
  with Cons.prems obtain t1 where t1: "ins p h t = Inr t1" "register_all ins rs t1 = Inr t'"
    by (auto simp: bindG_eq_Inr)
  with Cons.prems ins_law [of t p h t1] r
  have "inv t1 \<and> entries t1 = insert (p, h) (entries t) \<and> p \<notin> fst ` entries t" by simp
  with Cons.IH [of t1] Cons.prems t1 r show ?case by (auto simp: image_iff)
qed simp

lemma look_registered:
  assumes "register_all ins rs empty = Inr t" "\<forall>(p, h) \<in> set rs. route_pat p"
  shows "look t s = Inr (Some (h, ps)) \<longleftrightarrow> (\<exists>p. (p, h) \<in> set rs \<and> pmatch p s = Some ps)"
  using register_all_law [OF inv_empty assms] look_Some [of t s] by (simp add: entries_empty in_matches)

text \<open>The order of the registrations does not matter to any lookup.\<close>

lemma order_irrelevant:
  assumes "register_all ins rs empty = Inr t" "register_all ins rs' empty = Inr t'" "set rs = set rs'"
    "\<forall>(p, h) \<in> set rs. route_pat p"
  shows "look t s = look t' s"
proof -
  have "inv t" "entries t = set rs" "inv t'" "entries t' = set rs"
    using register_all_law [OF inv_empty assms(1,4)] register_all_law [OF inv_empty assms(2)] assms(3,4)
    by (simp_all add: entries_empty)
  then show ?thesis by (metis look_cases singleton_inject insert_not_empty)
qed

end

interpretation tree: route_table new_node "\<lambda>p h. addRoute p (Some h)" "find_route cap" "\<lambda>n. set (routes n)" root_ok
  for cap
proof
  show "root_ok n \<Longrightarrow> route_pat p \<Longrightarrow> addRoute p (Some h) n = Inr n' \<Longrightarrow>
      root_ok n' \<and> set (routes n') = insert (p, h) (set (routes n)) \<and> p \<notin> fst ` set (routes n)"
    for n n' :: "'h node" and p h
    using addRoute_root by blast
  show "root_ok n \<Longrightarrow> \<exists>r. find_route cap n s = Inr r \<and>
      matches (set (routes n)) s = (case r of None \<Rightarrow> {} | Some m \<Rightarrow> {m})" for n :: "'h node" and s
    using find_route_root by metis
qed simp_all

section \<open>The properties of the router's tree\<close>

abbreviation add :: "string \<Rightarrow> 'h list \<Rightarrow> 'h node \<Rightarrow> 'h node go" where
  "add p h \<equiv> addRoute p (Some h)"


definition sample_routes :: "(string \<times> nat list) list" where
  "sample_routes = [(''/static/*filepath'', [1]), (''/a/:x'', [2]), (''/a/:x/b'', [3]), (''/'', [4])]"

lemma sample_ok:
  "\<exists>t. register_all add sample_routes new_node = Inr t" "\<forall>(p, h) \<in> set sample_routes. route_pat p"
proof -
  have "case register_all add sample_routes new_node of Inl _ \<Rightarrow> False | Inr t \<Rightarrow> True" by code_simp
  then show "\<exists>t. register_all add sample_routes new_node = Inr t" by (auto split: sum.splits)
  show "\<forall>(p, h) \<in> set sample_routes. route_pat p" by code_simp
qed








text \<open>
  The lookup in a tree built by successful registrations never panics, whatever the request
  path: no index or slice bound is exceeded and no node has an invalid type.
\<close>

theorem getValue_no_panic:
  assumes "register_all add rs new_node = Inr t" "\<forall>(p, h) \<in> set rs. route_pat p"
  shows "\<exists>r. find_route cap t s = Inr r"
  using tree.register_all_law [OF root_ok_new_node assms] tree.look_total [of t cap s] by blast

theorem getValue_no_panic_witness:
  "\<exists>t r. register_all add sample_routes new_node = Inr t \<and> find_route 0 t ''//a'' = Inr r"
  using sample_ok(1) getValue_no_panic [OF _ sample_ok(2)] by blast

section \<open>Corner cases\<close>

text \<open>
  Three things the tree does that its comments do not say: a route below a catch-all is accepted and
  never reached; a catch-all right behind a registered segment is refused by an index panic instead
  of the message meant for it; and a redirect without the slash is recommended for \<open>/a/\<close> although
  \<open>/a\<close> is not registered.
\<close>

definition tree_of :: "string list \<Rightarrow> nat node go" where
  "tree_of ps = register_all add (map (\<lambda>p. (p, [1])) ps) new_node"

lemma below_catch_all:
  "bindG (tree_of [''/s/*f'', ''/s/*f/x'']) (\<lambda>t. find_route 3 t ''/s/*f/x'') = Inr (Some ([1], [(''f'', ''/*f/x'')]))"
  by code_simp

lemma catch_all_index_panic: "tree_of [''/src'', ''/src*f''] = Inl index_panic"
  by code_simp

lemma spurious_redirect:
  "bindG (tree_of [''/a/b'', ''/ac'']) (\<lambda>t. mapG (\<lambda>(h, q, tsr). (h, tsr)) (getValue t ''/a/'' \<lparr>p_elems = [], p_cap = 3\<rparr>)) =
     Inr (None, True)"
  "bindG (tree_of [''/a/b'', ''/ac'']) (\<lambda>t. find_route 3 t ''/a'') = Inr None"
  by code_simp+

end
