(* ===== verification/Chain.thy ===== *)
theory Chain
  imports Prelude
begin

text \<open>
  The flow control of gin's \<open>Context\<close>: \<open>Next\<close>, \<open>Abort\<close>, \<open>IsAborted\<close>. The code keeps one cursor
  \<open>index :: int8\<close> into the list of handlers and lets every handler move it; \<open>onion\<close> is the
  promise of the documentation: a handler wraps the pending ones, and an aborted request runs
  none of them.

  A handler is any Go function on the context, and the cursor is not exported. So a handler is a
  program over the rest of the context, of type \<open>'x\<close>, that interacts with the cursor only by the
  methods. A \<open>Next\<close> that panics unwinds the handler unless it recovers, so the rest of the
  program depends on the outcome.
\<close>

section \<open>Handlers\<close>

datatype 'x outcome = Done 'x | Panicked 'x string

datatype 'x prog =
    Return 'x
  | Throw 'x string
  | Abort "'x prog"
  | IsAborted "bool \<Rightarrow> 'x prog"
  | Next 'x "'x outcome \<Rightarrow> 'x prog"

text \<open>A handler that does not recover: a panic below passes through.\<close>

definition NextThen :: "'x \<Rightarrow> ('x \<Rightarrow> 'x prog) \<Rightarrow> 'x prog" where
  "NextThen x k = Next x (\<lambda>r. case r of Done y \<Rightarrow> k y | Panicked y m \<Rightarrow> Throw y m)"

text \<open>Programs in sequence.\<close>

primrec bindP :: "'x prog \<Rightarrow> ('x \<Rightarrow> 'x prog) \<Rightarrow> 'x prog" where
  "bindP (Return x) f = f x"
| "bindP (Throw x m) f = Throw x m"
| "bindP (Abort p) f = Abort (bindP p f)"
| "bindP (IsAborted k) f = IsAborted (\<lambda>b. bindP (k b) f)"
| "bindP (Next x k) f = Next x (\<lambda>r. bindP (k r) f)"

section \<open>The code\<close>

definition abortIndex :: "8 word" where
  "abortIndex = 63"

primrec exec :: "(8 word \<Rightarrow> 'x \<Rightarrow> ('x outcome \<times> 8 word) option) \<Rightarrow> 'x prog \<Rightarrow> 8 word \<Rightarrow>
    ('x outcome \<times> 8 word) option" where
  "exec nx (Return x) i = Some (Done x, i)"
| "exec nx (Throw x m) i = Some (Panicked x m, i)"
| "exec nx (Abort p) i = exec nx p abortIndex"
| "exec nx (IsAborted k) i = exec nx (k (abortIndex \<le>s i)) i"
| "exec nx (Next x k) i = (case nx i x of None \<Rightarrow> None | Some (r, j) \<Rightarrow> exec nx (k r) j)"

text \<open>The loop of \<open>Next\<close>, from the test of its condition on. No fuel left is \<open>None\<close>.\<close>

fun chain_loop :: "nat \<Rightarrow> ('h \<Rightarrow> 'x \<Rightarrow> 'x prog) \<Rightarrow> 'h list \<Rightarrow> 8 word \<Rightarrow> 'x \<Rightarrow>
    ('x outcome \<times> 8 word) option" where
  "chain_loop 0 sem hs i x = None"
| "chain_loop (Suc fuel) sem hs i x =
     (if i <s word_of_nat (length hs) then
        if 0 \<le>s i then
          (case exec (\<lambda>i x. chain_loop fuel sem hs (i + 1) x) (sem (hs ! unat i) x) i of
             None \<Rightarrow> None
           | Some (Done x', j) \<Rightarrow> chain_loop fuel sem hs (j + 1) x'
           | Some (Panicked x' m, j) \<Rightarrow> Some (Panicked x' m, j))
        else Some (Panicked x index_panic, i)
      else Some (Done x, i))"

definition ctx_Next :: "nat \<Rightarrow> ('h \<Rightarrow> 'x \<Rightarrow> 'x prog) \<Rightarrow> 'h list \<Rightarrow> 8 word \<Rightarrow> 'x \<Rightarrow>
    ('x outcome \<times> 8 word) option" where
  "ctx_Next fuel sem hs i x = chain_loop fuel sem hs (i + 1) x"

section \<open>The promise\<close>

text \<open>
  \<open>wrap rest p a called\<close> runs the program of one handler in front of the pending ones \<open>rest\<close>; the
  flags say whether the request is aborted and whether \<open>Next\<close> was called.
\<close>

primrec wrap :: "(bool \<Rightarrow> 'x \<Rightarrow> 'x outcome \<times> bool) \<Rightarrow> 'x prog \<Rightarrow> bool \<Rightarrow> bool \<Rightarrow>
    'x outcome \<times> bool \<times> bool" where
  "wrap rest (Return x) a called = (Done x, a, called)"
| "wrap rest (Throw x m) a called = (Panicked x m, a, called)"
| "wrap rest (Abort p) a called = wrap rest p True called"
| "wrap rest (IsAborted k) a called = wrap rest (k a) a called"
| "wrap rest (Next x k) a called =
     (if called then wrap rest (k (Done x)) a True
      else case rest a x of (r, a') \<Rightarrow> wrap rest (k r) a' True)"

primrec onion :: "('h \<Rightarrow> 'x \<Rightarrow> 'x prog) \<Rightarrow> 'h list \<Rightarrow> bool \<Rightarrow> 'x \<Rightarrow> 'x outcome \<times> bool" where
  "onion sem [] a x = (Done x, a)"
| "onion sem (h # hs) a x =
     (if a then (Done x, a)
      else case wrap (\<lambda>a x. onion sem hs a x) (sem h x) False False of
             (Panicked x' m, a', called) \<Rightarrow> (Panicked x' m, a')
           | (Done x', a', called) \<Rightarrow> if called then (Done x', a') else onion sem hs a' x')"

lemma onion_aborted [simp]: "onion sem hs True x = (Done x, True)"
  by (cases hs) simp_all

lemmas onion_Nil = onion.simps(1)
lemmas onion_Cons = onion.simps(2) [of _ _ _ False, simplified if_False]

declare onion.simps(2) [simp del]

text \<open>
  The handlers for which the cursor keeps the promise: \<open>Next\<close> is called at most once, and a handler
  that recovers from a panic aborts the request. \<open>q\<close> says whether \<open>IsAborted\<close> may be called.
\<close>

primrec tidy :: "bool \<Rightarrow> 'x prog \<Rightarrow> bool \<Rightarrow> bool \<Rightarrow> bool" where
  "tidy q (Return x) called dirty \<longleftrightarrow> \<not> dirty"
| "tidy q (Throw x m) called dirty \<longleftrightarrow> True"
| "tidy q (Abort p) called dirty \<longleftrightarrow> tidy q p called False"
| "tidy q (IsAborted k) called dirty \<longleftrightarrow> q \<and> (\<forall>b. tidy q (k b) called dirty)"
| "tidy q (Next x k) called dirty \<longleftrightarrow>
     \<not> called \<and> (\<forall>r. tidy q (k r) True (case r of Done _ \<Rightarrow> dirty | Panicked _ _ \<Rightarrow> True))"

definition max_chain :: "bool \<Rightarrow> nat" where
  "max_chain q = (if q then 31 else 62)"

section \<open>The cursor keeps the promise\<close>

lemma sint_small: "0 \<le> k \<Longrightarrow> k \<le> 127 \<Longrightarrow> sint (word_of_int k :: 8 word) = k"
  by (simp add: signed_of_int signed_take_bit_int_eq_self)

lemma sint_nat_small: "k \<le> 127 \<Longrightarrow> sint (word_of_nat k :: 8 word) = int k"
  using sint_small [of "int k"] by simp

lemma sint_plus1:
  "0 \<le> sint (w :: 8 word) \<Longrightarrow> sint w < 127 \<Longrightarrow> sint (w + 1) = sint w + 1"
  by (simp add: sint_word_add signed_take_bit_int_eq_self)

lemma sint_abortIndex [simp]: "sint abortIndex = 63"
  by (simp add: abortIndex_def)

lemma word_sint: "w = word_of_nat k" if "sint (w :: 8 word) = int k" for w k
proof -
  from that have "word_of_int (sint w) = (word_of_int (int k) :: 8 word)" by simp
  then show ?thesis by simp
qed

text \<open>
  Where the cursor is when \<open>Next\<close> is back, with \<open>n\<close> handlers of which \<open>r\<close> were pending from \<open>i\<close> on.
\<close>

fun back_at :: "nat \<Rightarrow> nat \<Rightarrow> nat \<Rightarrow> 'x outcome \<times> bool \<Rightarrow> int \<Rightarrow> bool" where
  "back_at n i r (out, True) j \<longleftrightarrow> 63 \<le> j \<and> j \<le> 64 + int r"
| "back_at n i r (Done _, False) j \<longleftrightarrow> int n \<le> j \<and> j \<le> int (n + r)"
| "back_at n i r (Panicked _ _, False) j \<longleftrightarrow> int i \<le> j \<and> j \<le> int (n + r)"

lemma back_at_bounds:
  "back_at n i r out j \<Longrightarrow> n + r \<le> 124 \<Longrightarrow> r \<le> 62 \<Longrightarrow> 0 \<le> j \<and> j \<le> 126"
  by (induction n i r out j rule: back_at.induct) auto

lemma back_at_Suc: "back_at n (Suc i) b r j \<Longrightarrow> back_at n i (Suc b) r j"
  by (induction n i "Suc b" r j rule: back_at.induct) auto

text \<open>Where it is while a handler runs, with \<open>b\<close> handlers pending behind it.\<close>

definition cursor :: "nat \<Rightarrow> nat \<Rightarrow> nat \<Rightarrow> bool \<Rightarrow> bool \<Rightarrow> bool \<Rightarrow> int \<Rightarrow> bool" where
  "cursor n i b a called dirty j \<longleftrightarrow>
     (if a then 63 \<le> j \<and> j \<le> 64 + int b
      else if \<not> called then j = int i \<and> \<not> dirty
      else if dirty then int i \<le> j \<and> j \<le> int (n + b)
      else int n \<le> j \<and> j \<le> int (n + b))"

fun left_at :: "nat \<Rightarrow> nat \<Rightarrow> nat \<Rightarrow> 'x outcome \<Rightarrow> bool \<Rightarrow> bool \<Rightarrow> int \<Rightarrow> bool" where
  "left_at n i b (Done _) a called j \<longleftrightarrow> cursor n i b a called False j"
| "left_at n i b (Panicked _ _) a called j \<longleftrightarrow>
     (if a then 63 \<le> j \<and> j \<le> 64 + int b else int i \<le> j \<and> j \<le> int (n + b))"

lemma chain_loop_past:
  assumes "length hs \<le> 62" "int (length hs) \<le> sint i"
  shows "chain_loop (Suc fuel) sem hs i x = Some (Done x, i)"
  using assms by (simp add: word_sless_alt sint_nat_small not_less)

text \<open>One handler, given what the pending ones do.\<close>

lemma exec_wrap:
  assumes nx: "\<And>x. \<exists>j. nx (word_of_nat i) x = Some (fst (rest False x), j) \<and> back_at n (Suc i) b (rest False x) (sint j)"
    and past: "\<And>x w. 63 \<le> sint w \<Longrightarrow> sint w \<le> 64 + int b \<Longrightarrow> nx w x = Some (Done x, w + 1)"
    and rest: "\<And>x. rest True x = (Done x, True)"
    and n: "n \<le> max_chain q" "Suc i + b = n"
    and p: "tidy q p called dirty" "cursor n i b a called dirty (sint w)" "a \<longrightarrow> \<not> called \<longrightarrow> sint w = 63"
    and out: "wrap rest p a called = (out, a', called')"
  shows "\<exists>j. exec nx p w = Some (out, j) \<and> left_at n i b out a' called' (sint j)"
  using p out
proof (induction p arbitrary: w a called dirty)
  case (Return x)
  then show ?case by auto
next
  case (Throw x m)
  then show ?case using n(2) by (auto simp: cursor_def split: if_splits)
next
  case (Abort p)
  have "cursor n i b True called False (sint abortIndex)" by (simp add: cursor_def)
  with Abort.IH [of called False True abortIndex] Abort.prems show ?case by simp
next
  case (IsAborted k)
  then have q: "q" "tidy q (k a) called dirty" unfolding tidy.simps by blast+
  have "(abortIndex \<le>s w) = a"
    using IsAborted.prems(2) n q(1) by (auto simp: cursor_def word_sle_eq max_chain_def split: if_splits)
  moreover have "wrap rest (k a) a called = (out, a', called')" using IsAborted.prems(4) by simp
  note IsAborted.IH [OF rangeI q(2) IsAborted.prems(2,3) this]
  ultimately show ?case by simp
next
  case (Next x k)
  then have called: "\<not> called" and t: "\<And>r. tidy q (k r) True (case r of Done _ \<Rightarrow> dirty | Panicked _ _ \<Rightarrow> True)"
    by simp_all
  show ?case
  proof (cases a)
    case True
    with Next.prems called have w: "sint w = 63" by simp
    then have s: "sint (w + 1) = 64" by (simp add: sint_plus1)
    have wr: "wrap rest (k (Done x)) True True = (out, a', called')"
      using Next.prems(4) called True rest by simp
    have c: "cursor n i b True True dirty (sint (w + 1))" using s by (simp add: cursor_def)
    have td: "tidy q (k (Done x)) True dirty" using t [of "Done x"] by simp
    have "nx w x = Some (Done x, w + 1)" using past [of w x] w by simp
    with Next.IH [OF rangeI td c _ wr] show ?thesis by simp
  next
    case False
    with Next.prems(2) called have w: "w = word_of_nat i" and d: "\<not> dirty" by (auto simp: cursor_def intro: word_sint)
    from nx [of x] obtain j where j: "nx (word_of_nat i) x = Some (fst (rest False x), j)"
      "back_at n (Suc i) b (rest False x) (sint j)" by blast
    obtain r a1 where r: "rest False x = (r, a1)" by fastforce
    let ?d = "case r of Done _ \<Rightarrow> dirty | Panicked _ _ \<Rightarrow> True"
    have wr: "wrap rest (k r) a1 True = (out, a', called')"
      using Next.prems(4) called False r by simp
    have c: "cursor n i b a1 True ?d (sint j)"
      using j(2) d unfolding r by (cases a1; cases r) (auto simp: cursor_def)
    from Next.IH [OF rangeI t [of r] c _ wr] j(1) r w show ?thesis by simp
  qed
qed

text \<open>The whole chain from the handler \<open>i\<close> on.\<close>

text \<open>Behind the end of the chain the loop leaves the state as it is and advances the cursor once.\<close>

lemma chain_loop_over:
  assumes "length hs \<le> 62" "int (length hs) \<le> sint j" "sint j \<le> 64 + int b" "b < 62" "0 < f"
  shows "chain_loop f sem hs (j + 1) x = Some (Done x, j + 1)" "sint (j + 1) = sint j + 1"
proof -
  show s: "sint (j + 1) = sint j + 1" using assms by (intro sint_plus1) auto
  from assms(5) obtain f' where "f = Suc f'" by (cases f) auto
  with assms s show "chain_loop f sem hs (j + 1) x = Some (Done x, j + 1)"
    by (simp only:) (intro chain_loop_past; simp)
qed

lemma chain_loop_onion:
  assumes "length hs \<le> max_chain q" "\<forall>h \<in> set hs. \<forall>x. tidy q (sem h x) False False"
    "length hs = i + r" "r < fuel"
  shows "\<exists>j. chain_loop fuel sem hs (word_of_nat i) x = Some (fst (onion sem (drop i hs) False x), j) \<and>
    back_at (length hs) i r (onion sem (drop i hs) False x) (sint j)"
  using assms(3,4)
proof (induction r arbitrary: i x fuel)
  case 0
  then obtain f where f: "fuel = Suc f" by (cases fuel) auto
  have "length hs \<le> 62" using assms(1) by (auto simp: max_chain_def split: if_splits)
  moreover from this 0 have "sint (word_of_nat i :: 8 word) = int (length hs)" by (simp add: sint_nat_small)
  ultimately show ?case using 0 f chain_loop_past [of hs "word_of_nat i" f sem x] by simp
next
  case (Suc b)
  then obtain f where f: "fuel = Suc f" "b < f" by (cases fuel) auto
  let ?n = "length hs" and ?i = "word_of_nat i :: 8 word"
  let ?nx = "\<lambda>i x. chain_loop f sem hs (i + 1) x" and ?rest = "\<lambda>a x. onion sem (drop (Suc i) hs) a x"
  have n: "?n \<le> 62" "i < ?n" using assms(1) Suc.prems(1) by (auto simp: max_chain_def split: if_splits)
  have hs: "drop i hs = hs ! i # drop (Suc i) hs" using n(2) by (simp add: Cons_nth_drop_Suc)
  have si: "sint ?i = int i" "sint (word_of_nat ?n :: 8 word) = int ?n" "unat ?i = i"
    using n by (simp_all add: sint_nat_small unat_of_nat)
  have IH: "\<exists>j. ?nx ?i x = Some (fst (?rest False x), j) \<and> back_at ?n (Suc i) b (?rest False x) (sint j)" for x
    using Suc.IH [of "Suc i" f x] Suc.prems(1) f(2) by (simp add: add.commute)
  obtain out a called where w: "wrap ?rest (sem (hs ! i) x) False False = (out, a, called)"
    using prod_cases3 by blast
  have on: "onion sem (drop i hs) False x = (case (out, a, called) of
      (Panicked x' m, a', called) \<Rightarrow> (Panicked x' m, a')
    | (Done x', a', called) \<Rightarrow> if called then (Done x', a') else ?rest a' x')"
    unfolding hs w [symmetric] by (rule onion_Cons)
  have start: "tidy q (sem (hs ! i) x) False False" "cursor ?n i b False False False (sint ?i)"
    using assms(2) n(2) si by (simp_all add: cursor_def)
  have past: "?nx w x = Some (Done x, w + 1)" if "63 \<le> sint w" "sint w \<le> 64 + int b" for x w
    using that n Suc.prems(1) f(2) by (intro chain_loop_over(1) [of hs w b]) auto
  obtain j where j: "exec ?nx (sem (hs ! i) x) ?i = Some (out, j)" "left_at ?n i b out a called (sint j)"
    using exec_wrap [where nx = ?nx and rest = ?rest, OF IH past _ assms(1) _ start _ w] Suc.prems(1) by auto
  have step: "chain_loop fuel sem hs ?i x = (case (out, j) of
      (Done x', j) \<Rightarrow> chain_loop f sem hs (j + 1) x' | (Panicked x' m, j) \<Rightarrow> Some (Panicked x' m, j))"
    using f(1) n si j(1) by (auto simp: word_sless_alt word_sle_eq split: outcome.splits)
  show ?case
  proof (cases out)
    case (Panicked x' m)
    with j(2) Suc.prems(1) have "back_at ?n i (Suc b) (Panicked x' m, a) (sint j)" by (cases a) auto
    with on step Panicked show ?thesis by simp
  next
    case (Done x')
    show ?thesis
    proof (cases "a \<or> called")
      case True
      then have o: "onion sem (drop i hs) False x = (Done x', a)" using Done on by auto
      have j': "int ?n \<le> sint j" "sint j \<le> 64 + int b" and ba: "back_at ?n i (Suc b) (Done x', a) (sint j + 1)"
        using j(2) Done True n Suc.prems(1) by (auto simp: cursor_def split: if_splits)
      have "b < 62" "0 < f" using f(2) n Suc.prems(1) by simp_all
      with o step Done ba show ?thesis by (simp add: chain_loop_over [OF n(1) j'])
    next
      case False
      then have "j = ?i" using j(2) Done by (auto simp: cursor_def intro: word_sint)
      moreover from False Done on have "onion sem (drop i hs) False x = onion sem (drop (Suc i) hs) False x'"
        by simp
      moreover from IH [of x'] obtain j' where "?nx ?i x' = Some (fst (?rest False x'), j')"
        "back_at ?n (Suc i) b (?rest False x') (sint j')" by blast
      moreover from this(2) have "back_at ?n i (Suc b) (?rest False x') (sint j')"
        by (rule back_at_Suc)
      ultimately show ?thesis using step Done by auto
    qed
  qed
qed

section \<open>Consequences of the promise\<close>

lemma wrap_cong:
  "(\<And>a x. rest a x = rest' a x) \<Longrightarrow> wrap rest p a called = wrap rest' p a called"
  by (metis ext)

text \<open>Handlers behind one that always aborts first.\<close>

lemma onion_abort:
  assumes "\<And>x. \<exists>y. sem h x = Abort (Return y)"
  shows "onion sem (us @ h # hs) a x = onion sem (us @ [h]) a x"
proof (induction us arbitrary: a x)
  case Nil
  from assms obtain y where "sem h x = Abort (Return y)" by blast
  then show ?case by (cases a) (simp_all add: onion_Cons)
next
  case (Cons u us)
  then have "onion sem (us @ h # hs) = onion sem (us @ [h])" by (intro ext)
  then show ?case by (cases a) (simp, simp split: prod.split outcome.split add: onion_Cons)
qed

lemma onion_leaves:
  assumes "\<And>h x. h \<in> set hs \<Longrightarrow> sem h x = Return (f h x)"
  shows "onion sem hs False x = (Done (fold f hs x), False)"
  using assms by (induction hs arbitrary: x) (simp_all add: onion_Cons)

lemma sint_minus_one_plus [simp]: "(- 1 :: 8 word) + 1 = word_of_nat 0"
  by simp

lemma ctx_Next_onion:
  assumes "length hs \<le> max_chain q" "\<forall>h \<in> set hs. \<forall>x. tidy q (sem h x) False False" "length hs < fuel"
  obtains j where "ctx_Next fuel sem hs (-1) x = Some (fst (onion sem hs False x), j)"
    "0 \<le> sint j" "sint j \<le> 126"
proof -
  obtain j where j: "chain_loop fuel sem hs (word_of_nat 0) x = Some (fst (onion sem hs False x), j)"
    "back_at (length hs) 0 (length hs) (onion sem hs False x) (sint j)"
    using chain_loop_onion [OF assms(1,2), of 0 "length hs" fuel x] assms(3) by auto
  have "length hs \<le> 62" using assms(1) by (auto simp: max_chain_def split: if_splits)
  with back_at_bounds [OF j(2)] have "0 \<le> sint j" "sint j \<le> 126" by simp_all
  with j(1) that show thesis by (simp add: ctx_Next_def)
qed

section \<open>The properties of the flow control\<close>

text \<open>Two kinds of handlers to apply the properties to: a wrapper and a leaf.\<close>

fun demo_sem :: "nat \<Rightarrow> nat list \<Rightarrow> nat list prog" where
  "demo_sem 0 x = NextThen (x @ [0]) (\<lambda>y. Return (y @ [99]))"
| "demo_sem (Suc k) x = (if k = 6 then Abort (Return (x @ [7])) else Return (x @ [Suc k]))"

lemma demo_tidy: "tidy q (demo_sem h x) False False"
  by (cases h) (auto simp: NextThen_def split: outcome.splits)



text \<open>
  \<open>Abort\<close> works: whatever handlers are registered behind a handler that aborts the request,
  the outcome is the one without them.
\<close>

theorem abort_stops:
  assumes "length (us @ h # hs) \<le> max_chain q" "\<forall>h \<in> set (us @ h # hs). \<forall>x. tidy q (sem h x) False False"
    "\<And>x. \<exists>y. sem h x = Abort (Return y)" "length (us @ h # hs) < fuel"
  shows "map_option fst (ctx_Next fuel sem (us @ h # hs) (-1) x) =
    map_option fst (ctx_Next fuel sem (us @ [h]) (-1) x)"
proof -
  obtain j where j: "ctx_Next fuel sem (us @ h # hs) (-1) x = Some (fst (onion sem (us @ h # hs) False x), j)"
    using ctx_Next_onion [OF assms(1,2,4)] by metis
  have "length (us @ [h]) \<le> max_chain q" "\<forall>h \<in> set (us @ [h]). \<forall>x. tidy q (sem h x) False False"
    "length (us @ [h]) < fuel" using assms(1,2,4) by auto
  from ctx_Next_onion [OF this] obtain j' where
    "ctx_Next fuel sem (us @ [h]) (-1) x = Some (fst (onion sem (us @ [h]) False x), j')" by metis
  with j onion_abort [of sem h us hs False x, OF assms(3)] show ?thesis by simp
qed

theorem abort_stops_witness:
  "map_option fst (ctx_Next 9 demo_sem ([0, 1] @ 7 # [2, 3]) (-1) []) =
   map_option fst (ctx_Next 9 demo_sem ([0, 1] @ [7]) (-1) [])"
  using abort_stops [of "[0, 1]" 7 "[2, 3]" False demo_sem 9 "[]"] demo_tidy
  by (simp add: max_chain_def eval_nat_numeral)

text \<open>
  Handlers that do not call \<open>Next\<close> run one after the other in the order of their registration.
\<close>

theorem handlers_in_order:
  assumes "length hs \<le> 62" "\<And>h x. h \<in> set hs \<Longrightarrow> sem h x = Return (f h x)" "length hs < fuel"
  shows "map_option fst (ctx_Next fuel sem hs (-1) x) = Some (Done (fold f hs x))"
proof -
  have "length hs \<le> max_chain False" "\<forall>h \<in> set hs. \<forall>x. tidy False (sem h x) False False"
    using assms(1,2) by (simp_all add: max_chain_def)
  from ctx_Next_onion [OF this assms(3)] obtain j where
    "ctx_Next fuel sem hs (-1) x = Some (fst (onion sem hs False x), j)" by metis
  with onion_leaves [of hs sem f x, OF assms(2)] show ?thesis by simp
qed

theorem handlers_in_order_witness:
  "map_option fst (ctx_Next 4 (\<lambda>h x. Return (x @ [h])) [1, 2, 3] (-1) []) =
   Some (Done (fold (\<lambda>h x. x @ [h]) [1 :: nat, 2, 3] []))"
  by (rule handlers_in_order) simp_all

text \<open>
  With 32 wrappers \<open>IsAborted\<close> is true in the outermost one after \<open>Next\<close>, although no handler
  aborted; with 31 it is not.
\<close>

definition ask_sem :: "unit \<Rightarrow> bool \<Rightarrow> bool prog" where
  "ask_sem h x = NextThen x (\<lambda>y. IsAborted (\<lambda>b. Return b))"

lemma spurious_abort:
  "map_option fst (ctx_Next 33 ask_sem (replicate 32 ()) (-1) False) = Some (Done True)"
  "map_option fst (ctx_Next 33 ask_sem (replicate 31 ()) (-1) False) = Some (Done False)"
  by code_simp+

end
