(* ===== verification/GinErrors.thy ===== *)
theory GinErrors
  imports GoStrings
begin

text \<open>
  The errors attached to a request (gin's \<open>errors.go\<close>) and the values of type \<open>interface{}\<close> that
  the framework passes around, as far as its reflection tells them apart.
\<close>

unbundle bit_operations_syntax

section \<open>Values\<close>

datatype goval =
    GNil
  | GBool bool
  | GInt int
  | GStr string
  | GStruct "(string \<times> goval) list"
  | GMap "(string \<times> goval) list"
  | GList "goval list"

section \<open>Errors\<close>

type_synonym ErrorType = "64 word"

definition ErrorTypeBind :: ErrorType where "ErrorTypeBind = push_bit 63 1"
definition ErrorTypeRender :: ErrorType where "ErrorTypeRender = push_bit 62 1"
definition ErrorTypePrivate :: ErrorType where "ErrorTypePrivate = push_bit 0 1"
definition ErrorTypePublic :: ErrorType where "ErrorTypePublic = push_bit 1 1"
definition ErrorTypeAny :: ErrorType where "ErrorTypeAny = - 1"

record GErr =
  e_Err :: string
  e_Type :: ErrorType
  e_Meta :: goval

definition SetType :: "ErrorType \<Rightarrow> GErr \<Rightarrow> GErr" where
  "SetType flags msg = msg\<lparr>e_Type := flags\<rparr>"

definition SetMeta :: "goval \<Rightarrow> GErr \<Rightarrow> GErr" where
  "SetMeta data msg = msg\<lparr>e_Meta := data\<rparr>"

definition Error_text :: "GErr \<Rightarrow> string" where
  "Error_text msg = e_Err msg"

text \<open>An entry of a map of type \<open>H\<close>: the last value stored for a key counts.\<close>

fun put :: "string \<Rightarrow> goval \<Rightarrow> (string \<times> goval) list \<Rightarrow> (string \<times> goval) list" where
  "put k v [] = [(k, v)]"
| "put k v ((k', v') # m) = (if k = k' then (k, v) # m else (k', v') # put k v m)"

lemma map_of_put [simp]: "map_of (put k v m) = (map_of m)(k \<mapsto> v)"
  by (induction k v m rule: put.induct) auto

definition Error_JSON :: "GErr \<Rightarrow> goval" where
  "Error_JSON msg =
     (let finish = (\<lambda>json. GMap (if map_of json ''error'' = None
                                 then put ''error'' (GStr (Error_text msg)) json else json))
      in case e_Meta msg of
           GNil \<Rightarrow> finish []
         | GStruct fs \<Rightarrow> GStruct fs
         | GMap m \<Rightarrow> finish (foldl (\<lambda>json (k, v). put k v json) [] m)
         | other \<Rightarrow> finish (put ''meta'' other []))"

definition IsType :: "ErrorType \<Rightarrow> GErr \<Rightarrow> bool" where
  "IsType flags msg \<longleftrightarrow> 0 < (e_Type msg AND flags)"

section \<open>Lists of errors\<close>

type_synonym errorMsgs = "GErr list"

definition ByType :: "ErrorType \<Rightarrow> errorMsgs \<Rightarrow> errorMsgs" where
  "ByType typ a =
     (if length a = 0 then [] else if typ = ErrorTypeAny then a else filter (IsType typ) a)"

definition Errors_Last :: "errorMsgs \<Rightarrow> GErr option" where
  "Errors_Last a = (if 0 < length a then Some (a ! (length a - 1)) else None)"

definition Errors_Errors :: "errorMsgs \<Rightarrow> string list" where
  "Errors_Errors a = (if length a = 0 then [] else map Error_text a)"

definition Errors_JSON :: "errorMsgs \<Rightarrow> goval" where
  "Errors_JSON a =
     (case a of [] \<Rightarrow> GNil
      | [_] \<Rightarrow> (case Errors_Last a of Some e \<Rightarrow> Error_JSON e | None \<Rightarrow> GNil)
      | _ \<Rightarrow> GList (map Error_JSON a))"

text \<open>The verbs \<open>%02d\<close> and \<open>%v\<close> of package \<open>fmt\<close>; the printing of a value is a parameter.\<close>

definition dec2 :: "nat \<Rightarrow> string" where
  "dec2 n = (if n < 10 then CHR ''0'' # nat_dec n else nat_dec n)"

fun errors_lines :: "(goval \<Rightarrow> string) \<Rightarrow> nat \<Rightarrow> errorMsgs \<Rightarrow> string" where
  "errors_lines fmt i [] = []"
| "errors_lines fmt i (msg # a) =
     ''Error #'' @ dec2 (i + 1) @ '': '' @ e_Err msg @ [CHR 0x0A] @
     (if e_Meta msg \<noteq> GNil then ''     Meta: '' @ fmt (e_Meta msg) @ [CHR 0x0A] else []) @
     errors_lines fmt (i + 1) a"

definition Errors_String :: "(goval \<Rightarrow> string) \<Rightarrow> errorMsgs \<Rightarrow> string" where
  "Errors_String fmt a = (if length a = 0 then [] else errors_lines fmt 0 a)"

section \<open>Lemmas and properties\<close>

lemma map_of_foldl_put:
  "map_of (foldl (\<lambda>json (k, v). put k v json) json m) k =
     (case map_of (rev m) k of Some v \<Rightarrow> Some v | None \<Rightarrow> map_of json k)"
proof (induction m arbitrary: json)
  case (Cons x m)
  obtain a b where "x = (a, b)" by fastforce
  with Cons show ?case by (auto simp: map_add_def split: option.splits)
qed simp

text \<open>
  The JSON form of an error never loses its text: unless the meta data is a struct (which
  replaces the whole object) or brings an \<open>error\<close> of its own, the object has the text under
  \<open>error\<close>, and every entry of a meta map is kept.
\<close>

theorem error_json:
  assumes "\<forall>fs. e_Meta msg \<noteq> GStruct fs"
  shows "\<exists>json. Error_JSON msg = GMap json \<and>
    (case e_Meta msg of
       GMap m \<Rightarrow> map_of json = (map_of [(''error'', GStr (e_Err msg))]) ++ map_of (rev m)
     | GNil \<Rightarrow> map_of json = [''error'' \<mapsto> GStr (e_Err msg)]
     | v \<Rightarrow> map_of json = [''error'' \<mapsto> GStr (e_Err msg), ''meta'' \<mapsto> v])"
proof (cases "e_Meta msg")
  case (GMap m)
  define json where "json = foldl (\<lambda>json (k, v). put k v json) [] m"
  have j: "map_of json = map_of (rev m)"
    unfolding json_def by (rule ext) (simp add: map_of_foldl_put split: option.splits)
  have J: "Error_JSON msg = GMap (if map_of json ''error'' = None
      then put ''error'' (GStr (e_Err msg)) json else json)"
    by (simp add: Error_JSON_def GMap json_def [symmetric] Error_text_def Let_def)
  have "map_of (if map_of json ''error'' = None then put ''error'' (GStr (e_Err msg)) json else json) =
      (map_of [(''error'', GStr (e_Err msg))]) ++ map_of (rev m)"
    by (rule ext) (auto simp: j map_add_def split: option.splits)
  with J GMap show ?thesis by auto
qed (use assms in \<open>auto simp: Error_JSON_def Error_text_def fun_upd_twist\<close>)

theorem error_json_witness:
  "\<exists>json. Error_JSON \<lparr>e_Err = ''x'', e_Type = 1, e_Meta = GMap [(''a'', GInt 1)]\<rparr> = GMap json \<and>
     map_of json ''error'' = Some (GStr ''x'') \<and> map_of json ''a'' = Some (GInt 1)"
  using error_json [of "\<lparr>e_Err = ''x'', e_Type = 1, e_Meta = GMap [(''a'', GInt 1)]\<rparr>"] by auto

text \<open>
  Asking for two types at once gives the errors that either gives (an error whose type has no bit
  set is only in the list of all types).
\<close>

lemma errors_by_types:
  "{e \<in> set (ByType (t1 OR t2) a). e_Type e \<noteq> 0} =
   {e \<in> set (ByType t1 a). e_Type e \<noteq> 0} \<union> {e \<in> set (ByType t2 a). e_Type e \<noteq> 0}"
proof -
  have any: "IsType ErrorTypeAny e" if "e_Type e \<noteq> 0" for e
    using that by (simp add: IsType_def ErrorTypeAny_def word_neq_0_conv)
  have or: "IsType (t1 OR t2) e \<longleftrightarrow> IsType t1 e \<or> IsType t2 e" for e
    by (auto simp: IsType_def bit.conj_disj_distrib word_neq_0_conv [symmetric] or_eq_0_iff)
  have "{e \<in> set (ByType t a). e_Type e \<noteq> 0} = {e \<in> set a. e_Type e \<noteq> 0 \<and> IsType t e}" for t
    using any by (auto simp: ByType_def)
  then show ?thesis by (auto simp: or)
qed

end
