(* ===== verification/GinUtils.thy ===== *)
theory GinUtils
  imports GinErrors
begin

text \<open>
  The helper functions of gin's \<open>utils.go\<close>: header values, content negotiation data, the paths of
  groups and the XML form of a map.
\<close>

section \<open>Header values\<close>

definition filterFlags :: "string \<Rightarrow> string" where
  "filterFlags content = takeWhile (\<lambda>c. c \<noteq> CHR '' '' \<and> c \<noteq> CHR '';'') content"

definition chooseData :: "goval \<Rightarrow> goval \<Rightarrow> goval go" where
  "chooseData custom wildcard =
     (if custom = GNil then
        (if wildcard = GNil then Inl ''negotiation config is invalid'' else Inr wildcard)
      else Inr custom)"

fun accept_parts :: "string list \<Rightarrow> string list" where
  "accept_parts [] = []"
| "accept_parts (part # parts) =
     (let part = (case find_index (CHR '';'') part of Some i \<Rightarrow> take i part | None \<Rightarrow> part);
          part = TrimSpace part
      in if 0 < length part then part # accept_parts parts else accept_parts parts)"

definition parseAccept :: "string \<Rightarrow> string list" where
  "parseAccept acceptHeader = accept_parts (split_on (CHR '','') acceptHeader)"

section \<open>Paths\<close>

definition lastChar :: "string \<Rightarrow> char go" where
  "lastChar str =
     (if length str = 0 then Inl (''The length of the string can'' @ [CHR 0x27] @ ''t be 0'')
      else Inr (str ! (length str - 1)))"

definition joinPaths :: "string \<Rightarrow> string \<Rightarrow> string go" where
  "joinPaths absolutePath relativePath =
     (if length relativePath = 0 then Inr absolutePath
      else
        let finalPath = path_Join [absolutePath, relativePath]
        in bindG (lastChar relativePath) (\<lambda>a.
           bindG (if a = CHR ''/'' then mapG (\<lambda>b. b \<noteq> CHR ''/'') (lastChar finalPath) else Inr False)
             (\<lambda>appendSlash. Inr (if appendSlash then finalPath @ ''/'' else finalPath))))"

section \<open>XML\<close>

text \<open>
  The tokens that \<open>H.MarshalXML\<close> hands to the encoder, which is a parameter with its own state
  and may fail. The order of the entries of a map is the order of the list.
\<close>

datatype xml_token = XStart string | XElement string goval | XEnd string

type_synonym 's xml_encoder = "xml_token \<Rightarrow> 's \<Rightarrow> string + 's"

fun encode_entries :: "'s xml_encoder \<Rightarrow> (string \<times> goval) list \<Rightarrow> 's \<Rightarrow> string + 's" where
  "encode_entries enc [] s = Inr s"
| "encode_entries enc ((key, v) # h) s =
     (case enc (XElement key v) s of Inl err \<Rightarrow> Inl err | Inr s \<Rightarrow> encode_entries enc h s)"

definition MarshalXML :: "'s xml_encoder \<Rightarrow> (string \<times> goval) list \<Rightarrow> 's \<Rightarrow> string + 's" where
  "MarshalXML enc h s =
     (case enc (XStart ''map'') s of
        Inl err \<Rightarrow> Inl err
      | Inr s \<Rightarrow>
          (case encode_entries enc h s of
             Inl err \<Rightarrow> Inl err
           | Inr s \<Rightarrow> (case enc (XEnd ''map'') s of Inl err \<Rightarrow> Inl err | Inr s \<Rightarrow> Inr s)))"

section \<open>Lemmas and properties\<close>

lemma path_Clean_not_Nil [simp]: "path_Clean p \<noteq> []"
  by (simp add: path_Clean_def Let_def)

lemma path_Clean_rooted: "p \<noteq> [] \<Longrightarrow> hd p = CHR ''/'' \<Longrightarrow> hd (path_Clean p) = CHR ''/''"
  by (simp add: path_Clean_def Let_def)

lemma path_Join_rooted:
  "a \<noteq> [] \<Longrightarrow> hd a = CHR ''/'' \<Longrightarrow> path_Join (a # es) \<noteq> [] \<and> hd (path_Join (a # es)) = CHR ''/''"
proof -
  assume a: "a \<noteq> []" "hd a = CHR ''/''"
  then have "join_with (CHR ''/'') (a # es) \<noteq> [] \<and> hd (join_with (CHR ''/'') (a # es)) = CHR ''/''"
    by (cases es) simp_all
  with a show ?thesis by (simp add: path_Join_def path_Clean_rooted)
qed

lemma lastChar_ok: "s \<noteq> [] \<Longrightarrow> lastChar s = Inr (last s)"
  by (simp add: lastChar_def last_conv_nth)

lemma joinPaths_rooted:
  assumes "a \<noteq> []" "hd a = CHR ''/''"
  obtains p where "joinPaths a r = Inr p" "p \<noteq> []" "hd p = CHR ''/''"
    "r \<noteq> [] \<Longrightarrow> last r = CHR ''/'' \<Longrightarrow> last p = CHR ''/''"
proof (cases "r = []")
  case True
  with assms that [of a] show thesis by (simp add: joinPaths_def)
next
  case False
  let ?f = "path_Join [a, r]"
  have f: "?f \<noteq> []" "hd ?f = CHR ''/''" using path_Join_rooted [OF assms] by blast+
  let ?p = "if last r = CHR ''/'' \<and> last ?f \<noteq> CHR ''/'' then ?f @ ''/'' else ?f"
  have "joinPaths a r = Inr ?p" using False f by (auto simp: joinPaths_def lastChar_ok Let_def)
  with f that [of ?p] show thesis by auto
qed

text \<open>
  The path of a route in a group whose base path is rooted is computed without a panic, is
  rooted, and keeps the trailing slash of the relative path.
\<close>

theorem joinPaths_ok:
  assumes "a \<noteq> []" "hd a = CHR ''/''"
  shows "\<exists>p. joinPaths a r = Inr p \<and> p \<noteq> [] \<and> hd p = CHR ''/'' \<and>
    (r \<noteq> [] \<and> last r = CHR ''/'' \<longrightarrow> last p = CHR ''/'')"
  using joinPaths_rooted [OF assms, of r] by metis

theorem joinPaths_ok_witness:
  "\<exists>p. joinPaths ''/v1'' ''../x/'' = Inr p \<and> last p = CHR ''/''"
  using joinPaths_ok [of "''/v1''" "''../x/''"] by auto

lemma accept_parts_nonempty:
  "x \<in> set (accept_parts ps) \<Longrightarrow> x \<noteq> [] \<and> \<not> is_space (hd x) \<and> \<not> is_space (last x)"
  by (induction ps) (auto simp: Let_def TrimSpace_ends split: if_splits)

text \<open>Every accepted format is a trimmed non-empty string.\<close>

lemma parseAccept_trimmed:
  "x \<in> set (parseAccept h) \<Longrightarrow> x \<noteq> [] \<and> \<not> is_space (hd x) \<and> \<not> is_space (last x)"
  unfolding parseAccept_def by (rule accept_parts_nonempty)

text \<open>A map of \<open>n\<close> entries gives \<open>n + 2\<close> tokens when the encoder does not fail.\<close>

lemma MarshalXML_tokens:
  "MarshalXML (\<lambda>t s. Inr (s @ [t])) h s =
     Inr (s @ XStart ''map'' # map (\<lambda>(k, v). XElement k v) h @ [XEnd ''map''])"
proof -
  have "encode_entries (\<lambda>t s. Inr (s @ [t])) h s = Inr (s @ map (\<lambda>(k, v). XElement k v) h)" for s
    by (induction h arbitrary: s) auto
  then show ?thesis by (simp add: MarshalXML_def)
qed

end
