(* ===== verification/Response.thy ===== *)
theory Response
  imports GoStrings
begin

text \<open>
  The response of a request: what the code uses of \<open>net/http\<close>'s \<open>ResponseWriter\<close> (record \<open>conn\<close>)
  and gin's wrapper around it (\<open>response_writer.go\<close>), which delays the status line until the
  first byte of the body and counts the bytes.
\<close>

section \<open>\<open>http.ResponseWriter\<close>\<close>

type_synonym header = "string \<rightharpoonup> string list"

text \<open>
  \<open>sent\<close> is the status line and the headers once they are on the wire; changes of the header map
  after that have no effect. The first \<open>WriteHeader\<close> wins, and \<open>Write\<close> sends a status 200 when
  there was none. A body is not allowed with the statuses 1xx, 204 and 304: \<open>Write\<close> then returns
  an error (\<open>False\<close>) and writes nothing.
\<close>

record conn =
  k_header :: header
  k_sent :: "(int \<times> header) option"
  k_body :: string

definition body_allowed :: "int \<Rightarrow> bool" where
  "body_allowed code \<longleftrightarrow> \<not> (100 \<le> code \<and> code \<le> 199) \<and> code \<noteq> 204 \<and> code \<noteq> 304"

definition conn_WriteHeader :: "int \<Rightarrow> conn \<Rightarrow> conn" where
  "conn_WriteHeader code k =
     (case k_sent k of None \<Rightarrow> k\<lparr>k_sent := Some (code, k_header k)\<rparr> | Some _ \<Rightarrow> k)"

definition conn_Write :: "string \<Rightarrow> conn \<Rightarrow> (int \<times> bool) \<times> conn" where
  "conn_Write data k =
     (let k = conn_WriteHeader 200 k
      in case k_sent k of
           Some (code, _) \<Rightarrow>
             if body_allowed code then ((int (length data), True), k\<lparr>k_body := k_body k @ data\<rparr>)
             else ((0, False), k)
         | None \<Rightarrow> ((0, False), k))"

definition fresh_conn :: "conn" where
  "fresh_conn = \<lparr>k_header = (\<lambda>_. None), k_sent = None, k_body = []\<rparr>"

definition Header_Set :: "string \<Rightarrow> string \<Rightarrow> header \<Rightarrow> header" where
  "Header_Set key v h = h(key \<mapsto> [v])"

definition Header_Del :: "string \<Rightarrow> header \<Rightarrow> header" where
  "Header_Del key h = h(key := None)"

section \<open>gin's writer\<close>

record responseWriter =
  w_conn :: conn
  w_size :: int
  w_status :: int

definition noWritten :: int where "noWritten = -1"
definition defaultStatus :: int where "defaultStatus = 200"

definition rw_reset :: "conn \<Rightarrow> responseWriter" where
  "rw_reset k = \<lparr>w_conn = k, w_size = noWritten, w_status = defaultStatus\<rparr>"

definition Written :: "responseWriter \<Rightarrow> bool" where
  "Written w \<longleftrightarrow> w_size w \<noteq> noWritten"

definition Status :: "responseWriter \<Rightarrow> int" where
  "Status w = w_status w"

definition Size :: "responseWriter \<Rightarrow> int" where
  "Size w = w_size w"

text \<open>The warning about a status that is already sent only goes to the debug output.\<close>

definition WriteHeader :: "int \<Rightarrow> responseWriter \<Rightarrow> responseWriter" where
  "WriteHeader code w = (if 0 < code \<and> w_status w \<noteq> code then w\<lparr>w_status := code\<rparr> else w)"

definition WriteHeaderNow :: "responseWriter \<Rightarrow> responseWriter" where
  "WriteHeaderNow w =
     (if \<not> Written w
      then w\<lparr>w_size := 0, w_conn := conn_WriteHeader (w_status w) (w_conn w)\<rparr>
      else w)"

definition Write :: "string \<Rightarrow> responseWriter \<Rightarrow> (int \<times> bool) \<times> responseWriter" where
  "Write data w =
     (let w = WriteHeaderNow w;
          (r, k) = conn_Write data (w_conn w)
      in (r, w\<lparr>w_conn := k, w_size := w_size w + fst r\<rparr>))"

text \<open>\<open>io.WriteString\<close> writes the bytes of the string.\<close>

definition WriteString :: "string \<Rightarrow> responseWriter \<Rightarrow> (int \<times> bool) \<times> responseWriter" where
  "WriteString s w =
     (let w = WriteHeaderNow w;
          (r, k) = conn_Write s (w_conn w)
      in (r, w\<lparr>w_conn := k, w_size := w_size w + fst r\<rparr>))"

definition Hijack :: "responseWriter \<Rightarrow> responseWriter" where
  "Hijack w = (if w_size w < 0 then w\<lparr>w_size := 0\<rparr> else w)"

text \<open>
  \<open>Flush\<close> goes straight to the underlying writer, which sends a status 200 when none was sent.
\<close>

definition Flush :: "responseWriter \<Rightarrow> responseWriter" where
  "Flush w = w\<lparr>w_conn := conn_WriteHeader 200 (w_conn w)\<rparr>"

definition set_header :: "string \<Rightarrow> string \<Rightarrow> responseWriter \<Rightarrow> responseWriter" where
  "set_header key v w = w\<lparr>w_conn := (w_conn w)\<lparr>k_header := Header_Set key v (k_header (w_conn w))\<rparr>\<rparr>"

definition del_header :: "string \<Rightarrow> responseWriter \<Rightarrow> responseWriter" where
  "del_header key w = w\<lparr>w_conn := (w_conn w)\<lparr>k_header := Header_Del key (k_header (w_conn w))\<rparr>\<rparr>"

section \<open>Operations and their invariant\<close>

text \<open>What a handler can do to the writer.\<close>

datatype rw_op =
    DoHeader int
  | DoHeaderNow
  | DoWrite string
  | DoWriteString string
  | DoSet string string
  | DoDel string

fun rw_step :: "rw_op \<Rightarrow> responseWriter \<Rightarrow> responseWriter" where
  "rw_step (DoHeader code) w = WriteHeader code w"
| "rw_step DoHeaderNow w = WriteHeaderNow w"
| "rw_step (DoWrite d) w = snd (Write d w)"
| "rw_step (DoWriteString d) w = snd (WriteString d w)"
| "rw_step (DoSet k v) w = set_header k v w"
| "rw_step (DoDel k) w = del_header k w"

definition rw_run :: "rw_op list \<Rightarrow> responseWriter \<Rightarrow> responseWriter" where
  "rw_run ops w = foldl (\<lambda>w op. rw_step op w) w ops"

text \<open>
  Nothing is on the wire before the writer says so; after that the size is the length of the body.
\<close>

definition rw_ok :: "responseWriter \<Rightarrow> bool" where
  "rw_ok w \<longleftrightarrow>
     (if Written w
      then k_sent (w_conn w) \<noteq> None \<and> w_size w = int (length (k_body (w_conn w)))
      else k_sent (w_conn w) = None \<and> k_body (w_conn w) = []) \<and> 0 < w_status w"

lemmas rw_defs = WriteHeader_def WriteHeaderNow_def Write_def WriteString_def set_header_def del_header_def
  conn_WriteHeader_def conn_Write_def Written_def noWritten_def

lemma WriteString_Write: "WriteString s w = Write s w"
  by (simp add: WriteString_def Write_def)

lemma Written_WriteHeaderNow [simp]: "Written (WriteHeaderNow w)"
  by (simp add: rw_defs)

lemma rw_ok_HeaderNow: "rw_ok w \<Longrightarrow> rw_ok (WriteHeaderNow w)"
  by (auto simp: rw_ok_def rw_defs split: option.splits)

lemma Write_written:
  assumes "rw_ok w" "Written w"
  shows "rw_ok (snd (Write d w))" "Written (snd (Write d w))"
    "k_sent (w_conn (snd (Write d w))) = k_sent (w_conn w)"
  using assms by (auto simp: rw_ok_def rw_defs Let_def split: option.splits prod.splits)

lemma Write_HeaderNow: "Write d (WriteHeaderNow w) = Write d w"
  by (simp add: Write_def WriteHeaderNow_def Written_def noWritten_def)

lemma rw_ok_step: "rw_ok w \<Longrightarrow> rw_ok (rw_step op w)"
proof (cases op)
  case (DoWrite d)
  assume "rw_ok w"
  then show ?thesis
    using Write_written [OF rw_ok_HeaderNow Written_WriteHeaderNow, of w d] DoWrite by (simp add: Write_HeaderNow)
next
  case (DoWriteString d)
  assume "rw_ok w"
  then show ?thesis
    using Write_written [OF rw_ok_HeaderNow Written_WriteHeaderNow, of w d] DoWriteString
    by (simp add: Write_HeaderNow WriteString_Write)
qed (auto simp: rw_ok_HeaderNow, auto simp: rw_ok_def rw_defs)

lemma rw_ok_reset: "rw_ok (rw_reset fresh_conn)"
  by (simp add: rw_ok_def rw_reset_def fresh_conn_def Written_def defaultStatus_def)

lemma rw_ok_run: "rw_ok w \<Longrightarrow> rw_ok (rw_run ops w)"
  unfolding rw_run_def by (induction ops arbitrary: w) (simp_all add: rw_ok_step)

lemma sent_fixed_step:
  assumes "rw_ok w" "k_sent (w_conn w) = Some s"
  shows "k_sent (w_conn (rw_step op w)) = Some s"
proof -
  have "Written w" using assms by (auto simp: rw_ok_def split: if_splits)
  with assms show ?thesis
    using Write_written(3) [of w] by (cases op) (auto simp: WriteString_Write, auto simp: rw_defs)
qed

lemma sent_fixed: "rw_ok w \<Longrightarrow> k_sent (w_conn w) = Some s \<Longrightarrow> k_sent (w_conn (rw_run ops w)) = Some s"
  unfolding rw_run_def by (induction ops arbitrary: w) (simp_all add: rw_ok_step sent_fixed_step)

lemma body_grows_step:
  "rw_ok w \<Longrightarrow> prefix (k_body (w_conn w)) (k_body (w_conn (rw_step op w)))"
  by (cases op) (auto simp: rw_defs Let_def split: option.splits prod.splits)

lemma HeaderNow_sent:
  assumes "rw_ok w"
  obtains c h where "k_sent (w_conn (WriteHeaderNow w)) = Some (c, h)"
    "k_body (w_conn (WriteHeaderNow w)) = k_body (w_conn w)"
  using assms by (cases "k_sent (w_conn w)") (auto simp: rw_ok_def rw_defs split: if_splits)

lemma Write_body:
  assumes "rw_ok w" "\<And>s. k_sent (w_conn (snd (Write d w))) = Some s \<Longrightarrow> body_allowed (fst s)"
  shows "k_body (w_conn (snd (Write d w))) = k_body (w_conn w) @ d"
proof -
  obtain c h where c: "k_sent (w_conn (WriteHeaderNow w)) = Some (c, h)"
    "k_body (w_conn (WriteHeaderNow w)) = k_body (w_conn w)" using HeaderNow_sent [OF assms(1)] .
  then have "k_sent (w_conn (snd (Write d w))) = Some (c, h)"
    by (simp add: Write_def conn_Write_def conn_WriteHeader_def Let_def)
  with assms(2) c show ?thesis
    by (simp add: Write_def conn_Write_def conn_WriteHeader_def Let_def)
qed

lemma WriteHeader_conn [simp]: "w_conn (WriteHeader code w) = w_conn w"
  by (simp add: WriteHeader_def)

text \<open>The sequence of bodies written by successful writes.\<close>

fun op_data :: "rw_op \<Rightarrow> string" where
  "op_data (DoWrite d) = d"
| "op_data (DoWriteString d) = d"
| "op_data _ = []"

lemma rw_run_body:
  assumes "rw_ok w" "\<And>s. k_sent (w_conn (rw_run ops w)) = Some s \<Longrightarrow> body_allowed (fst s)"
  shows "k_body (w_conn (rw_run ops w)) = k_body (w_conn w) @ concat (map op_data ops)"
  using assms
proof (induction ops arbitrary: w)
  case (Cons op ops)
  have ok: "rw_ok (rw_step op w)" by (rule rw_ok_step [OF Cons.prems(1)])
  have run: "rw_run (op # ops) w = rw_run ops (rw_step op w)" by (simp add: rw_run_def)
  have "body_allowed (fst s)" if "k_sent (w_conn (rw_step op w)) = Some s" for s
    using Cons.prems(2) sent_fixed [OF ok that] run by metis
  then have "k_body (w_conn (rw_step op w)) = k_body (w_conn w) @ op_data op"
    using Write_body [OF Cons.prems(1)] HeaderNow_sent [OF Cons.prems(1)]
    by (cases op) (auto simp: WriteString_Write set_header_def del_header_def)
  with Cons.IH [OF ok] Cons.prems(2) show ?case by (simp add: run)
qed (simp add: rw_run_def)

section \<open>The properties of the writer\<close>

text \<open>
  C10: whatever headers, statuses and data a handler gives to the writer (short of \<open>Flush\<close> and
  \<open>Hijack\<close>), \<open>Written()\<close> tells exactly whether a status line is on the wire, and \<open>Size()\<close> is the
  number of bytes of the body.
\<close>

theorem writer_size:
  "let w = rw_run ops (rw_reset fresh_conn)
   in (Written w \<longleftrightarrow> k_sent (w_conn w) \<noteq> None) \<and>
      Size w = (if Written w then int (length (k_body (w_conn w))) else -1)"
  using rw_ok_run [OF rw_ok_reset, of ops]
  by (auto simp: Let_def rw_ok_def Size_def Written_def noWritten_def split: if_splits)



text \<open>
  After the status line is sent, \<open>WriteHeader\<close> still changes what \<open>Status()\<close> reports: the logger then
  prints a status that the client did not get.
\<close>

lemma status_reported_wrong:
  "let w = rw_run [DoWrite ''x'', DoHeader 500] (rw_reset fresh_conn)
   in Status w = 500 \<and> map_option fst (k_sent (w_conn w)) = Some 200"
  by (simp add: rw_run_def rw_defs rw_reset_def fresh_conn_def defaultStatus_def body_allowed_def Status_def)

text \<open>A \<open>Flush\<close> before the first write sends the status 200 instead of the one that was set.\<close>

lemma flush_loses_status:
  "let w = rw_step DoHeaderNow (Flush (rw_run [DoHeader 404] (rw_reset fresh_conn)))
   in Status w = 404 \<and> map_option fst (k_sent (w_conn w)) = Some 200"
  by (simp add: rw_run_def rw_defs rw_reset_def fresh_conn_def defaultStatus_def Status_def Flush_def)

end
