(* ===== verification/Render.thy ===== *)
theory Render
  imports GinErrors Response
begin

text \<open>
  The renderers of gin (package \<open>render\<close>) and the encoder of server-sent events (package \<open>sse\<close>).
  What the Go library does with values (JSON, XML, templates, \<open>fmt\<close>, the URL of a redirect) is the
  record \<open>env\<close> of functions: the text they produce, or their error.
\<close>

section \<open>The functions of the library\<close>

record request =
  q_Method :: string
  q_Path :: string
  q_RequestURI :: string
  q_RemoteAddr :: string
  q_Header :: header
  q_Query :: header
  q_PostForm :: header
  q_Multipart :: "header option"

text \<open>
  Encoders that write as they go give the chunks they write and their error, if any. A parsed
  template is named by where it came from.
\<close>

datatype tmpl_source = FromGlob string | FromFiles "string list"

record env =
  v_json :: "goval \<Rightarrow> string + string"
  v_json_indent :: "goval \<Rightarrow> string + string"
  v_xml :: "goval \<Rightarrow> string list \<times> string option"
  v_sprintf :: "string \<Rightarrow> goval list \<Rightarrow> string"
  v_sprint :: "goval \<Rightarrow> string"
  v_parse :: "tmpl_source \<Rightarrow> bool"
  v_execute :: "tmpl_source \<Rightarrow> string \<Rightarrow> goval \<Rightarrow> string list \<times> string option"
  v_redirect_url :: "request \<Rightarrow> string \<Rightarrow> string"
  v_redirect_note :: "string \<Rightarrow> int \<Rightarrow> string"

definition not_allowed :: string where
  "not_allowed = ''http: request method or response status code does not allow body''"

text \<open>Chunks are written until a write fails.\<close>

fun write_chunks :: "string list \<Rightarrow> string option \<Rightarrow> responseWriter \<Rightarrow> string option \<times> responseWriter" where
  "write_chunks [] err w = (err, w)"
| "write_chunks (c # cs) err w =
     (case Write c w of ((_, ok), w) \<Rightarrow> if ok then write_chunks cs err w else (Some not_allowed, w))"

section \<open>\<open>http.Redirect\<close>\<close>

definition http_Redirect :: "env \<Rightarrow> request \<Rightarrow> string \<Rightarrow> int \<Rightarrow> responseWriter \<Rightarrow> responseWriter" where
  "http_Redirect env req url code w =
     (let loc = v_redirect_url env req url;
          w = WriteHeader code (set_header ''Location'' loc w)
      in if q_Method req = ''GET'' then snd (Write (v_redirect_note env loc code) w) else w)"

section \<open>Server-sent events\<close>

record sse_event =
  s_Event :: string
  s_Id :: string
  s_Retry :: nat
  s_Data :: goval

abbreviation LF :: char where "LF \<equiv> CHR 0x0A"
abbreviation CR :: char where "CR \<equiv> CHR 0x0D"

fun escape_lines :: "string \<Rightarrow> string" where
  "escape_lines [] = []"
| "escape_lines (c # s) =
     (if c = LF then CHR 0x5C # CHR ''n'' # escape_lines s
      else if c = CR then CHR 0x5C # CHR ''r'' # escape_lines s
      else c # escape_lines s)"

definition writeEscape :: "string \<Rightarrow> responseWriter \<Rightarrow> responseWriter" where
  "writeEscape str w = snd (WriteString (escape_lines str) w)"

definition put_str :: "string \<Rightarrow> responseWriter \<Rightarrow> responseWriter" where
  "put_str s w = snd (WriteString s w)"

definition writeId :: "string \<Rightarrow> responseWriter \<Rightarrow> responseWriter" where
  "writeId i w = (if 0 < length i then put_str [LF] (writeEscape i (put_str ''id: '' w)) else w)"

definition writeEvent :: "string \<Rightarrow> responseWriter \<Rightarrow> responseWriter" where
  "writeEvent e w = (if 0 < length e then put_str [LF] (writeEscape e (put_str ''event: '' w)) else w)"

definition writeRetry :: "nat \<Rightarrow> responseWriter \<Rightarrow> responseWriter" where
  "writeRetry r w = (if 0 < r then put_str [LF] (put_str (nat_dec r) (put_str ''retry: '' w)) else w)"

text \<open>\<open>kindOfData\<close>: whether the value is a struct, a slice or a map.\<close>

fun composite :: "goval \<Rightarrow> bool" where
  "composite (GStruct _) = True"
| "composite (GMap _) = True"
| "composite (GList _) = True"
| "composite _ = False"

definition writeJSON :: "env \<Rightarrow> goval \<Rightarrow> responseWriter \<Rightarrow> string option \<times> responseWriter" where
  "writeJSON env v w =
     (case v_json env v of Inl e \<Rightarrow> (Some e, w) | Inr s \<Rightarrow> write_chunks [s @ [LF]] None w)"

definition writeData :: "env \<Rightarrow> goval \<Rightarrow> responseWriter \<Rightarrow> string option \<times> responseWriter" where
  "writeData env data w =
     (let w = put_str ''data: '' w
      in if composite data then
           (case writeJSON env data w of
              (Some e, w) \<Rightarrow> (Some e, w)
            | (None, w) \<Rightarrow> (None, put_str [LF] w))
         else (None, put_str [LF, LF] (writeEscape (v_sprint env data) w)))"

definition sse_Encode :: "env \<Rightarrow> sse_event \<Rightarrow> responseWriter \<Rightarrow> string option \<times> responseWriter" where
  "sse_Encode env ev w =
     writeData env (s_Data ev) (writeRetry (s_Retry ev) (writeEvent (s_Event ev) (writeId (s_Id ev) w)))"

definition header_of :: "responseWriter \<Rightarrow> header" where
  "header_of w = k_header (w_conn w)"

definition sse_Render :: "env \<Rightarrow> sse_event \<Rightarrow> responseWriter \<Rightarrow> string option \<times> responseWriter" where
  "sse_Render env ev w =
     (let w = set_header ''Content-Type'' ''text/event-stream'' w;
          w = (if header_of w ''Cache-Control'' = None then set_header ''Cache-Control'' ''no-cache'' w else w)
      in sse_Encode env ev w)"

section \<open>gin's renderers\<close>

definition writeContentType :: "string \<Rightarrow> responseWriter \<Rightarrow> responseWriter" where
  "writeContentType value w =
     (case header_of w ''Content-Type'' of
        Some (v # vs) \<Rightarrow> w
      | _ \<Rightarrow> set_header ''Content-Type'' value w)"

datatype html_render = HTMLProduction tmpl_source | HTMLDebug "string list" string

datatype render =
    RData string string
  | RJSON goval
  | RIndentedJSON goval
  | RXML goval
  | RString string "goval list"
  | RRedirect int request string
  | RHTML tmpl_source string goval
  | RSSE sse_event

text \<open>\<open>template.Must\<close> panics when the files do not parse.\<close>

definition must_parse :: "env \<Rightarrow> tmpl_source \<Rightarrow> tmpl_source go" where
  "must_parse env src = (if v_parse env src then Inr src else Inl ''template: parse error'')"

definition loadTemplate :: "env \<Rightarrow> string list \<Rightarrow> string \<Rightarrow> tmpl_source go" where
  "loadTemplate env files glob =
     (if 0 < length files then must_parse env (FromFiles files)
      else if 0 < length glob then must_parse env (FromGlob glob)
      else Inl ''the HTML debug render was created without files or glob pattern'')"

definition html_Instance :: "env \<Rightarrow> html_render \<Rightarrow> string \<Rightarrow> goval \<Rightarrow> render go" where
  "html_Instance env r name data =
     (case r of
        HTMLProduction src \<Rightarrow> Inr (RHTML src name data)
      | HTMLDebug files glob \<Rightarrow> mapG (\<lambda>src. RHTML src name data) (loadTemplate env files glob))"

definition WriteJSON :: "env \<Rightarrow> goval \<Rightarrow> responseWriter \<Rightarrow> string option \<times> responseWriter" where
  "WriteJSON env obj w = writeJSON env obj (writeContentType ''application/json; charset=utf-8'' w)"

definition render_WriteString :: "env \<Rightarrow> string \<Rightarrow> goval list \<Rightarrow> responseWriter \<Rightarrow> responseWriter" where
  "render_WriteString env format data w =
     (let w = writeContentType ''text/plain; charset=utf-8'' w
      in if 0 < length data then snd (Write (v_sprintf env format data) w)
         else snd (WriteString format w))"

definition Render_Data :: "string \<Rightarrow> string \<Rightarrow> responseWriter \<Rightarrow> string option \<times> responseWriter" where
  "Render_Data ctype data w =
     (let w = (if 0 < length ctype then set_header ''Content-Type'' ctype w else w)
      in (None, snd (Write data w)))"

definition Render_IndentedJSON :: "env \<Rightarrow> goval \<Rightarrow> responseWriter \<Rightarrow> string option \<times> responseWriter" where
  "Render_IndentedJSON env data w =
     (let w = writeContentType ''application/json; charset=utf-8'' w
      in case v_json_indent env data of
           Inl e \<Rightarrow> (Some e, w)
         | Inr s \<Rightarrow> (None, snd (Write s w)))"

definition Render_XML :: "env \<Rightarrow> goval \<Rightarrow> responseWriter \<Rightarrow> string option \<times> responseWriter" where
  "Render_XML env data w =
     (let w = writeContentType ''application/xml; charset=utf-8'' w;
          (chunks, err) = v_xml env data
      in write_chunks chunks err w)"

definition Render_Redirect :: "env \<Rightarrow> int \<Rightarrow> request \<Rightarrow> string \<Rightarrow> responseWriter \<Rightarrow>
    (string option \<times> responseWriter) go" where
  "Render_Redirect env code req loc w =
     (if code < 300 \<or> 308 < code
      then Inl (''Cannot redirect with status code '' @ int_dec code)
      else Inr (None, http_Redirect env req loc code w))"

definition Render_HTML :: "env \<Rightarrow> tmpl_source \<Rightarrow> string \<Rightarrow> goval \<Rightarrow> responseWriter \<Rightarrow>
    string option \<times> responseWriter" where
  "Render_HTML env src name data w =
     (let w = writeContentType ''text/html; charset=utf-8'' w;
          (chunks, err) = v_execute env src name data
      in write_chunks chunks err w)"

fun render_Render :: "env \<Rightarrow> render \<Rightarrow> responseWriter \<Rightarrow> (string option \<times> responseWriter) go" where
  "render_Render env (RData ctype data) w = Inr (Render_Data ctype data w)"
| "render_Render env (RJSON v) w = Inr (WriteJSON env v w)"
| "render_Render env (RIndentedJSON v) w = Inr (Render_IndentedJSON env v w)"
| "render_Render env (RXML v) w = Inr (Render_XML env v w)"
| "render_Render env (RString f vs) w = Inr (None, render_WriteString env f vs w)"
| "render_Render env (RRedirect code req loc) w = Render_Redirect env code req loc w"
| "render_Render env (RHTML src name data) w = Inr (Render_HTML env src name data w)"
| "render_Render env (RSSE ev) w = Inr (sse_Render env ev w)"

section \<open>Every renderer is a sequence of operations of the writer\<close>

text \<open>\<open>acts f\<close>: what \<open>f\<close> does to the writer is a run of its operations.\<close>

definition acts :: "responseWriter \<Rightarrow> responseWriter \<Rightarrow> bool" where
  "acts w w' \<longleftrightarrow> (\<exists>ops. w' = rw_run ops w)"

lemma acts_refl [intro, simp]: "acts w w"
  unfolding acts_def by (rule exI [of _ "[]"]) (simp add: rw_run_def)

lemma acts_trans: "acts w w' \<Longrightarrow> acts w' w'' \<Longrightarrow> acts w w''"
  unfolding acts_def rw_run_def by (metis foldl_append)

lemma acts_op: "acts w w' \<Longrightarrow> acts w (rw_step op w')"
  by (rule acts_trans [of w w']) (auto simp: acts_def rw_run_def intro: exI [of _ "[op]"])

lemmas acts_ops = acts_op [of _ _ "DoWrite _", simplified] acts_op [of _ _ "DoWriteString _", simplified]
  acts_op [of _ _ "DoSet _ _", simplified] acts_op [of _ _ "DoHeader _", simplified]
  acts_op [of _ _ "DoHeaderNow", simplified] acts_op [of _ _ "DoDel _", simplified]

lemma acts_chunks: "acts w0 w \<Longrightarrow> acts w0 (snd (write_chunks cs err w))"
proof (induction cs err w rule: write_chunks.induct)
  case (2 c cs err w)
  obtain n ok w' where "Write c w = ((n, ok), w')" by (metis prod.exhaust)
  with 2 acts_ops(1) [OF 2(2), of c] show ?case by simp
qed simp

lemma acts_ok: "acts w w' \<Longrightarrow> rw_ok w \<Longrightarrow> rw_ok w'"
  by (auto simp: acts_def rw_ok_run)

lemma acts_set_if: "acts w0 w \<Longrightarrow> acts w0 (if b then set_header k v w else w)"
  by (simp add: acts_ops)

lemma acts_contentType: "acts w0 w \<Longrightarrow> acts w0 (writeContentType v w)"
  by (simp add: writeContentType_def acts_ops split: option.split list.split)

lemma acts_put: "acts w0 w \<Longrightarrow> acts w0 (put_str s w)" "acts w0 w \<Longrightarrow> acts w0 (writeEscape s w)"
  by (simp_all add: put_str_def writeEscape_def acts_ops)

lemma acts_writeJSON: "acts w0 w \<Longrightarrow> acts w0 (snd (writeJSON env v w))"
  unfolding writeJSON_def by (auto split: sum.split intro: acts_chunks simp del: write_chunks.simps)

lemma acts_fields:
  "acts w0 w \<Longrightarrow> acts w0 (writeId i w)" "acts w0 w \<Longrightarrow> acts w0 (writeEvent i w)"
  "acts w0 w \<Longrightarrow> acts w0 (writeRetry r w)"
  by (simp_all add: writeId_def writeEvent_def writeRetry_def acts_put)

lemma acts_writeData: "acts w0 w \<Longrightarrow> acts w0 (snd (writeData env d w))"
proof -
  assume a: "acts w0 w"
  then have j: "acts w0 (snd (writeJSON env d (put_str ''data: '' w)))" by (intro acts_writeJSON acts_put)
  obtain e w' where e: "writeJSON env d (put_str ''data: '' w) = (e, w')" by fastforce
  with j a show ?thesis by (cases e) (simp_all add: writeData_def Let_def acts_put)
qed

lemma acts_sse: "acts w0 w \<Longrightarrow> acts w0 (snd (sse_Render env ev w))"
  unfolding sse_Render_def sse_Encode_def Let_def
  by (intro acts_writeData acts_fields acts_set_if acts_ops)

lemma acts_redirect: "acts w0 w \<Longrightarrow> acts w0 (http_Redirect env req url code w)"
  by (simp add: http_Redirect_def Let_def acts_ops)

lemma acts_render:
  assumes "render_Render env r w = Inr (e, w')"
  shows "acts w w'"
proof (cases r)
  case (RData ctype data)
  with assms acts_ops(1) [OF acts_set_if [OF acts_refl]] show ?thesis
    by (auto simp: Render_Data_def Let_def)
next
  case (RJSON v)
  with assms acts_writeJSON [OF acts_contentType [OF acts_refl]] show ?thesis
    by (simp add: WriteJSON_def) (metis snd_conv)
next
  case (RIndentedJSON v)
  with assms acts_contentType [OF acts_refl] acts_ops(1) [OF acts_contentType [OF acts_refl]] show ?thesis
    by (auto simp: Render_IndentedJSON_def Let_def split: sum.splits)
next
  case (RXML v)
  with assms acts_chunks [OF acts_contentType [OF acts_refl]] show ?thesis
    by (auto simp: Render_XML_def Let_def split: prod.splits) (metis snd_conv)
next
  case (RString f vs)
  with assms acts_ops(1,2) [OF acts_contentType [OF acts_refl]] show ?thesis
    by (auto simp: render_WriteString_def Let_def)
next
  case (RRedirect code req loc)
  with assms acts_redirect [OF acts_refl] show ?thesis by (auto simp: Render_Redirect_def split: if_splits)
next
  case (RHTML src name data)
  with assms acts_chunks [OF acts_contentType [OF acts_refl]] show ?thesis
    by (auto simp: Render_HTML_def Let_def split: prod.splits) (metis snd_conv)
next
  case (RSSE ev)
  with assms acts_sse [OF acts_refl, of w env ev] show ?thesis by simp
qed

section \<open>What is on the wire\<close>

text \<open>A writer whose status allows a body: every write goes through.\<close>

definition open_w :: "responseWriter \<Rightarrow> bool" where
  "open_w w \<longleftrightarrow> rw_ok w \<and>
     body_allowed (if Written w then fst (the (k_sent (w_conn w))) else w_status w)"

definition body :: "responseWriter \<Rightarrow> string" where
  "body w = k_body (w_conn w)"

lemma body_HeaderNow [simp]: "body (WriteHeaderNow w) = body w"
  by (simp add: body_def WriteHeaderNow_def conn_WriteHeader_def split: option.split)

lemma open_w_Write:
  assumes "open_w w"
  shows "Write s w = ((int (length s), True), snd (Write s w))" "open_w (snd (Write s w))"
    "body (snd (Write s w)) = body w @ s"
proof -
  define v where "v = WriteHeaderNow w"
  have ok: "rw_ok v" "Written v" using assms by (simp_all add: v_def open_w_def rw_ok_HeaderNow)
  have al: "body_allowed (fst (the (k_sent (w_conn v))))" "body v = body w"
    using assms by (auto simp: v_def open_w_def rw_ok_def rw_defs body_def split: option.splits if_splits)
  obtain c h where c: "k_sent (w_conn v) = Some (c, h)" using ok by (auto simp: rw_ok_def)
  have w: "Write s w = ((int (length s), True), v\<lparr>w_conn := (w_conn v)\<lparr>k_body := k_body (w_conn v) @ s\<rparr>,
      w_size := w_size v + int (length s)\<rparr>)"
    using al c by (simp add: Write_def v_def [symmetric] conn_Write_def conn_WriteHeader_def Let_def)
  then show "Write s w = ((int (length s), True), snd (Write s w))" by simp
  have "rw_ok (snd (Write s w))" using rw_ok_step [of w "DoWrite s"] assms by (simp add: open_w_def)
  moreover have "Written (snd (Write s w))" using Write_written(2) [OF ok, of s] by (simp add: v_def Write_HeaderNow)
  ultimately show "open_w (snd (Write s w))" using w al c by (simp add: open_w_def)
  show "body (snd (Write s w)) = body w @ s" using w al by (simp add: body_def)
qed

lemma open_w_put:
  assumes "open_w w"
  shows "open_w (put_str s w)" "body (put_str s w) = body w @ s"
    "open_w (writeEscape s w)" "body (writeEscape s w) = body w @ escape_lines s"
  using open_w_Write [OF assms] by (simp_all add: put_str_def writeEscape_def WriteString_Write)

lemma escape_lines_clean: "LF \<notin> set (escape_lines s)" "CR \<notin> set (escape_lines s)"
  by (induction s) auto

definition field :: "string \<Rightarrow> string \<Rightarrow> string list" where
  "field name v = (if v = [] then [] else [name @ '': '' @ escape_lines v])"

definition event_lines :: "env \<Rightarrow> sse_event \<Rightarrow> string list" where
  "event_lines env ev =
     field ''id'' (s_Id ev) @ field ''event'' (s_Event ev) @
     (if 0 < s_Retry ev then [''retry: '' @ nat_dec (s_Retry ev)] else []) @
     [''data: '' @ escape_lines (v_sprint env (s_Data ev))]"

lemma nat_dec_no_LF: "LF \<notin> set (nat_dec n)" "CR \<notin> set (nat_dec n)"
  using nat_dec_digits [of LF n] nat_dec_digits [of CR n] by (auto simp: is_digit_def)

lemma event_lines_clean: "l \<in> set (event_lines env ev) \<Longrightarrow> LF \<notin> set l \<and> CR \<notin> set l"
  using escape_lines_clean nat_dec_no_LF by (auto simp: event_lines_def field_def split: if_splits)

lemma sse_body:
  assumes "open_w w" "\<not> composite (s_Data ev)"
  shows "body (snd (sse_Encode env ev w)) = body w @ concat (map (\<lambda>l. l @ [LF]) (event_lines env ev)) @ [LF]"
    "fst (sse_Encode env ev w) = None"
proof -
  have i: "open_w (writeId i w) \<and> body (writeId i w) = body w @ concat (map (\<lambda>l. l @ [LF]) (field ''id'' i))"
    if "open_w w" for i w using that by (simp add: writeId_def field_def open_w_put)
  have e: "open_w (writeEvent i w) \<and> body (writeEvent i w) = body w @ concat (map (\<lambda>l. l @ [LF]) (field ''event'' i))"
    if "open_w w" for i w using that by (simp add: writeEvent_def field_def open_w_put)
  have r: "open_w (writeRetry i w) \<and> body (writeRetry i w) = body w @
      concat (map (\<lambda>l. l @ [LF]) (if 0 < i then [''retry: '' @ nat_dec i] else []))"
    if "open_w w" for i w using that by (simp add: writeRetry_def open_w_put)
  let ?w = "writeRetry (s_Retry ev) (writeEvent (s_Event ev) (writeId (s_Id ev) w))"
  have w: "open_w ?w" "body ?w = body w @ concat (map (\<lambda>l. l @ [LF]) (field ''id'' (s_Id ev) @ field ''event'' (s_Event ev) @
     (if 0 < s_Retry ev then [''retry: '' @ nat_dec (s_Retry ev)] else [])))"
    using i [OF assms(1)] e r by simp_all
  from open_w_put [OF w(1)] have "fst (writeData env (s_Data ev) ?w) = None"
    "body (snd (writeData env (s_Data ev) ?w)) = body ?w @ ''data: '' @ escape_lines (v_sprint env (s_Data ev)) @ [LF, LF]"
    using assms(2) w(1) by (simp_all add: writeData_def Let_def open_w_put)
  with w(2) show "body (snd (sse_Encode env ev w)) = body w @ concat (map (\<lambda>l. l @ [LF]) (event_lines env ev)) @ [LF]"
    "fst (sse_Encode env ev w) = None"
    by (simp_all add: sse_Encode_def event_lines_def)
qed

lemma split_lines: "\<forall>l \<in> set ls. LF \<notin> set l \<Longrightarrow> split_on LF (concat (map (\<lambda>l. l @ [LF]) ls) @ t) = ls @ split_on LF t"
  by (induction ls) (simp_all add: split_on_append)

text \<open>
  C14: a server-sent event of scalar data cannot smuggle in fields or further events: whatever
  bytes its name, its identifier and its data hold, the text sent has exactly the lines of its
  own fields and then the blank line that ends the event, and no carriage return.
\<close>

theorem sse_no_injection:
  assumes "open_w w" "\<not> composite (s_Data ev)"
  shows "\<exists>t. body (snd (sse_Encode env ev w)) = body w @ t \<and>
    split_on LF t = event_lines env ev @ [[], []] \<and> CR \<notin> set t"
proof -
  let ?t = "concat (map (\<lambda>l. l @ [LF]) (event_lines env ev)) @ [LF]"
  have "split_on LF ?t = event_lines env ev @ [[], []]"
    using split_lines [of "event_lines env ev" "[LF]"] event_lines_clean by simp
  moreover have "CR \<notin> set ?t" using event_lines_clean by auto
  ultimately show ?thesis using sse_body(1) [OF assms] by blast
qed

text \<open>An instance of the library's functions to apply the properties to.\<close>

definition sample_env :: env where
  "sample_env = \<lparr>v_json = (\<lambda>v. Inr ''{}''), v_json_indent = (\<lambda>v. Inr ''{}''), v_xml = (\<lambda>v. ([''<map/>''], None)),
     v_sprintf = (\<lambda>f vs. f), v_sprint = (\<lambda>v. case v of GStr s \<Rightarrow> s | _ \<Rightarrow> ''?''), v_parse = (\<lambda>s. True),
     v_execute = (\<lambda>s n v. ([''<html>'', ''</html>''], None)), v_redirect_url = (\<lambda>r u. u),
     v_redirect_note = (\<lambda>u c. ''moved'')\<rparr>"

lemma open_fresh: "open_w (rw_reset fresh_conn)"
  by (simp add: open_w_def rw_ok_reset) (simp add: rw_reset_def fresh_conn_def Written_def defaultStatus_def body_allowed_def)

theorem sse_no_injection_witness:
  "\<exists>t. body (snd (sse_Encode sample_env \<lparr>s_Event = ''e'', s_Id = [], s_Retry = 0, s_Data = GStr (''x'' @ [LF] @ ''id: 9'')\<rparr>
      (rw_reset fresh_conn))) = t \<and>
    split_on LF t = [''event: e'', ''data: x'' @ [CHR 0x5C] @ ''nid: 9'', [], []]"
  using sse_no_injection [OF open_fresh, of "\<lparr>s_Event = ''e'', s_Id = [], s_Retry = 0, s_Data = GStr (''x'' @ [LF] @ ''id: 9'')\<rparr>" sample_env]
  by (auto simp: event_lines_def field_def sample_env_def body_def rw_reset_def fresh_conn_def)

end
