(* ===== verification/GinContext.thy ===== *)
theory GinContext
  imports Chain GinUtils Render RouteTree
begin

text \<open>
  gin's \<open>Context\<close> (\<open>context.go\<close>): the request, the writer, the parameters, keys and errors of one
  request, and the methods a handler calls on it. The cursor of the chain is not part of the
  record: handlers reach it only by the constructors of \<open>prog\<close>.
\<close>

section \<open>The context\<close>

record config =
  g_RedirectTrailingSlash :: bool
  g_RedirectFixedPath :: bool
  g_HandleMethodNotAllowed :: bool
  g_ForwardedByClientIP :: bool
  g_HTMLRender :: "html_render option"

text \<open>
  What the handlers see of the world outside: the bytes written to \<open>gin.DefaultWriter\<close>, the lines
  given to the log, and the readings of the clock still to come.
\<close>

record world =
  o_out :: string
  o_log :: "(string \<times> string) list"
  o_clock :: "nat list"

record ctx =
  c_writermem :: responseWriter
  c_Request :: request
  c_Params :: Params
  c_Keys :: "(string \<rightharpoonup> goval) option"
  c_Errors :: errorMsgs
  c_Accepted :: "string list option"
  c_config :: config
  c_world :: world

definition ctx_reset :: "ctx \<Rightarrow> ctx" where
  "ctx_reset c = c\<lparr>c_Params := [], c_Keys := None, c_Errors := [], c_Accepted := None\<rparr>"

abbreviation on_writer :: "(responseWriter \<Rightarrow> responseWriter) \<Rightarrow> ctx \<Rightarrow> ctx" where
  "on_writer f c \<equiv> c\<lparr>c_writermem := f (c_writermem c)\<rparr>"

section \<open>Flow control and errors\<close>

datatype go_error = Plain string | GinError GErr

definition parse_error :: "go_error \<Rightarrow> GErr" where
  "parse_error err =
     (case err of GinError e \<Rightarrow> e
      | Plain s \<Rightarrow> \<lparr>e_Err = s, e_Type = ErrorTypePrivate, e_Meta = GNil\<rparr>)"

text \<open>
  \<open>c.Error(err)\<close> returns the stored error, which callers go on to change: \<open>f\<close> is that change
  (\<open>SetType\<close>, \<open>SetMeta\<close> or nothing).
\<close>

definition ctx_Error :: "(GErr \<Rightarrow> GErr) \<Rightarrow> go_error \<Rightarrow> ctx \<Rightarrow> ctx" where
  "ctx_Error f err c = c\<lparr>c_Errors := c_Errors c @ [f (parse_error err)]\<rparr>"

definition AbortWithStatus :: "int \<Rightarrow> ctx \<Rightarrow> ctx prog" where
  "AbortWithStatus code c = Abort (Return (on_writer (WriteHeader code) c))"

definition AbortWithError :: "(GErr \<Rightarrow> GErr) \<Rightarrow> int \<Rightarrow> go_error \<Rightarrow> ctx \<Rightarrow> ctx prog" where
  "AbortWithError f code err c = bindP (AbortWithStatus code c) (\<lambda>c. Return (ctx_Error f err c))"

section \<open>Keys\<close>

definition ctx_Set :: "string \<Rightarrow> goval \<Rightarrow> ctx \<Rightarrow> ctx" where
  "ctx_Set key value c =
     (let m = (case c_Keys c of None \<Rightarrow> (\<lambda>_. None) | Some m \<Rightarrow> m)
      in c\<lparr>c_Keys := Some (m(key \<mapsto> value))\<rparr>)"

definition ctx_Get :: "string \<Rightarrow> ctx \<Rightarrow> goval \<times> bool" where
  "ctx_Get key c =
     (case c_Keys c of
        None \<Rightarrow> (GNil, False)
      | Some m \<Rightarrow> (case m key of None \<Rightarrow> (GNil, False) | Some v \<Rightarrow> (v, True)))"

definition MustGet :: "string \<Rightarrow> ctx \<Rightarrow> goval go" where
  "MustGet key c =
     (case ctx_Get key c of
        (v, True) \<Rightarrow> Inr v
      | (_, False) \<Rightarrow> Inl (''Key '' @ [CHR 0x22] @ key @ [CHR 0x22] @ '' does not exist''))"

text \<open>The keys of \<open>Value\<close> of the \<open>context.Context\<close> interface: the number 0, a string, or another value.\<close>

datatype value_key = ZeroKey | StrKey string | OtherKey

datatype ctx_value = VRequest request | VVal goval

definition ctx_Value :: "value_key \<Rightarrow> ctx \<Rightarrow> ctx_value" where
  "ctx_Value key c =
     (case key of
        ZeroKey \<Rightarrow> VRequest (c_Request c)
      | StrKey s \<Rightarrow> VVal (fst (ctx_Get s c))
      | OtherKey \<Rightarrow> VVal GNil)"

section \<open>Input\<close>

definition first_value :: "header \<Rightarrow> string \<Rightarrow> string option" where
  "first_value h key = (case h key of Some (v # vs) \<Rightarrow> Some v | _ \<Rightarrow> None)"

definition query :: "string \<Rightarrow> ctx \<Rightarrow> string \<times> bool" where
  "query key c =
     (case first_value (q_Query (c_Request c)) key of Some v \<Rightarrow> (v, True) | None \<Rightarrow> ([], False))"

definition postForm :: "string \<Rightarrow> ctx \<Rightarrow> string \<times> bool" where
  "postForm key c =
     (case first_value (q_PostForm (c_Request c)) key of
        Some v \<Rightarrow> (v, True)
      | None \<Rightarrow>
          (case q_Multipart (c_Request c) of
             Some m \<Rightarrow> (case first_value m key of Some v \<Rightarrow> (v, True) | None \<Rightarrow> ([], False))
           | None \<Rightarrow> ([], False)))"

definition ctx_Query :: "string \<Rightarrow> ctx \<Rightarrow> string" where
  "ctx_Query key c = fst (query key c)"

definition ctx_PostForm :: "string \<Rightarrow> ctx \<Rightarrow> string" where
  "ctx_PostForm key c = fst (postForm key c)"

definition ctx_Param :: "string \<Rightarrow> ctx \<Rightarrow> string" where
  "ctx_Param key c = ByName (c_Params c) key"

definition DefaultQuery :: "string \<Rightarrow> string \<Rightarrow> ctx \<Rightarrow> string" where
  "DefaultQuery key d c = (case query key c of (va, ok) \<Rightarrow> if ok then va else d)"

definition DefaultPostForm :: "string \<Rightarrow> string \<Rightarrow> ctx \<Rightarrow> string" where
  "DefaultPostForm key d c = (case postForm key c of (va, ok) \<Rightarrow> if ok then va else d)"

definition requestHeader :: "string \<Rightarrow> ctx \<Rightarrow> string" where
  "requestHeader key c = (case first_value (q_Header (c_Request c)) key of Some v \<Rightarrow> v | None \<Rightarrow> [])"

definition ContentType :: "ctx \<Rightarrow> string" where
  "ContentType c = filterFlags (requestHeader ''Content-Type'' c)"

definition ClientIP :: "ctx \<Rightarrow> string" where
  "ClientIP c =
     (let forwarded =
        (if g_ForwardedByClientIP (c_config c) then
           let ip = TrimSpace (requestHeader ''X-Real-Ip'' c)
           in if 0 < length ip then Some ip
              else
                let ip = requestHeader ''X-Forwarded-For'' c;
                    ip = (case find_index (CHR '','') ip of Some i \<Rightarrow> take i ip | None \<Rightarrow> ip);
                    ip = TrimSpace ip
                in if 0 < length ip then Some ip else None
         else None)
      in case forwarded of Some ip \<Rightarrow> ip | None \<Rightarrow> TrimSpace (q_RemoteAddr (c_Request c)))"

text \<open>\<open>BindWith\<close>, given the error of the binding, if any.\<close>

definition BindWith :: "go_error option \<Rightarrow> ctx \<Rightarrow> ctx prog" where
  "BindWith err c =
     (case err of
        Some e \<Rightarrow> AbortWithError (SetType ErrorTypeBind) 400 e c
      | None \<Rightarrow> Return c)"

section \<open>Rendering\<close>

definition ctx_Header :: "string \<Rightarrow> string \<Rightarrow> ctx \<Rightarrow> ctx" where
  "ctx_Header key value c =
     on_writer (if length value = 0 then del_header key else set_header key value) c"

definition renderError :: "string \<Rightarrow> ctx \<Rightarrow> ctx prog" where
  "renderError err c = AbortWithError (SetType ErrorTypeRender) 500 (Plain err) c"

definition rendered :: "(string option \<times> responseWriter) go \<Rightarrow> ctx \<Rightarrow> ctx prog" where
  "rendered res c =
     (case res of
        Inl m \<Rightarrow> Throw c m
      | Inr (err, w) \<Rightarrow>
          (let c = c\<lparr>c_writermem := w\<rparr>
           in case err of None \<Rightarrow> Return c | Some e \<Rightarrow> renderError e c))"

definition ctx_Render :: "env \<Rightarrow> int \<Rightarrow> render \<Rightarrow> ctx \<Rightarrow> ctx prog" where
  "ctx_Render env code r c =
     (let c = on_writer (WriteHeader code) c
      in rendered (render_Render env r (c_writermem c)) c)"

text \<open>Without a renderer, \<open>c.engine.HTMLRender.Instance\<close> is a call on a nil interface.\<close>

definition ctx_HTML :: "env \<Rightarrow> int \<Rightarrow> string \<Rightarrow> goval \<Rightarrow> ctx \<Rightarrow> ctx prog" where
  "ctx_HTML env code name obj c =
     (case g_HTMLRender (c_config c) of
        None \<Rightarrow> Throw c ''runtime error: invalid memory address or nil pointer dereference''
      | Some r \<Rightarrow>
          (case html_Instance env r name obj of
             Inl m \<Rightarrow> Throw c m
           | Inr r \<Rightarrow> ctx_Render env code r c))"

definition ctx_JSON :: "env \<Rightarrow> int \<Rightarrow> goval \<Rightarrow> ctx \<Rightarrow> ctx prog" where
  "ctx_JSON env code obj c =
     (let c = on_writer (WriteHeader code) c
      in rendered (Inr (WriteJSON env obj (c_writermem c))) c)"

definition ctx_IndentedJSON :: "env \<Rightarrow> int \<Rightarrow> goval \<Rightarrow> ctx \<Rightarrow> ctx prog" where
  "ctx_IndentedJSON env code obj c = ctx_Render env code (RIndentedJSON obj) c"

definition ctx_XML :: "env \<Rightarrow> int \<Rightarrow> goval \<Rightarrow> ctx \<Rightarrow> ctx prog" where
  "ctx_XML env code obj c = ctx_Render env code (RXML obj) c"

definition ctx_String :: "env \<Rightarrow> int \<Rightarrow> string \<Rightarrow> goval list \<Rightarrow> ctx \<Rightarrow> ctx prog" where
  "ctx_String env code format vs c =
     Return (on_writer (\<lambda>w. render_WriteString env format vs (WriteHeader code w)) c)"

definition ctx_Redirect :: "env \<Rightarrow> int \<Rightarrow> string \<Rightarrow> ctx \<Rightarrow> ctx prog" where
  "ctx_Redirect env code loc c = ctx_Render env (-1) (RRedirect code (c_Request c) loc) c"

definition ctx_Data :: "env \<Rightarrow> int \<Rightarrow> string \<Rightarrow> string \<Rightarrow> ctx \<Rightarrow> ctx prog" where
  "ctx_Data env code ctype data c = ctx_Render env code (RData ctype data) c"

definition SSEvent :: "env \<Rightarrow> string \<Rightarrow> goval \<Rightarrow> ctx \<Rightarrow> ctx prog" where
  "SSEvent env name message c =
     ctx_Render env (-1) (RSSE \<lparr>s_Event = name, s_Id = [], s_Retry = 0, s_Data = message\<rparr>) c"

text \<open>
  \<open>Stream\<close>: each round looks whether the client is gone (the next element of \<open>gone\<close>) and otherwise
  runs the step; \<open>None\<close>: still running after the rounds of \<open>gone\<close>.
\<close>

fun Stream :: "(responseWriter \<Rightarrow> bool \<times> responseWriter) \<Rightarrow> bool list \<Rightarrow> responseWriter \<Rightarrow>
    responseWriter option" where
  "Stream step [] w = None"
| "Stream step (g # gone) w =
     (if g then Some w
      else case step w of (keepopen, w) \<Rightarrow>
        let w = Flush w in if keepopen then Stream step gone w else Some w)"

section \<open>Content negotiation\<close>

record Negotiation =
  n_Offered :: "string list"
  n_HTMLName :: string
  n_HTMLData :: goval
  n_JSONData :: goval
  n_XMLData :: goval
  n_Data :: goval

fun first_accepted :: "string list \<Rightarrow> string list \<Rightarrow> string" where
  "first_accepted [] offered = []"
| "first_accepted (a # accepted) offered =
     (if a \<in> set offered then a else first_accepted accepted offered)"

definition NegotiateFormat :: "string list \<Rightarrow> ctx \<Rightarrow> (string \<times> ctx) go" where
  "NegotiateFormat offered c =
     (case offered of
        [] \<Rightarrow> Inl ''you must provide at least one offer''
      | o0 # _ \<Rightarrow>
          let accepted = (case c_Accepted c of None \<Rightarrow> parseAccept (requestHeader ''Accept'' c) | Some a \<Rightarrow> a);
              c = c\<lparr>c_Accepted := Some accepted\<rparr>
          in Inr (if length accepted = 0 then (o0, c) else (first_accepted accepted offered, c)))"

definition ctx_Negotiate :: "env \<Rightarrow> int \<Rightarrow> Negotiation \<Rightarrow> ctx \<Rightarrow> ctx prog" where
  "ctx_Negotiate env code config c =
     (case NegotiateFormat (n_Offered config) c of
        Inl m \<Rightarrow> Throw c m
      | Inr (format, c) \<Rightarrow>
          if format = ''application/json'' then
            (case chooseData (n_JSONData config) (n_Data config) of
               Inl m \<Rightarrow> Throw c m | Inr data \<Rightarrow> ctx_JSON env code data c)
          else if format = ''text/html'' then
            (case chooseData (n_HTMLData config) (n_Data config) of
               Inl m \<Rightarrow> Throw c m | Inr data \<Rightarrow> ctx_HTML env code (n_HTMLName config) data c)
          else if format = ''application/xml'' then
            (case chooseData (n_XMLData config) (n_Data config) of
               Inl m \<Rightarrow> Throw c m | Inr data \<Rightarrow> ctx_XML env code data c)
          else AbortWithError id 406 (Plain ''the accepted formats are not offered by the server'') c)"

text \<open>Called without arguments, \<open>formats\<close> is the nil slice.\<close>

definition SetAccepted :: "string list \<Rightarrow> ctx \<Rightarrow> ctx" where
  "SetAccepted formats c = c\<lparr>c_Accepted := (if formats = [] then None else Some formats)\<rparr>"

section \<open>Lemmas and properties\<close>

lemma ctx_Get_Set [simp]:
  "ctx_Get key (ctx_Set key v c) = (v, True)"
  "key \<noteq> key' \<Longrightarrow> ctx_Get key' (ctx_Set key v c) = ctx_Get key' c"
  by (auto simp: ctx_Get_def ctx_Set_def Let_def split: option.splits)

lemma MustGet_Set: "MustGet key (ctx_Set key v c) = Inr v"
  by (simp add: MustGet_def)

lemma first_accepted_spec:
  "first_accepted as offered =
     (case filter (\<lambda>a. a \<in> set offered) as of [] \<Rightarrow> [] | a # _ \<Rightarrow> a)"
  by (induction as) auto

text \<open>What the leaves of a program satisfy, whatever the programs below answer.\<close>

primrec leaves :: "('x \<Rightarrow> bool) \<Rightarrow> 'x prog \<Rightarrow> bool" where
  "leaves P (Return x) = P x"
| "leaves P (Throw x m) = P x"
| "leaves P (Abort p) = leaves P p"
| "leaves P (IsAborted k) = (\<forall>b. leaves P (k b))"
| "leaves P (Next x k) = (P x \<and> (\<forall>r. (case r of Done y \<Rightarrow> P y | Panicked y _ \<Rightarrow> P y) \<longrightarrow> leaves P (k r)))"

lemma leaves_bind: "leaves P p \<Longrightarrow> (\<And>x. P x \<Longrightarrow> leaves P (f x)) \<Longrightarrow> leaves P (bindP p f)"
  by (induction p) auto

abbreviation writer_ok :: "ctx \<Rightarrow> bool" where
  "writer_ok c \<equiv> rw_ok (c_writermem c)"

lemma rw_ok_WriteHeader: "rw_ok w \<Longrightarrow> rw_ok (WriteHeader code w)"
  using rw_ok_step [of w "DoHeader code"] by simp

lemma leaves_abort: "writer_ok c \<Longrightarrow> leaves writer_ok (AbortWithError f code err c)"
  by (simp add: AbortWithError_def AbortWithStatus_def ctx_Error_def rw_ok_WriteHeader)

lemma leaves_rendered:
  assumes "writer_ok c" "\<And>e w. res = Inr (e, w) \<Longrightarrow> acts (c_writermem c) w"
  shows "leaves writer_ok (rendered res c)"
proof (cases res)
  case (Inr r)
  obtain e w where "r = (e, w)" by fastforce
  with Inr assms acts_ok [of "c_writermem c" w] show ?thesis
    by (auto simp: rendered_def Let_def renderError_def leaves_abort split: option.splits)
qed (use assms in \<open>simp add: rendered_def\<close>)

lemma leaves_Render:
  assumes "writer_ok c"
  shows "leaves writer_ok (ctx_Render env code r c)"
  using assms unfolding ctx_Render_def Let_def
  by (intro leaves_rendered) (auto simp: rw_ok_WriteHeader intro: acts_render)

lemma leaves_HTML: "writer_ok c \<Longrightarrow> leaves writer_ok (ctx_HTML env code name obj c)"
  by (auto simp: ctx_HTML_def leaves_Render split: option.splits sum.splits)

end
