(* ===== verification/Base64.thy ===== *)
theory Base64
  imports Prelude
begin

text \<open>
  What the authorization middleware uses of package \<open>encoding/base64\<close>: the standard encoding with
  padding, on bytes, and the proof that it is injective.
\<close>

definition alphabet :: string where
  "alphabet = ''ABCDEFGHIJKLMNOPQRSTUVWXYZabcdefghijklmnopqrstuvwxyz0123456789+/''"

definition sextet :: "nat \<Rightarrow> char" where
  "sextet k = alphabet ! (k mod 64)"

abbreviation byte :: "char \<Rightarrow> nat" where
  "byte c \<equiv> of_char c"

definition triple :: "char \<Rightarrow> char \<Rightarrow> char \<Rightarrow> nat" where
  "triple a b c = byte a * 65536 + byte b * 256 + byte c"

fun base64 :: "string \<Rightarrow> string" where
  "base64 (a # b # c # s) =
     (let n = triple a b c
      in [sextet (n div 262144), sextet (n div 4096), sextet (n div 64), sextet n] @ base64 s)"
| "base64 [a, b] =
     (let n = triple a b (CHR 0x00)
      in [sextet (n div 262144), sextet (n div 4096), sextet (n div 64), CHR ''=''])"
| "base64 [a] =
     (let n = triple a (CHR 0x00) (CHR 0x00)
      in [sextet (n div 262144), sextet (n div 4096), CHR ''='', CHR ''=''])"
| "base64 [] = []"

lemma distinct_alphabet: "distinct alphabet" "length alphabet = 64" "CHR ''='' \<notin> set alphabet"
  by (simp_all add: alphabet_def)

lemma sextet_eq [simp]: "sextet a = sextet b \<longleftrightarrow> a mod 64 = b mod 64"
  using distinct_alphabet by (simp add: sextet_def nth_eq_iff_index_eq)

lemma sextet_not_pad [simp]: "sextet a \<noteq> CHR ''=''" "CHR ''='' \<noteq> sextet a"
proof -
  have "sextet a \<in> set alphabet" unfolding sextet_def using distinct_alphabet(2) by simp
  with distinct_alphabet(3) show "sextet a \<noteq> CHR ''=''" "CHR ''='' \<noteq> sextet a" by metis+
qed

lemma byte_less: "byte c < 256"
  using range_nat_of_char by auto

lemma triple_less: "triple a b c < 16777216"
  using byte_less [of a] byte_less [of b] byte_less [of c] unfolding triple_def by linarith

lemma digits_inj:
  assumes "m < 16777216" "n < 16777216" "m div 262144 mod 64 = n div 262144 mod 64"
    "m div 4096 mod 64 = n div 4096 mod 64" "m div 64 mod 64 = n div 64 mod 64" "m mod 64 = n mod 64"
  shows "m = (n :: nat)"
proof -
  have "m div 262144 < 64" "n div 262144 < 64" using assms(1,2) by (simp_all add: less_mult_imp_div_less)
  with assms(3) have "m div 262144 = n div 262144" by simp
  moreover have up: "k div 4096 div 64 = k div 262144" "k div 64 div 64 = k div 4096" for k :: nat
    by (simp_all add: div_mult2_eq [symmetric])
  ultimately have "m div 4096 = n div 4096" using assms(4) by (metis div_mult_mod_eq up(1))
  with assms(5) have "m div 64 = n div 64" by (metis div_mult_mod_eq up(2))
  with assms(6) show ?thesis by (metis div_mult_mod_eq)
qed

lemma head_digit:
  assumes "a * 256 + b = a' * 256 + b'" "b < 256" "b' < (256 :: nat)"
  shows "a = a' \<and> b = b'"
proof -
  have "(a * 256 + b) div 256 = a" "(a' * 256 + b') div 256 = a'" using assms(2,3) by simp_all
  with assms(1) show ?thesis by simp
qed

lemma triple_inj: "triple a b c = triple a' b' c' \<Longrightarrow> a = a' \<and> b = b' \<and> c = c'"
proof -
  assume t: "triple a b c = triple a' b' c'"
  then have "(byte a * 256 + byte b) * 256 + byte c = (byte a' * 256 + byte b') * 256 + byte c'"
    by (simp add: triple_def)
  from head_digit [OF this byte_less byte_less] have "byte a * 256 + byte b = byte a' * 256 + byte b'" "c = c'" by simp_all
  with head_digit [OF this(1) byte_less byte_less] show ?thesis by simp
qed

lemma triple_mod [simp]:
  "triple a b (CHR 0x00) mod 64 = 0" "triple a (CHR 0x00) (CHR 0x00) div 64 mod 64 = 0"
proof -
  have "triple a b (CHR 0x00) = (byte a * 1024 + byte b * 4) * 64" by (simp add: triple_def)
  then show "triple a b (CHR 0x00) mod 64 = 0" by (metis mod_mult_self2_is_0)
  have "triple a (CHR 0x00) (CHR 0x00) = (byte a * 16 * 64) * 64" by (simp add: triple_def)
  then have "triple a (CHR 0x00) (CHR 0x00) div 64 = byte a * 16 * 64" by (metis nonzero_mult_div_cancel_right zero_neq_numeral)
  then show "triple a (CHR 0x00) (CHR 0x00) div 64 mod 64 = 0" by (metis mod_mult_self2_is_0)
qed

lemma base64_inj: "base64 s = base64 t \<Longrightarrow> s = t"
proof (induction s arbitrary: t rule: base64.induct)
  case (1 a b c s)
  from "1.prems" show ?case
  proof (cases t rule: base64.cases)
    case (1 a' b' c' t')
    with "1.prems" have e: "base64 s = base64 t'" "triple a b c = triple a' b' c'"
      by (auto simp: Let_def intro: digits_inj [OF triple_less triple_less])
    from "1.IH" [OF refl e(1)] triple_inj [OF e(2)] 1 show ?thesis by simp
  qed (simp_all add: Let_def)
next
  case (2 a b)
  from "2.prems" show ?case
  proof (cases t rule: base64.cases)
    case (2 a' b')
    with "2.prems" have "triple a b (CHR 0x00) div 262144 mod 64 = triple a' b' (CHR 0x00) div 262144 mod 64"
      "triple a b (CHR 0x00) div 4096 mod 64 = triple a' b' (CHR 0x00) div 4096 mod 64"
      "triple a b (CHR 0x00) div 64 mod 64 = triple a' b' (CHR 0x00) div 64 mod 64" by (simp_all add: Let_def)
    then have "triple a b (CHR 0x00) = triple a' b' (CHR 0x00)"
      by (intro digits_inj [OF triple_less triple_less]) simp_all
    from triple_inj [OF this] 2 show ?thesis by simp
  qed (simp_all add: Let_def)
next
  case (3 a)
  from "3.prems" show ?case
  proof (cases t rule: base64.cases)
    case (3 a')
    with "3.prems" have "triple a (CHR 0x00) (CHR 0x00) div 262144 mod 64 = triple a' (CHR 0x00) (CHR 0x00) div 262144 mod 64"
      "triple a (CHR 0x00) (CHR 0x00) div 4096 mod 64 = triple a' (CHR 0x00) (CHR 0x00) div 4096 mod 64"
      by (simp_all add: Let_def)
    then have "triple a (CHR 0x00) (CHR 0x00) = triple a' (CHR 0x00) (CHR 0x00)"
      by (intro digits_inj [OF triple_less triple_less]) simp_all
    from triple_inj [OF this] 3 show ?thesis by simp
  qed (simp_all add: Let_def)
next
  case 4
  then show ?case by (cases t rule: base64.cases) (simp_all add: Let_def)
qed

lemma base64_eq [simp]: "base64 s = base64 t \<longleftrightarrow> s = t"
  using base64_inj by blast

end
