(* ===== verification/Middleware.thy ===== *)
theory Middleware
  imports GinContext Base64
begin

text \<open>
  The middleware that gin brings along: basic authentication (\<open>auth.go\<close>), the loggers
  (\<open>logger.go\<close>) and the recovery from panics (\<open>recovery.go\<close>).
\<close>

section \<open>Basic authentication\<close>

record authPair =
  a_Value :: string
  a_User :: string

fun searchCredential :: "authPair list \<Rightarrow> string \<Rightarrow> string \<times> bool" where
  "searchCredential a authValue =
     (if length authValue = 0 then ([], False)
      else case find (\<lambda>pair. a_Value pair = authValue) a of
             Some pair \<Rightarrow> (a_User pair, True)
           | None \<Rightarrow> ([], False))"

definition authorizationHeader :: "string \<Rightarrow> string \<Rightarrow> string" where
  "authorizationHeader user password = ''Basic '' @ base64 (user @ '':'' @ password)"

text \<open>The accounts in the order in which the range over the map visits them.\<close>

fun process_pairs :: "(string \<times> string) list \<Rightarrow> authPair list go" where
  "process_pairs [] = Inr []"
| "process_pairs ((user, password) # accounts) =
     (if length user = 0 then Inl ''User can not be empty''
      else mapG (\<lambda>ps. \<lparr>a_Value = authorizationHeader user password, a_User = user\<rparr> # ps)
             (process_pairs accounts))"

definition processAccounts :: "(string \<times> string) list \<Rightarrow> authPair list go" where
  "processAccounts accounts =
     (if length accounts = 0 then Inl ''Empty list of authorized credentials''
      else process_pairs accounts)"

text \<open>\<open>strconv.Quote\<close> on ASCII; other bytes are written as \<open>\x\<close> with two digits.\<close>

definition hex_digit :: "nat \<Rightarrow> char" where
  "hex_digit k = (if k < 10 then char_of (48 + k) else char_of (87 + k))"

definition quote_char :: "char \<Rightarrow> string" where
  "quote_char c =
     (let k = (of_char c :: nat); bs = CHR 0x5C in
      if c = CHR 0x22 \<or> c = bs then [bs, c]
      else if 32 \<le> k \<and> k < 127 then [c]
      else if k = 7 then [bs, CHR ''a''] else if k = 8 then [bs, CHR ''b'']
      else if k = 9 then [bs, CHR ''t''] else if k = 10 then [bs, CHR ''n'']
      else if k = 11 then [bs, CHR ''v''] else if k = 12 then [bs, CHR ''f'']
      else if k = 13 then [bs, CHR ''r'']
      else [bs, CHR ''x'', hex_digit (k div 16), hex_digit (k mod 16)])"

definition go_quote :: "string \<Rightarrow> string" where
  "go_quote s = [CHR 0x22] @ concat (map quote_char s) @ [CHR 0x22]"

definition AuthUserKey :: string where "AuthUserKey = ''user''"

text \<open>The handler that \<open>BasicAuthForRealm\<close> returns, or the panic while it is made.\<close>

definition auth_handler :: "authPair list \<Rightarrow> string \<Rightarrow> ctx \<Rightarrow> ctx prog" where
  "auth_handler pairs realm c =
     (case searchCredential pairs (requestHeader ''Authorization'' c) of
        (user, found) \<Rightarrow>
          if \<not> found then AbortWithStatus 401 (ctx_Header ''WWW-Authenticate'' realm c)
          else Return (ctx_Set AuthUserKey (GStr user) c))"

definition BasicAuthForRealm :: "(string \<times> string) list \<Rightarrow> string \<Rightarrow> (ctx \<Rightarrow> ctx prog) go" where
  "BasicAuthForRealm accounts realm =
     (let realm = (if realm = [] then ''Authorization Required'' else realm);
          realm = ''Basic realm='' @ go_quote realm
      in mapG (\<lambda>pairs. auth_handler pairs realm) (processAccounts accounts))"

definition BasicAuth :: "(string \<times> string) list \<Rightarrow> (ctx \<Rightarrow> ctx prog) go" where
  "BasicAuth accounts = BasicAuthForRealm accounts []"

text \<open>\<open>subtle.ConstantTimeEq\<close> and \<open>ConstantTimeCompare\<close> compare as the equality does.\<close>

definition secureCompare :: "string \<Rightarrow> string \<Rightarrow> bool" where
  "secureCompare given actual = (if length given = length actual then given = actual else False)"

section \<open>Logging\<close>

definition ansi :: "nat list \<Rightarrow> string" where
  "ansi = map char_of"

definition green :: string where "green = ansi [27, 91, 57, 55, 59, 52, 50, 109]"
definition white :: string where "white = ansi [27, 91, 57, 48, 59, 52, 55, 109]"
definition yellow :: string where "yellow = ansi [27, 91, 57, 55, 59, 52, 51, 109]"
definition red :: string where "red = ansi [27, 91, 57, 55, 59, 52, 49, 109]"
definition blue :: string where "blue = ansi [27, 91, 57, 55, 59, 52, 52, 109]"
definition magenta :: string where "magenta = ansi [27, 91, 57, 55, 59, 52, 53, 109]"
definition cyan :: string where "cyan = ansi [27, 91, 57, 55, 59, 52, 54, 109]"
definition reset_color :: string where "reset_color = ansi [27, 91, 48, 109]"

definition colorForStatus :: "int \<Rightarrow> string" where
  "colorForStatus code =
     (if 200 \<le> code \<and> code < 300 then green
      else if 300 \<le> code \<and> code < 400 then white
      else if 400 \<le> code \<and> code < 500 then yellow
      else red)"

definition colorForMethod :: "string \<Rightarrow> string" where
  "colorForMethod m =
     (if m = ''GET'' then blue else if m = ''POST'' then cyan
      else if m = ''PUT'' then yellow else if m = ''DELETE'' then red
      else if m = ''PATCH'' then green else if m = ''HEAD'' then magenta
      else if m = ''OPTIONS'' then white else reset_color)"

text \<open>Widths of \<open>fmt\<close> verbs; the printing of times and durations is a parameter.\<close>

definition pad_left :: "nat \<Rightarrow> string \<Rightarrow> string" where
  "pad_left n s = replicate (n - length s) (CHR '' '') @ s"

definition pad_right :: "nat \<Rightarrow> string \<Rightarrow> string" where
  "pad_right n s = s @ replicate (n - length s) (CHR '' '')"

record fmt_env =
  f_time :: "nat \<Rightarrow> string"
  f_duration :: "int \<Rightarrow> string"
  f_value :: "goval \<Rightarrow> string"

definition log_line :: "fmt_env \<Rightarrow> nat \<Rightarrow> nat \<Rightarrow> string \<Rightarrow> ctx \<Rightarrow> string" where
  "log_line fe start end path c =
     (let clientIP = ClientIP c;
          mtd = q_Method (c_Request c);
          statusCode = Status (c_writermem c);
          comment = Errors_String (f_value fe) (ByType ErrorTypePrivate (c_Errors c))
      in ''[GIN] '' @ f_time fe end @ '' |'' @ colorForStatus statusCode @ '' '' @
         pad_left 3 (int_dec statusCode) @ '' '' @ reset_color @ ''| '' @
         pad_left 13 (f_duration fe (int end - int start)) @ '' | '' @ clientIP @ '' |'' @
         colorForMethod mtd @ ''  '' @ reset_color @ '' '' @ pad_right 7 mtd @ '' '' @ path @ [LF] @ comment)"

text \<open>\<open>time.Now()\<close>: the next reading of the clock.\<close>

definition now :: "ctx \<Rightarrow> nat \<times> ctx" where
  "now c = (case o_clock (c_world c) of
              [] \<Rightarrow> (0, c)
            | t # ts \<Rightarrow> (t, c\<lparr>c_world := (c_world c)\<lparr>o_clock := ts\<rparr>\<rparr>))"

definition write_out :: "string \<Rightarrow> ctx \<Rightarrow> ctx" where
  "write_out s c = c\<lparr>c_world := (c_world c)\<lparr>o_out := o_out (c_world c) @ s\<rparr>\<rparr>"

definition LoggerWithWriter :: "fmt_env \<Rightarrow> ctx \<Rightarrow> ctx prog" where
  "LoggerWithWriter fe c =
     (case now c of (start, c) \<Rightarrow>
        let path = q_Path (c_Request c)
        in NextThen c (\<lambda>c. case now c of (end, c) \<Rightarrow>
             Return (write_out (log_line fe start end path c) c)))"

definition Logger :: "fmt_env \<Rightarrow> ctx \<Rightarrow> ctx prog" where
  "Logger fe = LoggerWithWriter fe"

definition ErrorLoggerT :: "env \<Rightarrow> ErrorType \<Rightarrow> ctx \<Rightarrow> ctx prog" where
  "ErrorLoggerT env typ c =
     NextThen c (\<lambda>c.
       if \<not> Written (c_writermem c) then
         (let errors = ByType typ (c_Errors c)
          in if 0 < length errors then ctx_JSON env (-1) (Errors_JSON errors) c else Return c)
       else Return c)"

definition ErrorLogger :: "env \<Rightarrow> ctx \<Rightarrow> ctx prog" where
  "ErrorLogger env = ErrorLoggerT env ErrorTypeAny"

section \<open>Recovery\<close>

text \<open>
  The stack trace: \<open>runtime.Caller\<close> gives the frames (program counter, file, line, function), the
  files are read when they can be.
\<close>

record frame =
  r_pc :: string
  r_file :: string
  r_line :: int
  r_func :: "string option"

definition dunno :: string where "dunno = ''???''"

definition source_line :: "string list \<Rightarrow> int \<Rightarrow> string" where
  "source_line ls n =
     (let n = n - 1
      in if n < 0 \<or> int (length ls) \<le> n then dunno else TrimSpace (ls ! nat n))"

text \<open>The bytes after the last slash, and then after the first dot, if there are any.\<close>

definition after_last_slash :: "string \<Rightarrow> string" where
  "after_last_slash s = rev (takeWhile (\<lambda>c. c \<noteq> CHR ''/'') (rev s))"

definition after_dot :: "string \<Rightarrow> string" where
  "after_dot s = (case find_index (CHR ''.'') s of Some i \<Rightarrow> drop (Suc i) s | None \<Rightarrow> s)"

text \<open>\<open>centerDot\<close> is the two bytes C2 B7.\<close>

fun replace_center_dots :: "string \<Rightarrow> string" where
  "replace_center_dots (a # b # s) =
     (if a = CHR 0xC2 \<and> b = CHR 0xB7 then CHR ''.'' # replace_center_dots s
      else a # replace_center_dots (b # s))"
| "replace_center_dots s = s"

definition function_name :: "string option \<Rightarrow> string" where
  "function_name fn =
     (case fn of None \<Rightarrow> dunno
      | Some name \<Rightarrow> replace_center_dots (after_dot (after_last_slash name)))"

fun stack_frames :: "(string \<Rightarrow> string option) \<Rightarrow> string list \<Rightarrow> string \<Rightarrow> frame list \<Rightarrow> string" where
  "stack_frames read ls lastFile [] = []"
| "stack_frames read ls lastFile (f # fs) =
     (let head = r_file f @ '':'' @ int_dec (r_line f) @ '' (0x'' @ r_pc f @ '')'' @ [LF];
          line = (\<lambda>ls. [CHR 0x09] @ function_name (r_func f) @ '': '' @ source_line ls (r_line f) @ [LF])
      in if r_file f \<noteq> lastFile then
           (case read (r_file f) of
              None \<Rightarrow> head @ stack_frames read ls lastFile fs
            | Some data \<Rightarrow>
                let ls = split_on LF data
                in head @ line ls @ stack_frames read ls (r_file f) fs)
         else head @ line ls @ stack_frames read ls lastFile fs)"

definition stack_trace :: "(string \<Rightarrow> string option) \<Rightarrow> nat \<Rightarrow> frame list \<Rightarrow> string" where
  "stack_trace read skip frames = stack_frames read [] [] (drop skip frames)"

text \<open>\<open>trace\<close> is the stack of the panic; the logger writes it to the writer with the message.\<close>

definition RecoveryWithWriter :: "bool \<Rightarrow> string \<Rightarrow> ctx \<Rightarrow> ctx prog" where
  "RecoveryWithWriter has_out trace c =
     Next c (\<lambda>r. case r of
         Done c \<Rightarrow> Return c
       | Panicked c err \<Rightarrow>
           AbortWithStatus 500
             (if has_out then write_out (''Panic recovery -> '' @ err @ [LF] @ trace @ [LF]) c else c))"

definition Recovery :: "string \<Rightarrow> ctx \<Rightarrow> ctx prog" where
  "Recovery trace = RecoveryWithWriter True trace"

section \<open>Lemmas\<close>

lemma find_Some_iff': "(\<exists>x \<in> set xs. P x) \<longleftrightarrow> (\<exists>x. find P xs = Some x \<and> x \<in> set xs \<and> P x)"
  by (metis find_None_iff find_Some_iff nth_mem option.exhaust)

lemma process_pairs_set:
  "process_pairs accounts = Inr ps \<Longrightarrow>
   set ps = (\<lambda>(u, p). \<lparr>a_Value = authorizationHeader u p, a_User = u\<rparr>) ` set accounts \<and>
   (\<forall>(u, p) \<in> set accounts. u \<noteq> [])"
proof (induction accounts arbitrary: ps)
  case (Cons x accounts)
  then show ?case by (cases x) (auto simp: mapG_eq_Inr split: if_splits)
qed simp

lemma authorizationHeader_inj:
  "authorizationHeader u p = authorizationHeader u' p' \<longleftrightarrow> u @ '':'' @ p = u' @ '':'' @ p'"
  by (simp add: authorizationHeader_def)

lemma tidy_Recovery: "tidy q (Recovery trace c) False False"
  by (auto simp: Recovery_def RecoveryWithWriter_def AbortWithStatus_def split: outcome.split)

lemma tidy_Logger: "tidy q (Logger fe c) False False"
  by (auto simp: Logger_def LoggerWithWriter_def NextThen_def Let_def split: outcome.split prod.split)

lemma tidy_auth: "tidy q (auth_handler pairs realm c) False False"
  by (auto simp: auth_handler_def AbortWithStatus_def split: prod.split)

section \<open>Properties of the middleware\<close>


definition sample_request :: request where
  "sample_request = \<lparr>q_Method = ''GET'', q_Path = ''/'', q_RequestURI = ''/'', q_RemoteAddr = ''10.0.0.1:80'',
     q_Header = [''Authorization'' \<mapsto> [''Basic '' @ base64 ''admin:pw'']], q_Query = (\<lambda>_. None),
     q_PostForm = (\<lambda>_. None), q_Multipart = None\<rparr>"

definition sample_config :: config where
  "sample_config = \<lparr>g_RedirectTrailingSlash = True, g_RedirectFixedPath = False,
     g_HandleMethodNotAllowed = False, g_ForwardedByClientIP = True, g_HTMLRender = None\<rparr>"

definition sample_ctx :: ctx where
  "sample_ctx = \<lparr>c_writermem = rw_reset fresh_conn, c_Request = sample_request, c_Params = [],
     c_Keys = None, c_Errors = [], c_Accepted = None, c_config = sample_config,
     c_world = \<lparr>o_out = [], o_log = [], o_clock = [3, 5]\<rparr>\<rparr>"



definition demo_panic :: "string \<Rightarrow> nat \<Rightarrow> ctx \<Rightarrow> ctx prog" where
  "demo_panic trace h c = (if h = 0 then Recovery trace c else Throw c ''boom'')"


text \<open>
  The order of \<open>Default()\<close> puts the logger inside the recovery: a panic passes through the logger
  before it writes its line, so a request that panics leaves no line in the access log.
\<close>

lemma panic_not_logged:
  assumes "sem lg = Logger fe" "onion sem hs False (snd (now c)) = (Panicked d m, a)"
  shows "fst (onion sem (lg # hs) False c) = Panicked d m"
  using assms(2)
  by (cases "now c") (simp add: onion_Cons assms(1) Logger_def LoggerWithWriter_def NextThen_def Let_def)

end
