(* ===== verification/PathClean.thy ===== *)
theory PathClean
  imports GoStrings
begin

text \<open>
  The canonical form of a request path (gin's \<open>path.go\<close>). \<open>cleanPath\<close> works in one pass over the
  bytes with a read index, a write index and a buffer that is allocated only once the output
  differs from the input; \<open>clean_spec\<close> is the documented result on the elements of the path.
\<close>

section \<open>The code\<close>

text \<open>A nil buffer is \<open>None\<close>: the bytes written so far are then the first \<open>w\<close> bytes of \<open>p\<close>.\<close>

definition bufApp :: "string option \<Rightarrow> string \<Rightarrow> nat \<Rightarrow> char \<Rightarrow> string option go" where
  "bufApp buf s w c =
     (case buf of
        None \<Rightarrow>
          if w < length s then
            (if s ! w = c then Inr None
             else Inr (Some ((take w s @ replicate (length s - w) (CHR 0x00))[w := c])))
          else Inl index_panic
      | Some b \<Rightarrow> if w < length b then Inr (Some (b[w := c])) else Inl index_panic)"

text \<open>The inner loop that copies an element, and the one that goes back to the last slash.\<close>

function copy_elem :: "string \<Rightarrow> string option \<Rightarrow> nat \<Rightarrow> nat \<Rightarrow> (string option \<times> nat \<times> nat) go" where
  "copy_elem p buf r w =
     (if r < length p \<and> p ! r \<noteq> CHR ''/'' then
        bindG (bufApp buf p w (p ! r)) (\<lambda>buf. copy_elem p buf (Suc r) (Suc w))
      else Inr (buf, r, w))"
  by pat_completeness auto
termination by (relation "measure (\<lambda>(p, _, r, _). length p - r)") auto

declare copy_elem.simps [simp del]

fun back_to_slash :: "string \<Rightarrow> nat \<Rightarrow> nat" where
  "back_to_slash b 0 = 0"
| "back_to_slash b (Suc w) = (if 0 < w \<and> b ! Suc w \<noteq> CHR ''/'' then back_to_slash b w else Suc w)"

lemma copy_elem_progress: "copy_elem p buf r w = Inr (buf', r', w') \<Longrightarrow> r \<le> r'"
proof (induction p buf r w rule: copy_elem.induct)
  case (1 p buf r w)
  show ?case
  proof (cases "r < length p \<and> p ! r \<noteq> CHR ''/''")
    case True
    with "1.prems" obtain b where "bufApp buf p w (p ! r) = Inr b" "copy_elem p b (Suc r) (Suc w) = Inr (buf', r', w')"
      by (subst (asm) copy_elem.simps) (auto simp: bindG_eq_Inr)
    with "1.IH" [OF True] show ?thesis by auto
  qed (use "1.prems" in \<open>subst (asm) copy_elem.simps, auto\<close>)
qed

lemma copy_elem_step: "r < length p \<Longrightarrow> p ! r \<noteq> CHR ''/'' \<Longrightarrow> copy_elem p buf r w = Inr (buf', r', w') \<Longrightarrow> r < r'"
  using copy_elem_progress [of p _ "Suc r" "Suc w"]
  by (subst (asm) copy_elem.simps) (auto simp: bindG_eq_Inr dest!: copy_elem_progress)

text \<open>The main loop: the indices tested are in range, because \<open>r + 1 = n\<close> is tested first.\<close>

function clean_loop :: "string \<Rightarrow> string option \<Rightarrow> nat \<Rightarrow> nat \<Rightarrow> bool \<Rightarrow> (string option \<times> nat \<times> bool) go" where
  "clean_loop p buf r w trailing =
     (if length p \<le> r then Inr (buf, w, trailing)
      else if p ! r = CHR ''/'' then clean_loop p buf (r + 1) w trailing
      else if p ! r = CHR ''.'' \<and> r + 1 = length p then clean_loop p buf (r + 1) w True
      else if p ! r = CHR ''.'' \<and> p ! (r + 1) = CHR ''/'' then clean_loop p buf (r + 1) w trailing
      else if p ! r = CHR ''.'' \<and> p ! (r + 1) = CHR ''.'' \<and> (r + 2 = length p \<or> p ! (r + 2) = CHR ''/'') then
        clean_loop p buf (r + 2)
          (if 1 < w then back_to_slash (case buf of None \<Rightarrow> p | Some b \<Rightarrow> b) (w - 1) else w) trailing
      else
        bindG (if 1 < w then mapG (\<lambda>b. (b, w + 1)) (bufApp buf p w (CHR ''/'')) else Inr (buf, w)) (\<lambda>(buf1, w1).
        bindG (copy_elem p buf1 r w1) (\<lambda>(buf2, r2, w2).
          clean_loop p buf2 r2 w2 trailing)))"
  by pat_completeness auto
termination
proof (relation "measure (\<lambda>(p, _, r, _, _). length p - r)", goal_cases)
  case (6 p buf r w trailing bw buf1 w1 br buf2 rw r2 w2)
  then have "r < r2" by (intro copy_elem_step [of r p buf1 w1 buf2 r2 w2]) auto
  with 6 show ?case by simp
qed auto

declare clean_loop.simps [simp del]

definition cleanPath :: "string \<Rightarrow> string go" where
  "cleanPath p =
     (if p = [] then Inr ''/''
      else
        let n = length p;
            rooted = (p ! 0 = CHR ''/'');
            r = (if rooted then 1 else 0);
            buf = (if rooted then None else Some (CHR ''/'' # replicate n (CHR 0x00)));
            trailing = (2 < n \<and> p ! (n - 1) = CHR ''/'')
        in bindG (clean_loop p buf r 1 trailing) (\<lambda>(buf, w, trailing).
           bindG (if trailing \<and> 1 < w then mapG (\<lambda>b. (b, w + 1)) (bufApp buf p w (CHR ''/''))
                  else Inr (buf, w)) (\<lambda>(buf, w).
             (case buf of None \<Rightarrow> if w \<le> n then Inr (take w p) else Inl slice_panic
              | Some b \<Rightarrow> if w \<le> length b then Inr (take w b) else Inl slice_panic))))"

section \<open>The documented result\<close>

definition step_elem :: "string list \<Rightarrow> string \<Rightarrow> string list" where
  "step_elem st e =
     (if e = [] \<or> e = ''.'' then st else if e = ''..'' then butlast st else st @ [e])"

definition render :: "string list \<Rightarrow> string" where
  "render st = CHR ''/'' # join_with (CHR ''/'') st"

definition elements :: "string \<Rightarrow> string list" where
  "elements p = split_on (CHR ''/'') p"

definition keeps_slash :: "string \<Rightarrow> bool" where
  "keeps_slash p \<longleftrightarrow> 2 < length p \<and> last p = CHR ''/'' \<or> last (elements p) = ''.''"

definition clean_spec :: "string \<Rightarrow> string" where
  "clean_spec p =
     (let st = foldl step_elem [] (elements p)
      in if st \<noteq> [] \<and> keeps_slash p then render st @ ''/'' else render st)"

section \<open>The code computes the documented result\<close>

definition rooted :: "string \<Rightarrow> bool" where
  "rooted p \<longleftrightarrow> p \<noteq> [] \<and> hd p = CHR ''/''"

definition room :: "string \<Rightarrow> nat" where
  "room p = (if rooted p then 0 else 1)"

definition contents :: "string \<Rightarrow> string option \<Rightarrow> string" where
  "contents p buf = (case buf of None \<Rightarrow> p | Some b \<Rightarrow> b)"

definition buf_ok :: "string \<Rightarrow> string option \<Rightarrow> bool" where
  "buf_ok p buf \<longleftrightarrow> (buf = None \<longrightarrow> rooted p) \<and> length (contents p buf) = length p + room p"

lemma bufApp_ok:
  assumes "buf_ok p buf" "w < length p + room p"
  obtains buf' where "bufApp buf p w c = Inr buf'" "buf_ok p buf'"
    "take (Suc w) (contents p buf') = take w (contents p buf) @ [c]"
proof (cases buf)
  case None
  with assms have r: "rooted p" "room p = 0" by (auto simp: buf_ok_def room_def)
  show thesis
  proof (cases "p ! w = c")
    case True
    with None assms r that [of None] show thesis
      by (simp add: bufApp_def contents_def take_Suc_conv_app_nth)
  next
    case False
    let ?b = "(take w p @ replicate (length p - w) (CHR 0x00))[w := c]"
    have "take (Suc w) ?b = take w p @ [c]"
      using assms(2) r by (simp add: list_update_append take_Suc_conv_app_nth nth_append)
    with None False assms r that [of "Some ?b"] show thesis
      by (simp add: bufApp_def contents_def buf_ok_def)
  qed
next
  case (Some b)
  with assms that [of "Some (b[w := c])"] show thesis
    by (simp add: bufApp_def contents_def buf_ok_def take_Suc_conv_app_nth)
qed

lemma copy_elem_ok:
  assumes "drop r p = e @ rest" "CHR ''/'' \<notin> set e" "rest = [] \<or> hd rest = CHR ''/''"
    "buf_ok p buf" "w \<le> r + room p"
  obtains buf' where "copy_elem p buf r w = Inr (buf', r + length e, w + length e)" "buf_ok p buf'"
    "take (w + length e) (contents p buf') = take w (contents p buf) @ e"
  using assms
proof (induction e arbitrary: r w buf thesis)
  case Nil
  have "\<not> (r < length p \<and> p ! r \<noteq> CHR ''/'')"
  proof
    assume a: "r < length p \<and> p ! r \<noteq> CHR ''/''"
    then have "hd (drop r p) = p ! r" "drop r p \<noteq> []" by (simp_all add: hd_drop_conv_nth)
    with Nil.prems(2,4) a show False by auto
  qed
  then have "copy_elem p buf r w = Inr (buf, r, w)" by (simp only: copy_elem.simps [of p buf r w] if_False)
  with Nil.prems show ?case by simp
next
  case (Cons c e)
  from Cons.prems(2) have "drop r p \<noteq> []" by simp
  then have r: "r < length p" by simp
  then have c: "p ! r = c" "drop (Suc r) p = e @ rest"
    using Cons.prems(2) by (simp_all add: Cons_nth_drop_Suc [symmetric])
  from r Cons.prems(6) have "w < length p + room p" by simp
  from bufApp_ok [OF Cons.prems(5) this, of c] obtain b where
    b: "bufApp buf p w c = Inr b" "buf_ok p b" "take (Suc w) (contents p b) = take w (contents p buf) @ [c]" .
  obtain b' where b': "copy_elem p b (Suc r) (Suc w) = Inr (b', Suc r + length e, Suc w + length e)" "buf_ok p b'"
    "take (Suc w + length e) (contents p b') = take (Suc w) (contents p b) @ e"
    using Cons.IH [OF _ c(2) _ Cons.prems(4) b(2), of "Suc w"] Cons.prems by auto
  have "copy_elem p buf r w = Inr (b', Suc r + length e, Suc w + length e)"
    using b b' r c Cons.prems(3) by (auto simp: copy_elem.simps [of p buf r w])
  with Cons.prems(1) [of b'] b b' show ?case by simp
qed

lemma back_to_slash_ok:
  assumes "b = R @ CHR ''/'' # e @ z" "CHR ''/'' \<notin> set e" "1 < length R" "j \<le> length e"
  shows "back_to_slash b (length R + j) = length R"
  using assms(4)
proof (induction j)
  case 0
  from assms(3) obtain k where "length R = Suc k" by (cases R) auto
  moreover have "b ! length R = CHR ''/''" using assms(1) by (simp add: nth_append)
  ultimately show ?case by simp
next
  case (Suc j)
  then have "b ! Suc (length R + j) = e ! j" using assms(1) by (simp add: nth_append)
  with Suc assms(2,3) show ?case using nth_mem [of j e] by (auto simp del: nth_mem)
qed

lemma back_to_root_ok:
  assumes "b = CHR ''/'' # e @ z" "CHR ''/'' \<notin> set e" "j < length e"
  shows "back_to_slash b (Suc j) = 1"
  using assms(3)
proof (induction j)
  case (Suc j)
  then have "b ! Suc (Suc j) = e ! Suc j" using assms(1) by (simp add: nth_append)
  with Suc assms(2) show ?case using nth_mem [of "Suc j" e] by (auto simp del: nth_mem)
qed simp

lemma render_simps [simp]:
  "render [] = ''/''"
  "render [e] = CHR ''/'' # e"
  "st \<noteq> [] \<Longrightarrow> render (st @ [e]) = render st @ CHR ''/'' # e"
  by (simp_all add: render_def join_with_snoc)

definition good_elems :: "string list \<Rightarrow> bool" where
  "good_elems st \<longleftrightarrow> (\<forall>e \<in> set st. e \<noteq> [] \<and> CHR ''/'' \<notin> set e \<and> e \<noteq> ''.'' \<and> e \<noteq> ''..'')"

lemma length_render: "good_elems st \<Longrightarrow> st \<noteq> [] \<Longrightarrow> 1 < length (render st)"
  by (cases st rule: rev_cases; cases "butlast st = []") (auto simp: good_elems_def render_def join_with_snoc neq_Nil_conv)

lemma good_elems_step:
  "good_elems st \<Longrightarrow> CHR ''/'' \<notin> set e \<Longrightarrow> good_elems (step_elem st e)"
  by (auto simp: good_elems_def step_elem_def dest: in_set_butlastD)

text \<open>The first element of a rest of the path.\<close>

lemma elements_cut:
  assumes "CHR ''/'' \<notin> set e" "rest = [] \<or> hd rest = CHR ''/''"
  shows "foldl step_elem st (elements (e @ rest)) = foldl step_elem (step_elem st e) (elements rest)"
    "last (elements (e @ rest)) = (if rest = [] then e else last (elements rest))"
  using assms by (cases rest; simp add: elements_def split_on_free split_on_append step_elem_def)+

lemma elements_Nil [simp]: "elements [] = [[]]"
  by (simp add: elements_def)

lemma elements_slash [simp]: "elements (CHR ''/'' # q) = [] # elements q"
  by (simp add: elements_def)

lemma first_element:
  obtains e rest where "q = e @ rest" "CHR ''/'' \<notin> set e" "rest = [] \<or> hd rest = CHR ''/''"
proof -
  let ?P = "\<lambda>c. c \<noteq> CHR ''/''"
  have "dropWhile ?P q = [] \<or> hd (dropWhile ?P q) = CHR ''/''" by (induction q) auto
  with that [of "takeWhile ?P q" "dropWhile ?P q"] show thesis by (auto dest: set_takeWhileD)
qed

text \<open>Going back over the last element.\<close>

lemma backtrack_ok:
  assumes "good_elems st" "w = length (render st)" "take w c = render st" "1 < w"
  shows "back_to_slash c (w - 1) = length (render (butlast st))" "take (length (render (butlast st))) c = render (butlast st)"
proof -
  from assms(2,4) have "st \<noteq> []" by auto
  then obtain st' e where st: "st = st' @ [e]" by (metis rev_exhaust)
  then have e: "e \<noteq> []" "CHR ''/'' \<notin> set e" and g: "good_elems st'" using assms(1) by (auto simp: good_elems_def)
  have c: "c = render st @ drop w c" using assms(3) by (metis append_take_drop_id)
  show "back_to_slash c (w - 1) = length (render (butlast st))"
  proof (cases "st' = []")
    case True
    from e(1) obtain k where "length e = Suc k" by (cases e) auto
    with True st assms(2) c back_to_root_ok [of c e "drop w c" k] e(2) show ?thesis by simp
  next
    case False
    with st c have "c = render st' @ CHR ''/'' # e @ drop w c" by simp
    from back_to_slash_ok [OF this e(2) length_render [OF g False] order_refl] False st assms(2)
    show ?thesis by simp
  qed
  show "take (length (render (butlast st))) c = render (butlast st)"
    by (subst c) (cases "st' = []"; simp add: st)
qed

text \<open>One round of the main loop, by the element at the read index.\<close>

lemma drop_nth:
  assumes "drop r p = q"
  shows "length p - r = length q" "i < length q \<Longrightarrow> p ! (r + i) = q ! i"
  using assms by (metis length_drop, metis nth_drop length_drop nat_le_linear drop_all length_0_conv less_nat_zero_code list.size(3))

lemma loop_end: "length p \<le> r \<Longrightarrow> clean_loop p buf r w t = Inr (buf, w, t)"
  by (simp add: clean_loop.simps)

lemma loop_slash:
  assumes "drop r p = CHR ''/'' # q"
  shows "clean_loop p buf r w t = clean_loop p buf (Suc r) w t"
proof -
  have "\<not> length p \<le> r" "p ! r = CHR ''/''"
    using drop_nth [OF assms] drop_nth(2) [OF assms, of 0] by simp_all
  then show ?thesis by (simp add: clean_loop.simps [of p buf r w t])
qed

lemma loop_dot:
  assumes "drop r p = ''.'' @ rest" "rest = [] \<or> hd rest = CHR ''/''"
  shows "clean_loop p buf r w t = clean_loop p buf (Suc r) w (t \<or> rest = [])"
proof -
  note n = drop_nth [OF assms(1)]
  have r: "length p = Suc (r + length rest)" "p ! r = CHR ''.''" using n(1) n(2) [of 0] by simp_all
  show ?thesis
  proof (cases rest)
    case (Cons x q)
    with assms(2) n(2) [of 1] have "p ! Suc r = CHR ''/''" by simp
    with r Cons show ?thesis by (simp add: clean_loop.simps [of p buf r w t])
  qed (use r in \<open>simp add: clean_loop.simps [of p buf r w t]\<close>)
qed

lemma loop_dotdot:
  assumes "drop r p = ''..'' @ rest" "rest = [] \<or> hd rest = CHR ''/''"
  shows "clean_loop p buf r w t =
    clean_loop p buf (r + 2) (if 1 < w then back_to_slash (contents p buf) (w - 1) else w) t"
proof -
  note n = drop_nth [OF assms(1)]
  have r: "length p = r + 2 + length rest" "p ! r = CHR ''.''" "p ! Suc r = CHR ''.''"
    using n(1) n(2) [of 0] n(2) [of 1] by simp_all
  have "rest = [] \<or> p ! (r + 2) = CHR ''/''"
    using assms(2) n(2) [of 2] by (cases rest) simp_all
  with r show ?thesis by (simp add: clean_loop.simps [of p buf r w t] contents_def)
qed

lemma loop_elem:
  assumes "drop r p = e @ rest" "CHR ''/'' \<notin> set e" "rest = [] \<or> hd rest = CHR ''/''"
    "e \<noteq> []" "e \<noteq> ''.''" "e \<noteq> ''..''"
  shows "clean_loop p buf r w t =
    bindG (if 1 < w then mapG (\<lambda>b. (b, w + 1)) (bufApp buf p w (CHR ''/'')) else Inr (buf, w)) (\<lambda>(buf1, w1).
    bindG (copy_elem p buf1 r w1) (\<lambda>(buf2, r2, w2). clean_loop p buf2 r2 w2 t))"
proof -
  note n = drop_nth [OF assms(1)]
  have len: "length p = r + length e + length rest" using n(1) assms(1,4) by (cases "r < length p") auto
  obtain a e' where e: "e = a # e'" using assms(4) by (cases e) auto
  have a: "p ! r = a" "a \<noteq> CHR ''/''" using n(2) [of 0] e assms(2) by auto
  have 1: "\<not> (a = CHR ''.'' \<and> r + 1 = length p)" using e len assms(5) by auto
  have 2: "\<not> (a = CHR ''.'' \<and> p ! (r + 1) = CHR ''/'')"
    using e assms(2,5) n(2) [of 1] by (cases e') auto
  have 3: "\<not> (a = CHR ''.'' \<and> p ! (r + 1) = CHR ''.'' \<and> (r + 2 = length p \<or> p ! (r + 2) = CHR ''/''))"
  proof (cases e')
    case Nil
    with 1 len e assms(3) n(2) [of 1] show ?thesis by (cases rest) auto
  next
    case (Cons b e'')
    with e assms(2,6) n(2) [of 1] n(2) [of 2] len show ?thesis by (cases e'') auto
  qed
  from len e have "\<not> length p \<le> r" by simp
  then show ?thesis
    using 1 2 3 a by (simp only: clean_loop.simps [of p buf r w t] if_False simp_thms)
qed

text \<open>
  The loop at position \<open>r\<close> of the path, when the elements \<open>st\<close> have been written to the first \<open>w\<close> bytes of
  the buffer; and what the loop gives from there.
\<close>

definition loop_inv :: "string \<Rightarrow> string option \<Rightarrow> nat \<Rightarrow> nat \<Rightarrow> string list \<Rightarrow> bool" where
  "loop_inv p buf r w st \<longleftrightarrow> buf_ok p buf \<and> good_elems st \<and> w = length (render st) \<and>
     take w (contents p buf) = render st \<and> w \<le> r + room p \<and> r \<le> length p"

definition loop_result :: "string \<Rightarrow> nat \<Rightarrow> string list \<Rightarrow> bool \<Rightarrow> (string option \<times> nat \<times> bool) go \<Rightarrow> bool" where
  "loop_result p r st t res \<longleftrightarrow>
     (\<exists>buf w. res = Inr (buf, w, t \<or> last (elements (drop r p)) = ''.'') \<and>
        loop_inv p buf (length p) w (foldl step_elem st (elements (drop r p))) \<and>
        (r < length p \<longrightarrow> last (elements (drop r p)) \<in> {[], ''.''} \<longrightarrow> w = 1 \<or> w < length p + room p))"

text \<open>A slash is skipped.\<close>

lemma result_slash:
  assumes inv: "loop_inv p buf r w st" and z: "drop r p = CHR ''/'' # z"
    and IH: "loop_result p (Suc r) st t (clean_loop p buf (Suc r) w t)"
  shows "loop_result p r st t (clean_loop p buf r w t)"
proof -
  have lt: "r < length p" using z by (metis drop_all list.distinct(1) not_le)
  have dz: "drop (Suc r) p = z" using z by (metis drop_Suc list.sel(3) tl_drop)
  have el: "elements (drop r p) = [] # elements z" "last ([] # elements z) = last (elements z)"
    by (simp_all add: z) (simp add: elements_def)
  have fo: "foldl step_elem st ([] # elements z) = foldl step_elem st (elements z)" by (simp add: step_elem_def)
  from IH obtain buf' w' where r: "clean_loop p buf (Suc r) w t = Inr (buf', w', t \<or> last (elements z) = ''.'')"
    "loop_inv p buf' (length p) w' (foldl step_elem st (elements z))"
    "Suc r < length p \<longrightarrow> last (elements z) \<in> {[], ''.''} \<longrightarrow> w' = 1 \<or> w' < length p + room p"
    unfolding loop_result_def dz by blast
  moreover have "w' < length p + room p" if "\<not> Suc r < length p"
  proof -
    from that lt have "z = []" using dz by simp
    then have "w' = w" using r(2) inv by (simp add: loop_inv_def step_elem_def)
    with lt inv show ?thesis by (simp add: loop_inv_def)
  qed
  ultimately show ?thesis
    unfolding loop_result_def el fo loop_slash [OF z] by (intro exI [of _ buf'] exI [of _ w']) auto
qed

text \<open>An element is dealt with: the position moves behind it, and the buffer holds the elements with it.\<close>

definition element_done :: "string \<Rightarrow> string option \<Rightarrow> nat \<Rightarrow> nat \<Rightarrow> string list \<Rightarrow> bool \<Rightarrow> string \<Rightarrow> bool" where
  "element_done p buf r w st t e \<longleftrightarrow>
     (\<exists>b. clean_loop p buf r w t =
          clean_loop p b (r + length e) (length (render (step_elem st e))) (t \<or> drop (r + length e) p = [] \<and> e = ''.'') \<and>
        loop_inv p b (r + length e) (length (render (step_elem st e))) (step_elem st e))"

lemma done_dot:
  assumes inv: "loop_inv p buf r w st" and q: "drop r p = ''.'' @ rest" and rest: "rest = [] \<or> hd rest = CHR ''/''"
  shows "element_done p buf r w st t ''.''"
proof -
  have "drop (Suc r) p = rest" using q by (metis append_Cons append_Nil drop_Suc list.sel(3) tl_drop)
  moreover have "Suc r \<le> length p" using q drop_nth(1) [OF q] by simp
  ultimately show ?thesis
    using inv loop_dot [OF q rest, of buf w t]
    by (auto simp: element_done_def loop_inv_def step_elem_def intro!: exI [of _ buf])
qed

lemma done_dotdot:
  assumes inv: "loop_inv p buf r w st" and q: "drop r p = ''..'' @ rest" and rest: "rest = [] \<or> hd rest = CHR ''/''"
  shows "element_done p buf r w st t ''..''"
proof -
  have len: "r + 2 \<le> length p" using drop_nth(1) [OF q] by simp
  have st1: "step_elem st ''..'' = butlast st" by (simp add: step_elem_def)
  have good: "good_elems (butlast st)" using good_elems_step [of st "''..''"] inv by (simp add: loop_inv_def st1)
  have "clean_loop p buf r w t = clean_loop p buf (r + 2) (length (render (butlast st))) t \<and>
    take (length (render (butlast st))) (contents p buf) = render (butlast st) \<and> length (render (butlast st)) \<le> r + room p"
  proof (cases "1 < w")
    case True
    have "length (render (butlast st)) \<le> length (render st)"
      by (cases st rule: rev_cases; cases "butlast st = []") auto
    moreover from inv have i: "good_elems st" "w = length (render st)" "take w (contents p buf) = render st" "w \<le> r + room p"
      by (auto simp: loop_inv_def)
    ultimately show ?thesis
      using backtrack_ok [OF i(1-3) True] i(2,4) True loop_dotdot [OF q rest, of buf w t] by simp
  next
    case False
    with inv have "st = []" using length_render [of st] by (auto simp: loop_inv_def)
    with False inv loop_dotdot [OF q rest, of buf w t] show ?thesis by (auto simp: loop_inv_def)
  qed
  with inv len good show ?thesis
    unfolding element_done_def st1 by (intro exI [of _ buf]) (simp add: loop_inv_def)
qed

text \<open>The slash before an element.\<close>

lemma slash_written:
  assumes "loop_inv p buf r w st" "w = 1 \<or> w < r + room p" "e \<noteq> []"
  obtains b1 w1 where "(if 1 < w then mapG (\<lambda>b. (b, w + 1)) (bufApp buf p w (CHR ''/'')) else Inr (buf, w)) = Inr (b1, w1)"
    "buf_ok p b1" "take w1 (contents p b1) @ e = render (st @ [e])" "w1 + length e = length (render (st @ [e]))"
    "w1 \<le> r + room p"
proof (cases "1 < w")
  case True
  with assms have "st \<noteq> []" "w < r + room p" "w < length p + room p" by (auto simp: loop_inv_def)
  moreover obtain b where "bufApp buf p w (CHR ''/'') = Inr b" "buf_ok p b"
    "take (Suc w) (contents p b) = take w (contents p buf) @ ''/''"
    using bufApp_ok [OF _ \<open>w < length p + room p\<close>, of buf "CHR ''/''"] assms(1) by (auto simp: loop_inv_def)
  ultimately show thesis using that [of b "Suc w"] True assms(1) by (auto simp: loop_inv_def)
next
  case False
  then have "st = []" using length_render [of st] assms(1) by (auto simp: loop_inv_def)
  with False that [of buf w] assms(1) show thesis by (auto simp: loop_inv_def)
qed

lemma done_elem:
  assumes inv: "loop_inv p buf r w st" "w = 1 \<or> w < r + room p"
    and q: "drop r p = e @ rest" "CHR ''/'' \<notin> set e" "rest = [] \<or> hd rest = CHR ''/''"
    and e: "e \<noteq> []" "e \<noteq> ''.''" "e \<noteq> ''..''"
  shows "element_done p buf r w st t e"
proof -
  have st1: "step_elem st e = st @ [e]" using e by (simp add: step_elem_def)
  have len: "r + length e \<le> length p" using inv(1) arg_cong [OF q(1), of length] by (auto simp: loop_inv_def)
  have good: "good_elems (st @ [e])" using good_elems_step [OF _ q(2), of st] inv(1) by (simp add: loop_inv_def st1)
  obtain b1 w1 where b1: "(if 1 < w then mapG (\<lambda>b. (b, w + 1)) (bufApp buf p w (CHR ''/'')) else Inr (buf, w)) = Inr (b1, w1)"
    "buf_ok p b1" "take w1 (contents p b1) @ e = render (st @ [e])" "w1 + length e = length (render (st @ [e]))"
    "w1 \<le> r + room p"
    using slash_written [OF inv e(1)] by blast
  obtain b2 where b2: "copy_elem p b1 r w1 = Inr (b2, r + length e, w1 + length e)" "buf_ok p b2"
    "take (w1 + length e) (contents p b2) = take w1 (contents p b1) @ e"
    using copy_elem_ok [OF q b1(2,5)] by metis
  have "clean_loop p buf r w t = clean_loop p b2 (r + length e) (length (render (st @ [e]))) t"
    using loop_elem [OF q e, of buf w t] b1(1,4) b2(1) by simp
  with b1 b2 good len e(2) show ?thesis
    unfolding element_done_def st1 by (intro exI [of _ b2]) (simp add: loop_inv_def)
qed

text \<open>The rest of the path, once the element has been dealt with.\<close>

lemma result_element:
  assumes "loop_inv p buf r w st" "element_done p buf r w st t e"
    and q: "drop r p = e @ rest" "CHR ''/'' \<notin> set e" "rest = [] \<or> hd rest = CHR ''/''" "e \<noteq> []"
    and IH: "\<And>b w' st' t'. loop_inv p b (r + length e) w' st' \<Longrightarrow>
      loop_result p (r + length e) st' t' (clean_loop p b (r + length e) w' t')"
  shows "loop_result p r st t (clean_loop p buf r w t)"
proof -
  let ?st = "step_elem st e"
  have len: "length p = r + length e + length rest" using assms(1) arg_cong [OF q(1), of length] by (auto simp: loop_inv_def)
  have rest: "drop (r + length e) p = rest" by (metis q(1) append_eq_conv_conj drop_drop add.commute)
  note cut = elements_cut [OF q(2,3), folded q(1)]
  from assms(2) obtain b where b: "clean_loop p buf r w t =
      clean_loop p b (r + length e) (length (render ?st)) (t \<or> rest = [] \<and> e = ''.'')"
    "loop_inv p b (r + length e) (length (render ?st)) ?st"
    unfolding element_done_def rest by blast
  from IH [OF b(2), of "t \<or> rest = [] \<and> e = ''.''"] obtain buf' w' where r:
    "clean_loop p b (r + length e) (length (render ?st)) (t \<or> rest = [] \<and> e = ''.'') =
       Inr (buf', w', (t \<or> rest = [] \<and> e = ''.'') \<or> last (elements rest) = ''.'')"
    "loop_inv p buf' (length p) w' (foldl step_elem ?st (elements rest))"
    "r + length e < length p \<longrightarrow> last (elements rest) \<in> {[], ''.''} \<longrightarrow> w' = 1 \<or> w' < length p + room p"
    unfolding loop_result_def rest by blast
  have "w' < length p + room p" if "rest = []" "e = ''.''"
    using that r(2) assms(1) len by (simp add: loop_inv_def step_elem_def)
  with r b(1) cut q(4) len show ?thesis
    unfolding loop_result_def by (cases "rest = []") (auto simp: step_elem_def [of _ "[]"])
qed

lemma clean_loop_ok:
  assumes "loop_inv p buf r w st" "r < length p \<Longrightarrow> p ! r \<noteq> CHR ''/'' \<Longrightarrow> w = 1 \<or> w < r + room p"
  shows "loop_result p r st t (clean_loop p buf r w t)"
  using assms
proof (induction "length p - r" arbitrary: r buf st w t rule: less_induct)
  case less
  obtain e rest where q: "drop r p = e @ rest" "CHR ''/'' \<notin> set e" "rest = [] \<or> hd rest = CHR ''/''"
    by (rule first_element)
  show ?case
  proof (cases "r = length p")
    case True
    with less.prems show ?thesis by (auto simp: loop_end step_elem_def loop_result_def)
  next
    case False
    then have lt: "r < length p" using less.prems(1) by (simp add: loop_inv_def)
    show ?thesis
    proof (cases "e = []")
      case True
      with q lt obtain z where z: "drop r p = CHR ''/'' # z" by (cases rest) auto
      have "loop_inv p buf (Suc r) w st" "w < Suc r + room p" using less.prems(1) lt by (auto simp: loop_inv_def)
      then show ?thesis using lt by (intro result_slash [OF less.prems(1) z] less.hyps) simp_all
    next
      case ne: False
      then have "p ! r \<noteq> CHR ''/''" using q drop_nth(2) [OF q(1), of 0] by (cases e) auto
      with lt less.prems(2) have start: "w = 1 \<or> w < r + room p" by blast
      have el_done: "element_done p buf r w st t e"
        using done_dot [OF less.prems(1), of rest t] done_dotdot [OF less.prems(1), of rest t]
          done_elem [OF less.prems(1) start q ne] q by blast
      have "p ! (r + length e) = CHR ''/''" if "r + length e < length p"
        using that q drop_nth(2) [OF q(1), of "length e"] drop_nth(1) [OF q(1)] by (cases rest) auto
      moreover have "length p - (r + length e) < length p - r" using ne lt by (cases e) simp_all
      ultimately show ?thesis by (intro result_element [OF less.prems(1) el_done q ne] less.hyps) simp_all
    qed
  qed
qed

lemma elements_snoc_slash: "elements (q @ ''/'') = elements q @ [[]]"
  unfolding elements_def
proof (induction q)
  case (Cons c q)
  then show ?case by (cases "split_on (CHR ''/'') q") auto
qed simp

lemma last_slash: "p \<noteq> [] \<Longrightarrow> last p = CHR ''/'' \<Longrightarrow> last (elements p) = []"
  by (metis append_butlast_last_id elements_snoc_slash last_snoc)

lemma good_elems_foldl:
  "good_elems st \<Longrightarrow> \<forall>e \<in> set es. CHR ''/'' \<notin> set e \<Longrightarrow> good_elems (foldl step_elem st es)"
  by (induction es arbitrary: st) (simp_all add: good_elems_step)

lemma good_elems_path: "good_elems (foldl step_elem [] (elements p))"
  by (rule good_elems_foldl) (auto simp: good_elems_def elements_def dest: split_on_elems)

lemma cleanPath_spec_eq: "cleanPath p = Inr (clean_spec p)"
proof (cases "p = []")
  case True
  then show ?thesis by (simp add: cleanPath_def clean_spec_def step_elem_def)
next
  case False
  define r where "r = (if rooted p then 1 else 0 :: nat)"
  define buf where "buf = (if rooted p then None else Some (CHR ''/'' # replicate (length p) (CHR 0x00)))"
  define t where "t = (2 < length p \<and> p ! (length p - 1) = CHR ''/'')"
  let ?st = "foldl step_elem [] (elements p)"
  have p0: "(p ! 0 = CHR ''/'') = rooted p" using False by (simp add: rooted_def hd_conv_nth)
  have el: "foldl step_elem [] (elements (drop r p)) = ?st" "last (elements (drop r p)) = last (elements p)"
  proof -
    have "rooted p \<Longrightarrow> p = CHR ''/'' # drop 1 p" by (cases p) (auto simp: rooted_def)
    then have "rooted p \<Longrightarrow> elements p = [] # elements (drop 1 p)" by (metis elements_slash)
    then show "foldl step_elem [] (elements (drop r p)) = ?st" "last (elements (drop r p)) = last (elements p)"
      by (simp_all add: r_def) (simp_all add: step_elem_def elements_def)
  qed
  have "buf_ok p buf" "take 1 (contents p buf) = render []" "1 \<le> r + room p" "r \<le> length p"
    using False by (auto simp: buf_ok_def buf_def contents_def room_def r_def rooted_def neq_Nil_conv)
  then have "loop_inv p buf r 1 []" by (simp add: loop_inv_def good_elems_def)
  from clean_loop_ok [OF this, of t] obtain buf' w' where
    l: "clean_loop p buf r 1 t = Inr (buf', w', t \<or> last (elements p) = ''.'')" "buf_ok p buf'" "w' = length (render ?st)"
      "take w' (contents p buf') = render ?st" "w' \<le> length p + room p"
      "r < length p \<longrightarrow> last (elements p) \<in> {[], ''.''} \<longrightarrow> w' = 1 \<or> w' < length p + room p"
    by (auto simp: el loop_result_def loop_inv_def)
  have "t \<Longrightarrow> last (elements p) = []" using False last_slash [of p] by (simp add: t_def last_conv_nth)
  moreover have "r < length p" if "1 < w'"
  proof (rule ccontr)
    assume "\<not> r < length p"
    then have "foldl step_elem [] (elements (drop r p)) = []" by (simp add: step_elem_def)
    with that l(3) show False by (simp add: el)
  qed
  ultimately have room: "t \<or> last (elements p) = ''.'' \<Longrightarrow> 1 < w' \<Longrightarrow> w' < length p + room p" using l(6) by auto
  have st: "1 < w' \<longleftrightarrow> ?st \<noteq> []" using l(3) length_render [OF good_elems_path, of p] by auto
  have k: "keeps_slash p \<longleftrightarrow> t \<or> last (elements p) = ''.''"
    using False by (auto simp: keeps_slash_def t_def last_conv_nth)
  have unf: "cleanPath p = bindG (if keeps_slash p \<and> 1 < w' then mapG (\<lambda>b. (b, w' + 1)) (bufApp buf' p w' (CHR ''/''))
                  else Inr (buf', w')) (\<lambda>(buf, w).
             (case buf of None \<Rightarrow> if w \<le> length p then Inr (take w p) else Inl slice_panic
              | Some b \<Rightarrow> if w \<le> length b then Inr (take w b) else Inl slice_panic))"
    using False l(1) unfolding cleanPath_def p0 r_def [symmetric] buf_def [symmetric] Let_def t_def [symmetric] k by simp
  have fin: "(case b of None \<Rightarrow> if w \<le> length p then Inr (take w p) else Inl slice_panic
      | Some b \<Rightarrow> if w \<le> length b then Inr (take w b) else Inl slice_panic) = Inr (take w (contents p b))"
    if "buf_ok p b" "w \<le> length p + room p" for b w
    using that by (cases b) (simp_all add: buf_ok_def contents_def)
  show ?thesis
  proof (cases "keeps_slash p \<and> 1 < w'")
    case True
    then have "w' < length p + room p" using room k by blast
    from bufApp_ok [OF l(2) this, of "CHR ''/''"] obtain b where "bufApp buf' p w' (CHR ''/'') = Inr b" "buf_ok p b"
      "take (Suc w') (contents p b) = take w' (contents p buf') @ ''/''" .
    with True unf fin [of b "Suc w'"] \<open>w' < length p + room p\<close> l(4) st show ?thesis by (simp add: clean_spec_def Let_def)
  next
    case False
    then have "cleanPath p = Inr (take w' (contents p buf'))" unfolding unf if_not_P [OF False] using fin [OF l(2,5)] by simp
    with False l(4) st show ?thesis by (auto simp: clean_spec_def Let_def)
  qed
qed

lemma foldl_good: "good_elems es \<Longrightarrow> foldl step_elem st es = st @ es"
  by (induction es arbitrary: st) (simp_all add: good_elems_def step_elem_def)

lemma render_not_Nil: "render st \<noteq> []"
  by (simp add: render_def)

lemma elements_render:
  assumes "good_elems st" "st \<noteq> []"
  shows "elements (render st) = [] # st" "elements (render st @ ''/'') = [] # st @ [[]]"
proof -
  have "split_on (CHR ''/'') (join_with (CHR ''/'') st) = st"
    using assms by (intro split_join) (auto simp: good_elems_def)
  then show "elements (render st) = [] # st" by (simp add: elements_def render_def)
  then show "elements (render st @ ''/'') = [] # st @ [[]]" by (simp add: elements_snoc_slash)
qed

lemma clean_spec_idem: "clean_spec (clean_spec p) = clean_spec p"
proof -
  let ?st = "foldl step_elem [] (elements p)"
  have g: "good_elems ?st" by (rule good_elems_path)
  show ?thesis
  proof (cases "?st = []")
    case True
    then have "clean_spec p = ''/''" by (simp add: clean_spec_def)
    then show ?thesis by (simp add: clean_spec_def step_elem_def)
  next
    case False
    note er = elements_render [OF g False]
    have f: "foldl step_elem [] ([] # ?st) = ?st" "foldl step_elem [] ([] # ?st @ [[]]) = ?st"
      using foldl_good [OF g, of "[]"] by (simp_all add: step_elem_def)
    have "1 < length (render ?st)" by (rule length_render [OF g False])
    then have k1: "keeps_slash (render ?st @ ''/'')" by (simp add: keeps_slash_def)
    have "last (elements (render ?st)) \<noteq> []" "last (elements (render ?st)) \<noteq> ''.''"
      using False g last_in_set [OF False] unfolding er(1) good_elems_def by (auto simp del: last_in_set)
    then have k2: "\<not> keeps_slash (render ?st)"
      using last_slash [of "render ?st", OF render_not_Nil] by (auto simp: keeps_slash_def)
    show ?thesis using k1 k2 f False er by (auto simp: clean_spec_def Let_def)
  qed
qed

section \<open>The properties of \<open>cleanPath\<close>\<close>

text \<open>
  C6: \<open>cleanPath\<close> never panics (no index of its two buffers is out of range) and returns the
  documented canonical path: the elements with the empty and \<open>.\<close> ones dropped and each \<open>..\<close>
  taking away its predecessor, behind a slash each, with the trailing slash kept.
\<close>

theorem cleanPath_spec: "cleanPath p = Inr (clean_spec p)"
  by (rule cleanPath_spec_eq)

text \<open>
  \<open>cleanPath\<close> is idempotent, so the redirect to the cleaned path is not redirected again.
\<close>

theorem cleanPath_idem: "bindG (cleanPath p) cleanPath = cleanPath p"
  by (simp add: cleanPath_spec_eq clean_spec_idem)

end
