(* ===== verification/Engine.thy ===== *)
theory Engine
  imports Middleware RouteTable PathClean
begin

text \<open>
  The engine (\<open>gin.go\<close>) and the router groups (\<open>routergroup.go\<close>) with the file systems of
  \<open>fs.go\<close>, the mode (\<open>mode.go\<close>) and its messages (\<open>debug.go\<close>): registration of middleware and
  routes, and the dispatch of a request. A group is a value that is handed the engine; the group
  embedded in the engine is a field of it.
\<close>

section \<open>Mode and messages\<close>

datatype gin_mode = Debug | Release | Test

definition mode_name :: "gin_mode \<Rightarrow> string" where
  "mode_name m = (case m of Debug \<Rightarrow> ''debug'' | Release \<Rightarrow> ''release'' | Test \<Rightarrow> ''test'')"

definition SetMode :: "string \<Rightarrow> gin_mode go" where
  "SetMode v =
     (if v = ''debug'' then Inr Debug
      else if v = ''release'' then Inr Release
      else if v = ''test'' then Inr Test
      else Inl (''gin mode unknown: '' @ v))"

text \<open>The initialisation from the environment variable.\<close>

definition init_mode :: "string \<Rightarrow> gin_mode go" where
  "init_mode mode = (if length mode = 0 then SetMode ''debug'' else SetMode mode)"

definition IsDebugging :: "gin_mode \<Rightarrow> bool" where
  "IsDebugging m \<longleftrightarrow> m = Debug"

definition debugPrint :: "gin_mode \<Rightarrow> string \<Rightarrow> string" where
  "debugPrint m text = (if IsDebugging m then ''[GIN-debug] '' @ text else [])"

definition Last :: "'h list \<Rightarrow> 'h option" where
  "Last c = (if 0 < length c then Some (c ! (length c - 1)) else None)"

text \<open>\<open>name\<close> is \<open>nameOfFunction\<close>.\<close>

definition debugPrintRoute :: "gin_mode \<Rightarrow> ('h option \<Rightarrow> string) \<Rightarrow> string \<Rightarrow> string \<Rightarrow> 'h list \<Rightarrow> string" where
  "debugPrintRoute m name httpMethod absolutePath handlers =
     (if IsDebugging m then
        debugPrint m (pad_right 5 httpMethod @ '' '' @ pad_right 25 absolutePath @ '' --> '' @
          name (Last handlers) @ '' ('' @ nat_dec (length handlers) @ '' handlers)'' @ [LF])
      else [])"

definition debugPrintError :: "gin_mode \<Rightarrow> string option \<Rightarrow> string" where
  "debugPrintError m err =
     (case err of Some e \<Rightarrow> debugPrint m (''[ERROR] '' @ e @ [LF]) | None \<Rightarrow> [])"

section \<open>File systems\<close>

datatype file_system = HttpDir string | OnlyFiles string

definition Dir :: "string \<Rightarrow> bool \<Rightarrow> file_system" where
  "Dir root listDirectory = (if listDirectory then HttpDir root else OnlyFiles root)"

text \<open>
  A file opened through \<open>onlyfilesFS\<close> lists no entries. \<open>dir_open\<close> and \<open>dir_entries\<close> are the
  operating system's.
\<close>

datatype 'f opened = Full 'f | Neutered 'f

definition fs_Open :: "(string \<Rightarrow> string \<Rightarrow> string + 'f) \<Rightarrow> file_system \<Rightarrow> string \<Rightarrow> string + 'f opened" where
  "fs_Open dir_open fs name =
     (case fs of
        HttpDir root \<Rightarrow> map_sum id Full (dir_open root name)
      | OnlyFiles root \<Rightarrow> map_sum id Neutered (dir_open root name))"

definition Readdir :: "('f \<Rightarrow> int \<Rightarrow> 'i list) \<Rightarrow> 'f opened \<Rightarrow> int \<Rightarrow> 'i list" where
  "Readdir dir_entries f k = (case f of Full f \<Rightarrow> dir_entries f k | Neutered f \<Rightarrow> [])"

section \<open>Groups and the engine\<close>

record 'h group =
  gr_Handlers :: "'h list"
  gr_basePath :: string
  gr_root :: bool

record 'h engine =
  en_group :: "'h group"
  en_allNoRoute :: "'h list"
  en_allNoMethod :: "'h list"
  en_noRoute :: "'h list"
  en_noMethod :: "'h list"
  en_trees :: "(string \<times> 'h node) list"
  en_config :: config

fun trees_get :: "(string \<times> 'h node) list \<Rightarrow> string \<Rightarrow> 'h node option" where
  "trees_get [] mtd = None"
| "trees_get ((m, root) # trees) mtd = (if m = mtd then Some root else trees_get trees mtd)"

text \<open>The root of a method is a pointer that the tree shares with the caller: the new root is stored.\<close>

fun trees_set :: "(string \<times> 'h node) list \<Rightarrow> string \<Rightarrow> 'h node \<Rightarrow> (string \<times> 'h node) list" where
  "trees_set [] mtd r = [(mtd, r)]"
| "trees_set ((m, root) # trees) mtd r =
     (if m = mtd then (m, r) # trees else (m, root) # trees_set trees mtd r)"

definition New :: "'h engine" where
  "New = \<lparr>en_group = \<lparr>gr_Handlers = [], gr_basePath = ''/'', gr_root = True\<rparr>,
     en_allNoRoute = [], en_allNoMethod = [], en_noRoute = [], en_noMethod = [], en_trees = [],
     en_config = \<lparr>g_RedirectTrailingSlash = True, g_RedirectFixedPath = False,
       g_HandleMethodNotAllowed = False, g_ForwardedByClientIP = True, g_HTMLRender = None\<rparr>\<rparr>"

definition combineHandlers :: "'h group \<Rightarrow> 'h list \<Rightarrow> 'h list go" where
  "combineHandlers gr handlers =
     (if 63 \<le> length (gr_Handlers gr) + length handlers then Inl ''too many handlers''
      else Inr (gr_Handlers gr @ handlers))"

definition calculateAbsolutePath :: "'h group \<Rightarrow> string \<Rightarrow> string go" where
  "calculateAbsolutePath gr relativePath = joinPaths (gr_basePath gr) relativePath"

definition rebuild404Handlers :: "'h engine \<Rightarrow> 'h engine go" where
  "rebuild404Handlers e =
     mapG (\<lambda>hs. e\<lparr>en_allNoRoute := hs\<rparr>) (combineHandlers (en_group e) (en_noRoute e))"

definition rebuild405Handlers :: "'h engine \<Rightarrow> 'h engine go" where
  "rebuild405Handlers e =
     mapG (\<lambda>hs. e\<lparr>en_allNoMethod := hs\<rparr>) (combineHandlers (en_group e) (en_noMethod e))"

definition group_Use :: "'h list \<Rightarrow> 'h group \<Rightarrow> 'h group" where
  "group_Use middlewares gr = gr\<lparr>gr_Handlers := gr_Handlers gr @ middlewares\<rparr>"

definition engine_Use :: "'h list \<Rightarrow> 'h engine \<Rightarrow> 'h engine go" where
  "engine_Use middlewares e =
     bindG (rebuild404Handlers (e\<lparr>en_group := group_Use middlewares (en_group e)\<rparr>)) rebuild405Handlers"

definition NoRoute :: "'h list \<Rightarrow> 'h engine \<Rightarrow> 'h engine go" where
  "NoRoute handlers e = rebuild404Handlers (e\<lparr>en_noRoute := handlers\<rparr>)"

definition NoMethod :: "'h list \<Rightarrow> 'h engine \<Rightarrow> 'h engine go" where
  "NoMethod handlers e = rebuild405Handlers (e\<lparr>en_noMethod := handlers\<rparr>)"

definition Default :: "'h \<Rightarrow> 'h \<Rightarrow> 'h engine go" where
  "Default recovery logger = engine_Use [recovery, logger] New"

definition engine_addRoute :: "string \<Rightarrow> string \<Rightarrow> 'h list \<Rightarrow> 'h engine \<Rightarrow> 'h engine go" where
  "engine_addRoute mtd path handlers e =
     (case path of
        [] \<Rightarrow> Inl index_panic
      | c # _ \<Rightarrow>
          if c \<noteq> CHR ''/'' then Inl (''path must begin with '' @ quoted ''/'')
          else if mtd = [] then Inl ''HTTP method can not be empty''
          else if length handlers = 0 then Inl ''there must be at least one handler''
          else
            let root = (case trees_get (en_trees e) mtd of None \<Rightarrow> new_node | Some r \<Rightarrow> r)
            in mapG (\<lambda>root. e\<lparr>en_trees := trees_set (en_trees e) mtd root\<rparr>)
                 (addRoute path (Some handlers) root))"

definition Group :: "string \<Rightarrow> 'h list \<Rightarrow> 'h group \<Rightarrow> 'h group go" where
  "Group relativePath handlers gr =
     bindG (combineHandlers gr handlers) (\<lambda>hs.
     mapG (\<lambda>p. \<lparr>gr_Handlers = hs, gr_basePath = p, gr_root = False\<rparr>) (calculateAbsolutePath gr relativePath))"

definition group_handle :: "'h group \<Rightarrow> string \<Rightarrow> string \<Rightarrow> 'h list \<Rightarrow> 'h engine \<Rightarrow> 'h engine go" where
  "group_handle gr httpMethod relativePath handlers e =
     bindG (calculateAbsolutePath gr relativePath) (\<lambda>absolutePath.
     bindG (combineHandlers gr handlers) (\<lambda>handlers.
       engine_addRoute httpMethod absolutePath handlers e))"

text \<open>The regular expression \<open>^[A-Z]+$\<close>.\<close>

definition valid_method :: "string \<Rightarrow> bool" where
  "valid_method m \<longleftrightarrow> m \<noteq> [] \<and> list_all (\<lambda>c. 65 \<le> (of_char c :: nat) \<and> (of_char c :: nat) \<le> 90) m"

definition group_Handle :: "'h group \<Rightarrow> string \<Rightarrow> string \<Rightarrow> 'h list \<Rightarrow> 'h engine \<Rightarrow> 'h engine go" where
  "group_Handle gr httpMethod relativePath handlers e =
     (if \<not> valid_method httpMethod then Inl (''http method '' @ httpMethod @ '' is not valid'')
      else group_handle gr httpMethod relativePath handlers e)"

definition group_GET :: "'h group \<Rightarrow> string \<Rightarrow> 'h list \<Rightarrow> 'h engine \<Rightarrow> 'h engine go" where
  "group_GET gr p hs e = group_handle gr ''GET'' p hs e"

definition group_POST :: "'h group \<Rightarrow> string \<Rightarrow> 'h list \<Rightarrow> 'h engine \<Rightarrow> 'h engine go" where
  "group_POST gr p hs e = group_handle gr ''POST'' p hs e"

definition group_DELETE :: "'h group \<Rightarrow> string \<Rightarrow> 'h list \<Rightarrow> 'h engine \<Rightarrow> 'h engine go" where
  "group_DELETE gr p hs e = group_handle gr ''DELETE'' p hs e"

definition group_PATCH :: "'h group \<Rightarrow> string \<Rightarrow> 'h list \<Rightarrow> 'h engine \<Rightarrow> 'h engine go" where
  "group_PATCH gr p hs e = group_handle gr ''PATCH'' p hs e"

definition group_PUT :: "'h group \<Rightarrow> string \<Rightarrow> 'h list \<Rightarrow> 'h engine \<Rightarrow> 'h engine go" where
  "group_PUT gr p hs e = group_handle gr ''PUT'' p hs e"

definition group_OPTIONS :: "'h group \<Rightarrow> string \<Rightarrow> 'h list \<Rightarrow> 'h engine \<Rightarrow> 'h engine go" where
  "group_OPTIONS gr p hs e = group_handle gr ''OPTIONS'' p hs e"

definition group_HEAD :: "'h group \<Rightarrow> string \<Rightarrow> 'h list \<Rightarrow> 'h engine \<Rightarrow> 'h engine go" where
  "group_HEAD gr p hs e = group_handle gr ''HEAD'' p hs e"

definition any_methods :: "string list" where
  "any_methods = [''GET'', ''POST'', ''PUT'', ''PATCH'', ''HEAD'', ''OPTIONS'', ''DELETE'', ''CONNECT'', ''TRACE'']"

definition group_Any :: "'h group \<Rightarrow> string \<Rightarrow> 'h list \<Rightarrow> 'h engine \<Rightarrow> 'h engine go" where
  "group_Any gr p hs e = foldl (\<lambda>r m. bindG r (group_handle gr m p hs)) (Inr e) any_methods"

text \<open>
  The closures that the package itself makes are constructors of the type of handlers; \<open>'u\<close> are
  the handlers of the program.
\<close>

datatype 'u hname =
    HRecovery
  | HLogger
  | HStaticFile string
  | HStatic string file_system
  | HUser 'u

definition has_param :: "string \<Rightarrow> bool" where
  "has_param p \<longleftrightarrow> Contains p '':'' \<or> Contains p ''*''"

definition StaticFile :: "'u hname group \<Rightarrow> string \<Rightarrow> string \<Rightarrow> 'u hname engine \<Rightarrow> 'u hname engine go" where
  "StaticFile gr relativePath filepath e =
     (if has_param relativePath then Inl ''URL parameters can not be used when serving a static file''
      else bindG (group_GET gr relativePath [HStaticFile filepath] e)
             (group_HEAD gr relativePath [HStaticFile filepath]))"

definition createStaticHandler :: "'u hname group \<Rightarrow> string \<Rightarrow> file_system \<Rightarrow> 'u hname go" where
  "createStaticHandler gr relativePath fs =
     mapG (\<lambda>absolutePath. HStatic absolutePath fs) (calculateAbsolutePath gr relativePath)"

definition StaticFS :: "'u hname group \<Rightarrow> string \<Rightarrow> file_system \<Rightarrow> 'u hname engine \<Rightarrow> 'u hname engine go" where
  "StaticFS gr relativePath fs e =
     (if has_param relativePath then Inl ''URL parameters can not be used when serving a static folder''
      else bindG (createStaticHandler gr relativePath fs) (\<lambda>handler.
             let urlPattern = path_Join [relativePath, ''/*filepath'']
             in bindG (group_GET gr urlPattern [handler] e) (group_HEAD gr urlPattern [handler])))"

definition Static_dir :: "'u hname group \<Rightarrow> string \<Rightarrow> string \<Rightarrow> 'u hname engine \<Rightarrow> 'u hname engine go" where
  "Static_dir gr relativePath root e = StaticFS gr relativePath (Dir root False) e"

definition LoadHTMLGlob :: "gin_mode \<Rightarrow> env \<Rightarrow> string \<Rightarrow> 'h engine \<Rightarrow> 'h engine go" where
  "LoadHTMLGlob m env pattern e =
     (if IsDebugging m
      then Inr (e\<lparr>en_config := (en_config e)\<lparr>g_HTMLRender := Some (HTMLDebug [] pattern)\<rparr>\<rparr>)
      else mapG (\<lambda>src. e\<lparr>en_config := (en_config e)\<lparr>g_HTMLRender := Some (HTMLProduction src)\<rparr>\<rparr>)
             (must_parse env (FromGlob pattern)))"

definition LoadHTMLFiles :: "gin_mode \<Rightarrow> env \<Rightarrow> string list \<Rightarrow> 'h engine \<Rightarrow> 'h engine go" where
  "LoadHTMLFiles m env files e =
     (if IsDebugging m
      then Inr (e\<lparr>en_config := (en_config e)\<lparr>g_HTMLRender := Some (HTMLDebug files [])\<rparr>\<rparr>)
      else mapG (\<lambda>src. e\<lparr>en_config := (en_config e)\<lparr>g_HTMLRender := Some (HTMLProduction src)\<rparr>\<rparr>)
             (must_parse env (FromFiles files)))"

text \<open>\<open>Routes\<close>: the registered routes with the name of their last handler.\<close>

fun iterate :: "('h option \<Rightarrow> string) \<Rightarrow> string \<Rightarrow> string \<Rightarrow> 'h node \<Rightarrow> (string \<times> string \<times> string) list" where
  "iterate name path mtd (Node h cs) =
     (let path = path @ n_path h
      in (case n_handlers h of
            Some (x # xs) \<Rightarrow> [(mtd, path, name (Last (x # xs)))]
          | _ \<Rightarrow> []) @
         concat (map (iterate name path mtd) cs))"

definition engine_Routes :: "('h option \<Rightarrow> string) \<Rightarrow> 'h engine \<Rightarrow> (string \<times> string \<times> string) list" where
  "engine_Routes name e = concat (map (\<lambda>(m, root). iterate name [] m root) (en_trees e))"

end
