(* ===== verification/Serve.thy ===== *)
theory Serve
  imports Engine
begin

text \<open>
  The dispatch of a request by the engine (\<open>gin.go\<close>): \<open>ServeHTTP\<close>, \<open>handleHTTPRequest\<close>, the redirects
  and the error pages, and what they answer, given the registered routes.
\<close>

section \<open>The code\<close>

text \<open>
  \<open>url\<close> is \<open>URL.String()\<close> of the request; \<open>sem\<close> the meaning of the handlers; 64 units of fuel are
  enough for every chain that \<open>combineHandlers\<close> makes.
\<close>

definition chain_fuel :: nat where "chain_fuel = 64"

definition run_chain :: "('h \<Rightarrow> ctx \<Rightarrow> ctx prog) \<Rightarrow> 'h list \<Rightarrow> ctx \<Rightarrow> ctx outcome option" where
  "run_chain sem hs c = map_option fst (ctx_Next chain_fuel sem hs (-1) c)"

definition then_ctx :: "ctx outcome option \<Rightarrow> (ctx \<Rightarrow> ctx) \<Rightarrow> ctx outcome option" where
  "then_ctx r f = (case r of Some (Done c) \<Rightarrow> Some (Done (f c)) | other \<Rightarrow> other)"

definition serveError :: "('h \<Rightarrow> ctx \<Rightarrow> ctx prog) \<Rightarrow> 'h list \<Rightarrow> int \<Rightarrow> string \<Rightarrow> ctx \<Rightarrow> ctx outcome option" where
  "serveError sem handlers code defaultMessage c =
     then_ctx (run_chain sem handlers (on_writer (\<lambda>w. w\<lparr>w_status := code\<rparr>) c)) (\<lambda>c.
       if \<not> Written (c_writermem c) then
         (if Status (c_writermem c) = code
          then on_writer (\<lambda>w. snd (Write defaultMessage (set_header ''Content-Type'' ''text/plain'' w))) c
          else on_writer WriteHeaderNow c)
       else c)"

definition redirect_code :: "request \<Rightarrow> int" where
  "redirect_code req = (if q_Method req \<noteq> ''GET'' then 307 else 301)"

definition redirect_to :: "env \<Rightarrow> (request \<Rightarrow> string) \<Rightarrow> string \<Rightarrow> ctx \<Rightarrow> ctx" where
  "redirect_to env url path c =
     (let req = (c_Request c)\<lparr>q_Path := path\<rparr>;
          c = c\<lparr>c_Request := req\<rparr>
      in on_writer (\<lambda>w. WriteHeaderNow (http_Redirect env req (url req) (redirect_code req) w)) c)"

definition toggle_slash :: "string \<Rightarrow> string" where
  "toggle_slash path =
     (if 1 < length path \<and> path ! (length path - 1) = CHR ''/'' then take (length path - 1) path
      else path @ ''/'')"

definition redirectTrailingSlash :: "env \<Rightarrow> (request \<Rightarrow> string) \<Rightarrow> ctx \<Rightarrow> ctx" where
  "redirectTrailingSlash env url c = redirect_to env url (toggle_slash (q_Path (c_Request c))) c"

definition redirectFixedPath :: "env \<Rightarrow> (request \<Rightarrow> string) \<Rightarrow> 'h node \<Rightarrow> bool \<Rightarrow> ctx \<Rightarrow> ctx option go" where
  "redirectFixedPath env url root trailingSlash c =
     bindG (cleanPath (q_Path (c_Request c))) (\<lambda>p.
     mapG (\<lambda>(fixedPath, found). if found then Some (redirect_to env url fixedPath c) else None)
       (findCaseInsensitivePath root p trailingSlash))"

text \<open>Whether another method than that of the request has a handler for the path.\<close>

fun other_method_allows :: "string \<Rightarrow> string \<Rightarrow> (string \<times> 'h node) list \<Rightarrow> bool go" where
  "other_method_allows mtd path [] = Inr False"
| "other_method_allows mtd path ((m, root) # trees) =
     (if m \<noteq> mtd then
        bindG (getValue root path \<lparr>p_elems = [], p_cap = 0\<rparr>) (\<lambda>(hs, _, _).
          if hs \<noteq> None then Inr True else other_method_allows mtd path trees)
      else other_method_allows mtd path trees)"

definition default404Body :: string where "default404Body = ''404 page not found''"
definition default405Body :: string where "default405Body = ''405 method not allowed''"

definition not_found :: "('h \<Rightarrow> ctx \<Rightarrow> ctx prog) \<Rightarrow> 'h engine \<Rightarrow> ctx \<Rightarrow> ctx outcome option" where
  "not_found sem e c =
     (let req = c_Request c in
      case (if g_HandleMethodNotAllowed (en_config e)
            then other_method_allows (q_Method req) (q_Path req) (en_trees e) else Inr False) of
        Inl m \<Rightarrow> Some (Panicked c m)
      | Inr True \<Rightarrow> serveError sem (en_allNoMethod e) 405 default405Body c
      | Inr False \<Rightarrow> serveError sem (en_allNoRoute e) 404 default404Body c)"

definition handleHTTPRequest :: "env \<Rightarrow> (request \<Rightarrow> string) \<Rightarrow> ('h \<Rightarrow> ctx \<Rightarrow> ctx prog) \<Rightarrow> nat \<Rightarrow> 'h engine \<Rightarrow>
    ctx \<Rightarrow> ctx outcome option" where
  "handleHTTPRequest env url sem cap e c =
     (let httpMethod = q_Method (c_Request c);
          path = q_Path (c_Request c)
      in case trees_get (en_trees e) httpMethod of
           None \<Rightarrow> not_found sem e c
         | Some root \<Rightarrow>
             (case getValue root path \<lparr>p_elems = [], p_cap = cap\<rparr> of
                Inl m \<Rightarrow> Some (Panicked c m)
              | Inr (handlers, params, tsr) \<Rightarrow>
                  (case handlers of
                     Some hs \<Rightarrow>
                       then_ctx (run_chain sem hs (c\<lparr>c_Params := p_elems params\<rparr>)) (on_writer WriteHeaderNow)
                   | None \<Rightarrow>
                       if httpMethod \<noteq> ''CONNECT'' \<and> path \<noteq> ''/'' then
                         if tsr \<and> g_RedirectTrailingSlash (en_config e) then
                           Some (Done (redirectTrailingSlash env url c))
                         else if g_RedirectFixedPath (en_config e) then
                           (case redirectFixedPath env url root (g_RedirectFixedPath (en_config e)) c of
                              Inl m \<Rightarrow> Some (Panicked c m)
                            | Inr (Some c) \<Rightarrow> Some (Done c)
                            | Inr None \<Rightarrow> not_found sem e c)
                         else not_found sem e c
                       else not_found sem e c)))"

text \<open>The context comes from the pool and is reset; \<open>cap\<close> is the capacity of its slice of parameters.\<close>

definition new_ctx :: "'h engine \<Rightarrow> conn \<Rightarrow> request \<Rightarrow> world \<Rightarrow> ctx" where
  "new_ctx e k req wd =
     ctx_reset \<lparr>c_writermem = rw_reset k, c_Request = req, c_Params = [], c_Keys = None, c_Errors = [],
       c_Accepted = None, c_config = en_config e, c_world = wd\<rparr>"

definition ServeHTTP :: "env \<Rightarrow> (request \<Rightarrow> string) \<Rightarrow> ('h \<Rightarrow> ctx \<Rightarrow> ctx prog) \<Rightarrow> nat \<Rightarrow> 'h engine \<Rightarrow>
    conn \<Rightarrow> request \<Rightarrow> world \<Rightarrow> ctx outcome option" where
  "ServeHTTP env url sem cap e k req wd = handleHTTPRequest env url sem cap e (new_ctx e k req wd)"

section \<open>The routes of an engine\<close>

definition registered :: "'h engine \<Rightarrow> string \<Rightarrow> (string \<times> 'h list) set" where
  "registered e m = (case trees_get (en_trees e) m of None \<Rightarrow> {} | Some root \<Rightarrow> set (routes root))"

definition chains_ok :: "'h engine \<Rightarrow> bool" where
  "chains_ok e \<longleftrightarrow> (\<forall>m p hs. (p, hs) \<in> registered e m \<longrightarrow> hs \<noteq> [] \<and> length hs \<le> 62) \<and>
     length (en_allNoRoute e) \<le> 62 \<and> length (en_allNoMethod e) \<le> 62"

definition engine_ok :: "'h engine \<Rightarrow> bool" where
  "engine_ok e \<longleftrightarrow>
     (\<forall>m root. trees_get (en_trees e) m = Some root \<longrightarrow> root_ok root) \<and> chains_ok e \<and>
     distinct (map fst (en_trees e)) \<and>
     gr_basePath (en_group e) \<noteq> [] \<and> hd (gr_basePath (en_group e)) = CHR ''/''"

lemma trees_get_set: "trees_get (trees_set trees m r) m' = (if m' = m then Some r else trees_get trees m')"
  by (induction trees m r rule: trees_set.induct) auto

lemma trees_set_methods: "fst ` set (trees_set trees m r) = insert m (fst ` set trees)"
  by (induction trees m r rule: trees_set.induct) auto

lemma trees_set_distinct: "distinct (map fst trees) \<Longrightarrow> distinct (map fst (trees_set trees m r))"
proof (induction trees m r rule: trees_set.induct)
  case (2 m root trees mtd r)
  then show ?case using trees_set_methods [of trees mtd r] by auto
qed simp

lemma engine_addRoute_ok:
  assumes "engine_ok e" "route_pat p" "length hs \<le> 62" "engine_addRoute m p hs e = Inr e'"
  shows "engine_ok e'" "registered e' m' = (if m' = m then insert (p, hs) (registered e m) else registered e m')"
    "p \<notin> fst ` registered e m"
proof -
  define root where "root = (case trees_get (en_trees e) m of None \<Rightarrow> new_node | Some r \<Rightarrow> r)"
  from assms(2,4) obtain r where r: "addRoute p (Some hs) root = Inr r" "hs \<noteq> []"
    "e' = e\<lparr>en_trees := trees_set (en_trees e) m r\<rparr>"
    by (auto simp: engine_addRoute_def root_def mapG_eq_Inr Let_def split: list.splits if_splits)
  have root: "root_ok root" "set (routes root) = registered e m"
    using assms(1) by (auto simp: root_def engine_ok_def registered_def split: option.splits)
  note ins = addRoute_root [OF root(1) assms(2) r(1)]
  show reg: "registered e' m' = (if m' = m then insert (p, hs) (registered e m) else registered e m')" for m'
    using ins(2) root(2) by (simp add: registered_def r(3) trees_get_set)
  show "p \<notin> fst ` registered e m" using ins(3) root(2) by simp
  have "(\<forall>k q gs. (q, gs) \<in> registered e' k \<longrightarrow> gs \<noteq> [] \<and> length gs \<le> 62)"
    using assms(1,3) r(2) by (auto simp: reg engine_ok_def chains_ok_def split: if_splits)
  moreover have "distinct (map fst (en_trees e'))"
    using assms(1) by (simp add: r(3) engine_ok_def trees_set_distinct)
  ultimately show "engine_ok e'"
    using assms(1) ins(1) by (auto simp: engine_ok_def chains_ok_def r(3) trees_get_set split: if_splits)
qed

lemma combineHandlers_Inr:
  "combineHandlers gr hs = Inr gs \<longleftrightarrow> gs = gr_Handlers gr @ hs \<and> length gs \<le> 62"
  by (auto simp: combineHandlers_def)

lemma group_handle_ok:
  assumes "engine_ok e" "calculateAbsolutePath gr rel = Inr p" "route_pat p" "group_handle gr m rel hs e = Inr e'"
  shows "engine_ok e'"
    "registered e' m' = (if m' = m then insert (p, gr_Handlers gr @ hs) (registered e m) else registered e m')"
    "p \<notin> fst ` registered e m"
proof -
  from assms(2,4) obtain gs where gs: "gs = gr_Handlers gr @ hs" "length gs \<le> 62" "engine_addRoute m p gs e = Inr e'"
    by (auto simp: group_handle_def bindG_eq_Inr combineHandlers_Inr)
  note ok = engine_addRoute_ok [OF assms(1,3) gs(2,3)]
  show "engine_ok e'" "p \<notin> fst ` registered e m"
    "registered e' m' = (if m' = m then insert (p, gr_Handlers gr @ hs) (registered e m) else registered e m')"
    using ok(1,3) ok(2) [of m'] gs(1) by simp_all
qed

lemma engine_ok_New: "engine_ok New" "registered New m = {}"
  by (simp_all add: engine_ok_def chains_ok_def registered_def New_def)

lemma engine_Use_ok:
  assumes "engine_ok e" "engine_Use ms e = Inr e'"
  shows "engine_ok e'" "registered e' m = registered e m"
    "gr_Handlers (en_group e') = gr_Handlers (en_group e) @ ms"
    "gr_basePath (en_group e') = gr_basePath (en_group e)" "en_config e' = en_config e"
    "en_allNoRoute e' = gr_Handlers (en_group e) @ ms @ en_noRoute e"
    "en_noRoute e' = en_noRoute e"
  using assms
  by (auto simp: engine_Use_def rebuild404Handlers_def rebuild405Handlers_def bindG_eq_Inr mapG_eq_Inr
      combineHandlers_Inr group_Use_def engine_ok_def chains_ok_def registered_def)

lemma find_in_engine:
  assumes "engine_ok e" "trees_get (en_trees e) m = Some root"
  obtains r q t where "getValue root s \<lparr>p_elems = [], p_cap = cap\<rparr> = Inr (r, q, t)"
    "matches (registered e m) s = (case r of None \<Rightarrow> {} | Some hs \<Rightarrow> {(hs, p_elems q)})"
proof -
  have "root_ok root" "registered e m = set (routes root)"
    using assms by (auto simp: engine_ok_def registered_def)
  from find_route_root [OF this(1), of cap s] obtain r where
    r: "find_route cap root s = Inr r" "matches (set (routes root)) s = (case r of None \<Rightarrow> {} | Some m \<Rightarrow> {m})" .
  then obtain h q t where "getValue root s \<lparr>p_elems = [], p_cap = cap\<rparr> = Inr (h, q, t)"
    "r = map_option (\<lambda>h. (h, p_elems q)) h"
    by (auto simp: find_route_def mapG_eq_Inr)
  with r(2) \<open>registered e m = set (routes root)\<close> show thesis
    by (intro that [of h q t]) (auto split: option.splits)
qed

lemma run_chain_onion:
  assumes "length hs \<le> max_chain q" "\<forall>h \<in> set hs. \<forall>x. tidy q (sem h x) False False"
  shows "run_chain sem hs c = Some (fst (onion sem hs False c))"
proof -
  have "length hs < chain_fuel" using assms(1) by (auto simp: chain_fuel_def max_chain_def split: if_splits)
  from ctx_Next_onion [OF assms this] show ?thesis unfolding run_chain_def by (metis fst_conv option.simps(9))
qed

section \<open>The list of routes\<close>

lemma mem_routes_Node:
  "(p, hs) \<in> set (routes (Node h cs)) \<longleftrightarrow>
     (\<exists>r. p = n_path h @ r \<and> (r = [] \<and> n_handlers h = Some hs \<or> (\<exists>c \<in> set cs. (r, hs) \<in> set (routes c))))"
  by (auto split: option.splits)

lemma iterate_routes:
  "(m', q, l) \<in> set (iterate name path m n) \<longleftrightarrow>
     m' = m \<and> (\<exists>p hs. (p, hs) \<in> set (routes n) \<and> hs \<noteq> [] \<and> q = path @ p \<and> l = name (Last hs))"
proof (induction n arbitrary: path)
  case (Node h cs)
  have own: "z \<in> set (case hs of Some (x # xs) \<Rightarrow> [(m, r, name (Last (x # xs)))] | _ \<Rightarrow> []) \<longleftrightarrow>
      (\<exists>gs. hs = Some gs \<and> gs \<noteq> [] \<and> z = (m, r, name (Last gs)))" for z hs r
    by (auto split: option.splits list.splits) (metis neq_Nil_conv)
  have "(m', q, l) \<in> set (iterate name path m (Node h cs)) \<longleftrightarrow>
      m' = m \<and> ((\<exists>hs. n_handlers h = Some hs \<and> hs \<noteq> [] \<and> q = path @ n_path h \<and> l = name (Last hs)) \<or>
      (\<exists>c \<in> set cs. \<exists>p hs. (p, hs) \<in> set (routes c) \<and> hs \<noteq> [] \<and> q = (path @ n_path h) @ p \<and> l = name (Last hs)))"
  proof -
    have "(m', q, l) \<in> set (concat (map (iterate name r m) cs)) \<longleftrightarrow>
        m' = m \<and> (\<exists>c \<in> set cs. \<exists>p hs. (p, hs) \<in> set (routes c) \<and> hs \<noteq> [] \<and> q = r @ p \<and> l = name (Last hs))" for r
      by (simp add: Node cong: bex_cong)
    then show ?thesis unfolding iterate.simps Let_def set_append Un_iff own by blast
  qed
  also have "\<dots> \<longleftrightarrow> m' = m \<and> (\<exists>p hs. (p, hs) \<in> set (routes (Node h cs)) \<and> hs \<noteq> [] \<and> q = path @ p \<and> l = name (Last hs))"
    unfolding mem_routes_Node append_assoc by blast
  finally show ?case .
qed

lemma trees_get_iff:
  "distinct (map fst trees) \<Longrightarrow> trees_get trees m = Some r \<longleftrightarrow> (m, r) \<in> set trees"
  by (induction trees m rule: trees_get.induct) (auto simp: image_iff)

lemma registered_iff:
  assumes "engine_ok e"
  shows "(p, hs) \<in> registered e m \<longleftrightarrow> (\<exists>r. (m, r) \<in> set (en_trees e) \<and> (p, hs) \<in> set (routes r))"
proof -
  have "trees_get (en_trees e) m = Some r \<longleftrightarrow> (m, r) \<in> set (en_trees e)" for r
    using assms by (intro trees_get_iff) (simp add: engine_ok_def)
  then show ?thesis unfolding registered_def
    by (cases "trees_get (en_trees e) m") (simp_all, metis+)
qed

text \<open>
  \<open>Routes()\<close> lists exactly the registered routes, each with its method, its full path and the
  name of the last handler of its chain.
\<close>

theorem routes_listed:
  assumes "engine_ok e"
  shows "set (engine_Routes name e) = {(m, p, name (Last hs)) | m p hs. (p, hs) \<in> registered e m}"
proof -
  have ne: "hs \<noteq> []" if "(p, hs) \<in> registered e m" for m p hs
    using assms that by (auto simp: engine_ok_def chains_ok_def)
  have "(m, p, l) \<in> set (engine_Routes name e) \<longleftrightarrow>
      (\<exists>hs. (\<exists>r. (m, r) \<in> set (en_trees e) \<and> (p, hs) \<in> set (routes r)) \<and> hs \<noteq> [] \<and> l = name (Last hs))" for m p l
    by (auto simp: engine_Routes_def iterate_routes)
  then have "(m, p, l) \<in> set (engine_Routes name e) \<longleftrightarrow> (\<exists>hs. (p, hs) \<in> registered e m \<and> l = name (Last hs))" for m p l
    using ne registered_iff [OF assms] by metis
  then show ?thesis by auto
qed

definition sample_engine :: "nat engine go" where
  "sample_engine =
     bindG (engine_Use [0] New) (\<lambda>e.
     bindG (group_GET (en_group e) ''/a/:x'' [1] e) (\<lambda>e.
     bindG (Group ''/v1'' [2] (en_group e)) (\<lambda>gr. group_POST gr ''b/'' [3] e)))"

lemma sample_engine_ok:
  obtains e where "sample_engine = Inr e" "engine_ok e" "registered e ''GET'' = {(''/a/:x'', [0, 1])}"
    "registered e ''POST'' = {(''/v1/b/'', [0, 2, 3])}"
    "en_config e = en_config (New :: nat engine)" "en_allNoRoute e = [0]"
proof -
  obtain e1 where e1: "engine_Use [0 :: nat] New = Inr e1"
    by (auto simp: engine_Use_def rebuild404Handlers_def rebuild405Handlers_def combineHandlers_def group_Use_def New_def)
  note u = engine_Use_ok [OF engine_ok_New(1) e1]
  have g1: "gr_Handlers (en_group e1) = [0]" "gr_basePath (en_group e1) = ''/''"
    using u(3,4) by (simp_all add: New_def)
  have a1: "calculateAbsolutePath (en_group e1) ''/a/:x'' = Inr ''/a/:x''"
    unfolding calculateAbsolutePath_def g1 by code_simp
  have t1: "en_trees e1 = []" using e1
    by (auto simp: engine_Use_def rebuild404Handlers_def rebuild405Handlers_def combineHandlers_def group_Use_def New_def)
  have "case addRoute ''/a/:x'' (Some [0 :: nat, 1]) new_node of Inl _ \<Rightarrow> False | Inr _ \<Rightarrow> True" by code_simp
  then obtain r1 where r1: "addRoute ''/a/:x'' (Some [0 :: nat, 1]) new_node = Inr r1" by (auto split: sum.splits)
  define e2 where "e2 = e1\<lparr>en_trees := [(''GET'', r1)]\<rparr>"
  have e2: "group_GET (en_group e1) ''/a/:x'' [1] e1 = Inr e2"
    using r1 by (simp add: group_GET_def group_handle_def a1 combineHandlers_def g1 engine_addRoute_def t1 e2_def)
  have pat: "route_pat ''/a/:x''" "route_pat ''/v1/b/''" by code_simp+
  note h1 = group_handle_ok [OF u(1) a1 pat(1) e2 [unfolded group_GET_def]]
  have g2: "gr_Handlers (en_group e2) = [0]" "gr_basePath (en_group e2) = ''/''" by (simp_all add: e2_def g1)
  have gr: "Group ''/v1'' [2] (en_group e2) = Inr \<lparr>gr_Handlers = [0, 2], gr_basePath = ''/v1'', gr_root = False\<rparr>"
    unfolding Group_def calculateAbsolutePath_def combineHandlers_def g2 by code_simp
  let ?gr = "\<lparr>gr_Handlers = [0, 2], gr_basePath = ''/v1'', gr_root = False\<rparr> :: nat group"
  have a2: "calculateAbsolutePath ?gr ''b/'' = Inr ''/v1/b/''" by code_simp
  have "case addRoute ''/v1/b/'' (Some [0 :: nat, 2, 3]) new_node of Inl _ \<Rightarrow> False | Inr _ \<Rightarrow> True" by code_simp
  then obtain r2 where r2: "addRoute ''/v1/b/'' (Some [0 :: nat, 2, 3]) new_node = Inr r2" by (auto split: sum.splits)
  define e3 where "e3 = e2\<lparr>en_trees := [(''GET'', r1), (''POST'', r2)]\<rparr>"
  have e3: "group_POST ?gr ''b/'' [3] e2 = Inr e3"
    using r2 by (simp add: group_POST_def group_handle_def a2 combineHandlers_def engine_addRoute_def e2_def e3_def)
  note h2 = group_handle_ok [OF h1(1) a2 pat(2) e3 [unfolded group_POST_def]]
  have "sample_engine = Inr e3" unfolding sample_engine_def e1 bindG_simps e2 gr e3 ..
  moreover have "registered e3 ''GET'' = {(''/a/:x'', [0, 1])}" "registered e3 ''POST'' = {(''/v1/b/'', [0, 2, 3])}"
    using h2(2) h1(2) u(2) g1 by (simp_all add: engine_ok_New)
  moreover have "en_config e3 = en_config (New :: nat engine)" "en_allNoRoute e3 = [0]"
    using u(5,6) by (simp_all add: e3_def e2_def New_def)
  ultimately show thesis using that h2(1) by blast
qed

theorem routes_listed_witness:
  "\<exists>e. sample_engine = Inr e \<and>
     (''POST'', ''/v1/b/'', ''x'') \<in> set (engine_Routes (\<lambda>h. if h = Some 3 then ''x'' else ''y'') e)"
proof -
  obtain e where e: "sample_engine = Inr e" "engine_ok e" "registered e ''POST'' = {(''/v1/b/'', [0, 2, 3])}"
    using sample_engine_ok by metis
  have "Last [0, 2, 3 :: nat] = Some 3" by code_simp
  with routes_listed [OF e(2), of "\<lambda>h. if h = Some 3 then ''x'' else ''y''"] e(1,3) show ?thesis by force
qed

section \<open>Dispatch\<close>

lemma new_ctx_simps [simp]:
  "c_Request (new_ctx e k req wd) = req" "c_Params (new_ctx e k req wd) = []"
  "c_writermem (new_ctx e k req wd) = rw_reset k" "c_config (new_ctx e k req wd) = en_config e"
  by (simp_all add: new_ctx_def ctx_reset_def)

lemma serve_match:
  assumes "engine_ok e" "(hs, ps) \<in> matches (registered e (q_Method req)) (q_Path req)"
  shows "ServeHTTP env url sem cap e k req wd =
    then_ctx (run_chain sem hs ((new_ctx e k req wd)\<lparr>c_Params := ps\<rparr>)) (on_writer WriteHeaderNow)"
proof -
  from assms(2) obtain root where root: "trees_get (en_trees e) (q_Method req) = Some root"
    by (auto simp: registered_def split: option.splits)
  from find_in_engine [OF assms(1) root, of "q_Path req" cap] obtain r q t where
    g: "getValue root (q_Path req) \<lparr>p_elems = [], p_cap = cap\<rparr> = Inr (r, q, t)"
    "matches (registered e (q_Method req)) (q_Path req) = (case r of None \<Rightarrow> {} | Some hs \<Rightarrow> {(hs, p_elems q)})" .
  with assms(2) have "r = Some hs" "p_elems q = ps" by (auto split: option.splits)
  with g(1) root show ?thesis by (simp add: ServeHTTP_def handleHTTPRequest_def Let_def)
qed

lemma serve_onion:
  assumes "engine_ok e" "(p, hs) \<in> registered e (q_Method req)" "pmatch p (q_Path req) = Some ps"
    "length hs \<le> max_chain q" "\<forall>h \<in> set hs. \<forall>x. tidy q (sem h x) False False"
  shows "ServeHTTP env url sem cap e k req wd =
    Some (case fst (onion sem hs False ((new_ctx e k req wd)\<lparr>c_Params := ps\<rparr>)) of
            Done c \<Rightarrow> Done (on_writer WriteHeaderNow c)
          | Panicked c m \<Rightarrow> Panicked c m)"
proof -
  have "(hs, ps) \<in> matches (registered e (q_Method req)) (q_Path req)"
    using assms(2,3) by (auto simp: in_matches)
  from serve_match [OF assms(1) this] run_chain_onion [OF assms(4,5)] show ?thesis
    by (auto simp: then_ctx_def split: outcome.split)
qed


text \<open>Handlers to apply the properties to: 0 wraps, the others write their number.\<close>

definition digit_sem :: "nat \<Rightarrow> ctx \<Rightarrow> ctx prog" where
  "digit_sem h c =
     (if h = 0 then NextThen c (\<lambda>c. Return (write_out ''done'' c))
      else Return (on_writer (\<lambda>w. snd (Write (nat_dec h @ ByName (c_Params c) ''x'') w)) c))"

lemma digit_tidy: "tidy q (digit_sem h c) False False"
  by (simp add: digit_sem_def NextThen_def split: outcome.split)

definition get_request :: "string \<Rightarrow> request" where
  "get_request path = \<lparr>q_Method = ''GET'', q_Path = path, q_RequestURI = path, q_RemoteAddr = ''10.0.0.1:80'',
     q_Header = (\<lambda>_. None), q_Query = (\<lambda>_. None), q_PostForm = (\<lambda>_. None), q_Multipart = None\<rparr>"

definition no_world :: world where
  "no_world = \<lparr>o_out = [], o_log = [], o_clock = []\<rparr>"


lemma serve_unmatched:
  assumes "engine_ok e" "matches (registered e (q_Method req)) (q_Path req) = {}"
    "\<not> g_RedirectFixedPath (en_config e)" "\<not> g_HandleMethodNotAllowed (en_config e)"
  shows "ServeHTTP env url sem cap e k req wd =
      serveError sem (en_allNoRoute e) 404 default404Body (new_ctx e k req wd) \<or>
    ServeHTTP env url sem cap e k req wd =
      Some (Done (redirect_to env url (toggle_slash (q_Path req)) (new_ctx e k req wd))) \<and>
    g_RedirectTrailingSlash (en_config e) \<and> q_Method req \<noteq> ''CONNECT'' \<and> q_Path req \<noteq> ''/''"
proof (cases "trees_get (en_trees e) (q_Method req)")
  case None
  then show ?thesis using assms(4) by (simp add: ServeHTTP_def handleHTTPRequest_def not_found_def Let_def)
next
  case (Some root)
  from find_in_engine [OF assms(1) Some, of "q_Path req" cap] obtain r q t where
    g: "getValue root (q_Path req) \<lparr>p_elems = [], p_cap = cap\<rparr> = Inr (r, q, t)"
    "matches (registered e (q_Method req)) (q_Path req) = (case r of None \<Rightarrow> {} | Some hs \<Rightarrow> {(hs, p_elems q)})" .
  with assms(2) have "r = None" by (auto split: option.splits)
  with g(1) Some assms(3,4) show ?thesis
    by (simp add: ServeHTTP_def handleHTTPRequest_def not_found_def Let_def redirectTrailingSlash_def)
qed



section \<open>Every request is answered\<close>

fun out_all :: "('x \<Rightarrow> bool) \<Rightarrow> 'x outcome \<Rightarrow> bool" where
  "out_all P (Done x) = P x"
| "out_all P (Panicked x m) = P x"

lemma leaves_Next: "leaves P (Next x k) \<longleftrightarrow> P x \<and> (\<forall>r. out_all P r \<longrightarrow> leaves P (k r))"
  by (auto split: outcome.splits) (metis out_all.simps outcome.exhaust)+

declare leaves.simps(5) [simp del]

lemma wrap_leaves:
  assumes "\<And>a x. P x \<Longrightarrow> out_all P (fst (rest a x))"
  shows "leaves P p \<Longrightarrow> out_all P (fst (wrap rest p a called))"
proof (induction p arbitrary: a called)
  case (Next x k)
  then have x: "P x" and k: "\<And>r. out_all P r \<Longrightarrow> leaves P (k r)" by (simp_all add: leaves_Next)
  show ?case
  proof (cases called)
    case True
    with Next.IH [OF rangeI k [of "Done x"]] x show ?thesis by simp
  next
    case False
    obtain r a' where r: "rest a x = (r, a')" by fastforce
    with assms [OF x, of a] have "out_all P r" by simp
    with Next.IH [OF rangeI k] False r show ?thesis by simp
  qed
qed auto

lemma onion_invariant:
  assumes "\<And>h x. h \<in> set hs \<Longrightarrow> P x \<Longrightarrow> leaves P (sem h x)" "P x"
  shows "out_all P (fst (onion sem hs a x))"
  using assms
proof (induction hs arbitrary: a x)
  case (Cons h hs)
  have IH: "out_all P (fst (onion sem hs a x))" if "P x" for a x
    using Cons.IH [of x a] Cons.prems(1) that by simp
  have w: "out_all P (fst (wrap (\<lambda>a x. onion sem hs a x) (sem h x) False False))"
    using wrap_leaves [of P "\<lambda>a x. onion sem hs a x" "sem h x" False False] IH Cons.prems by simp
  show ?case
  proof (cases a)
    case True
    with Cons.prems(2) show ?thesis by simp
  next
    case False
    obtain r a' c where r: "wrap (\<lambda>a x. onion sem hs a x) (sem h x) False False = (r, a', c)"
      using prod_cases3 by blast
    with w IH False show ?thesis by (cases r) (simp_all add: onion_Cons)
  qed
qed simp

lemma sent_written: "rw_ok w \<Longrightarrow> Written w \<Longrightarrow> k_sent (w_conn w) \<noteq> None"
  by (simp add: rw_ok_def)

definition answered :: "ctx outcome option \<Rightarrow> bool" where
  "answered r \<longleftrightarrow> (\<exists>out. r = Some out \<and>
     (\<forall>c. out = Done c \<longrightarrow> writer_ok c \<and> k_sent (w_conn (c_writermem c)) \<noteq> None))"

lemma answered_chain:
  assumes "length hs \<le> 62" "\<forall>h x. tidy False (sem h x) False False" "\<forall>h x. writer_ok x \<longrightarrow> leaves writer_ok (sem h x)"
    "writer_ok c" "\<And>c. writer_ok c \<Longrightarrow> writer_ok (f c) \<and> Written (c_writermem (f c))"
  shows "answered (then_ctx (run_chain sem hs c) f)"
proof -
  have "run_chain sem hs c = Some (fst (onion sem hs False c))"
    by (rule run_chain_onion [of _ False]) (use assms(1,2) in \<open>simp_all add: max_chain_def\<close>)
  moreover have "out_all writer_ok (fst (onion sem hs False c))"
    by (rule onion_invariant) (use assms(3,4) in auto)
  ultimately show ?thesis using assms(5) sent_written
    by (cases "fst (onion sem hs False c)") (auto simp: then_ctx_def answered_def)
qed

lemma writer_ok_HeaderNow: "writer_ok c \<Longrightarrow> writer_ok (on_writer WriteHeaderNow c) \<and> Written (c_writermem (on_writer WriteHeaderNow c))"
  by (simp add: rw_ok_HeaderNow)

lemma answered_serveError:
  assumes "length hs \<le> 62" "\<forall>h x. tidy False (sem h x) False False" "\<forall>h x. writer_ok x \<longrightarrow> leaves writer_ok (sem h x)"
    "writer_ok c" "0 < code"
  shows "answered (serveError sem hs code msg c)"
  unfolding serveError_def
proof (rule answered_chain [OF assms(1,2,3)])
  show "writer_ok (on_writer (\<lambda>w. w\<lparr>w_status := code\<rparr>) c)"
    using assms(4,5) by (simp add: rw_ok_def Written_def)
next
  fix c assume c: "writer_ok c"
  have a: "rw_ok (set_header ''Content-Type'' ''text/plain'' (c_writermem c))"
    using rw_ok_step [OF c, of "DoSet ''Content-Type'' ''text/plain''"] by simp
  have "rw_ok (snd (Write msg (set_header ''Content-Type'' ''text/plain'' (c_writermem c))))"
    "Written (snd (Write msg (set_header ''Content-Type'' ''text/plain'' (c_writermem c))))"
    using Write_written(1,2) [OF rw_ok_HeaderNow [OF a] Written_WriteHeaderNow, of msg]
    by (simp_all add: Write_HeaderNow)
  with c show "writer_ok (if \<not> Written (c_writermem c) then
         (if Status (c_writermem c) = code
          then on_writer (\<lambda>w. snd (Write msg (set_header ''Content-Type'' ''text/plain'' w))) c
          else on_writer WriteHeaderNow c) else c) \<and>
      Written (c_writermem (if \<not> Written (c_writermem c) then
         (if Status (c_writermem c) = code
          then on_writer (\<lambda>w. snd (Write msg (set_header ''Content-Type'' ''text/plain'' w))) c
          else on_writer WriteHeaderNow c) else c))"
    by (simp add: rw_ok_HeaderNow)
qed

lemma answered_redirect:
  assumes "writer_ok c"
  shows "answered (Some (Done (redirect_to env url p c)))"
proof -
  let ?w = "http_Redirect env ((c_Request c)\<lparr>q_Path := p\<rparr>) (url ((c_Request c)\<lparr>q_Path := p\<rparr>))
    (redirect_code ((c_Request c)\<lparr>q_Path := p\<rparr>)) (c_writermem c)"
  have "rw_ok (WriteHeaderNow ?w)"
    using assms by (intro rw_ok_HeaderNow acts_ok [OF acts_redirect [OF acts_refl]])
  moreover from sent_written [OF this Written_WriteHeaderNow] have "k_sent (w_conn (WriteHeaderNow ?w)) \<noteq> None" .
  ultimately show ?thesis unfolding answered_def redirect_to_def Let_def by simp
qed

lemma answered_not_found:
  assumes "engine_ok e" "\<forall>h x. tidy False (sem h x) False False" "\<forall>h x. writer_ok x \<longrightarrow> leaves writer_ok (sem h x)"
    "writer_ok c"
  shows "answered (not_found sem e c)"
proof -
  have "length (en_allNoRoute e) \<le> 62" "length (en_allNoMethod e) \<le> 62"
    using assms(1) by (simp_all add: engine_ok_def chains_ok_def)
  with answered_serveError [OF _ assms(2-4)] show ?thesis
    by (auto simp: not_found_def Let_def answered_def split: sum.split bool.split)
qed

lemma answered_ServeHTTP:
  assumes "engine_ok e" "\<forall>h x. tidy False (sem h x) False False"
    "\<forall>h x. writer_ok x \<longrightarrow> leaves writer_ok (sem h x)"
  shows "answered (ServeHTTP env url sem cap e fresh_conn req wd)"
proof -
  let ?c = "new_ctx e fresh_conn req wd"
  have c: "writer_ok ?c" by (simp add: rw_ok_reset)
  note nf = answered_not_found [OF assms c]
  show ?thesis
  proof (cases "trees_get (en_trees e) (q_Method req)")
    case None
    with nf show ?thesis by (simp add: ServeHTTP_def handleHTTPRequest_def Let_def)
  next
    case (Some root)
    from find_in_engine [OF assms(1) Some, of "q_Path req" cap] obtain r q t where
      g: "getValue root (q_Path req) \<lparr>p_elems = [], p_cap = cap\<rparr> = Inr (r, q, t)"
      "matches (registered e (q_Method req)) (q_Path req) = (case r of None \<Rightarrow> {} | Some hs \<Rightarrow> {(hs, p_elems q)})" .
    show ?thesis
    proof (cases r)
      case (Some hs)
      with g(2) have "(hs, p_elems q) \<in> matches (registered e (q_Method req)) (q_Path req)" by simp
      then have "length hs \<le> 62" using assms(1) by (auto simp: in_matches engine_ok_def chains_ok_def)
      from answered_chain [OF this assms(2,3), of "?c\<lparr>c_Params := p_elems q\<rparr>" "on_writer WriteHeaderNow"]
      show ?thesis using c g(1) Some \<open>trees_get (en_trees e) (q_Method req) = Some root\<close>
        by (simp add: ServeHTTP_def handleHTTPRequest_def Let_def rw_ok_HeaderNow)
    next
      case None
      have fixed: "answered (case redirectFixedPath env url root b ?c of
          Inl m \<Rightarrow> Some (Panicked ?c m) | Inr (Some c) \<Rightarrow> Some (Done c) | Inr None \<Rightarrow> not_found sem e ?c)" for b
        using nf answered_redirect [OF c]
        by (auto simp: redirectFixedPath_def cleanPath_spec_eq answered_def mapG_def split: sum.splits option.splits if_splits)
      show ?thesis using None g(1) \<open>trees_get (en_trees e) (q_Method req) = Some root\<close> nf fixed [of True]
          answered_redirect [OF c]
        by (simp add: ServeHTTP_def handleHTTPRequest_def Let_def redirectTrailingSlash_def)
    qed
  qed
qed


lemma digit_leaves: "writer_ok c \<Longrightarrow> leaves writer_ok (digit_sem h c)"
proof (cases "h = 0")
  case False
  assume "writer_ok c"
  with False Write_written(1) [OF rw_ok_HeaderNow Written_WriteHeaderNow, of "c_writermem c"] show ?thesis
    by (simp add: digit_sem_def Write_HeaderNow)
qed (auto simp: digit_sem_def NextThen_def leaves_Next write_out_def split: outcome.split)


end
