(* ===== verification/Kubedash.thy ===== *)
theory Kubedash
  imports Serve
begin

text \<open>
  The program itself: \<open>kubedash.go\<close> (the flags and \<open>main\<close>) and \<open>handlers.go\<close> (the engine with its routes
  and the two handlers). The Heapster API behind \<open>http.Get\<close> and the file server of \<open>net/http\<close> are
  parameters.
\<close>

section \<open>The handlers\<close>

datatype kd_handler = IndexHandler | ApiHandler

text \<open>
  \<open>upstream url\<close> is the outcome of \<open>http.Get\<close>: an error, or the status code and the outcome of reading the
  body.
\<close>

type_synonym upstream = "string \<Rightarrow> string + int \<times> (string + string)"

definition log_error :: "string \<Rightarrow> ctx \<Rightarrow> ctx" where
  "log_error text c = c\<lparr>c_world := (c_world c)\<lparr>o_log := o_log (c_world c) @ [(''ERROR'', text)]\<rparr>\<rparr>"

definition indexHandler :: "env \<Rightarrow> ctx \<Rightarrow> ctx prog" where
  "indexHandler env c = ctx_HTML env 200 ''index.html'' (GMap []) c"

definition apiHandler :: "upstream \<Rightarrow> string \<Rightarrow> ctx \<Rightarrow> ctx prog" where
  "apiHandler upstream heapster_url c =
     (let uri = q_RequestURI (c_Request c);
          metric_url = heapster_url @ uri
      in case upstream metric_url of
           Inl err \<Rightarrow> Return (log_error (''unable to GET '' @ metric_url @ '' - '' @ err) c)
         | Inr (code, rd) \<Rightarrow>
             if code \<noteq> 200 then
               Return (log_error (''GET '' @ metric_url @ '' responded with status code: '' @ int_dec code) c)
             else (case rd of
                 Inl err \<Rightarrow> Return (log_error (''unable to read response body from '' @ metric_url) c)
               | Inr bdy \<Rightarrow>
                   (case Write bdy (c_writermem c) of
                      ((_, ok), w) \<Rightarrow>
                        let c = c\<lparr>c_writermem := w\<rparr>
                        in Return (if ok then c else log_error (''unable to write body to response for '' @ uri) c))))"

text \<open>
  What \<open>http.ServeFile\<close> and the \<open>http.FileServer\<close> behind \<open>http.StripPrefix\<close> do to the response.
\<close>

record file_env =
  x_file :: "string \<Rightarrow> request \<Rightarrow> responseWriter \<Rightarrow> responseWriter"
  x_dir :: "string \<Rightarrow> file_system \<Rightarrow> request \<Rightarrow> responseWriter \<Rightarrow> responseWriter"

fun nolisting :: "file_system \<Rightarrow> bool" where
  "nolisting (OnlyFiles _) = True"
| "nolisting (HttpDir _) = False"

definition static_handler :: "file_env \<Rightarrow> string \<Rightarrow> file_system \<Rightarrow> ctx \<Rightarrow> ctx prog" where
  "static_handler fx absolutePath fs c =
     (let c = (if nolisting fs then on_writer (WriteHeader 404) c else c)
      in Return (on_writer (x_dir fx absolutePath fs (c_Request c)) c))"

text \<open>The meaning of the handlers that gin makes, given that of the program's own.\<close>

fun gin_sem :: "fmt_env \<Rightarrow> string \<Rightarrow> file_env \<Rightarrow> ('u \<Rightarrow> ctx \<Rightarrow> ctx prog) \<Rightarrow> 'u hname \<Rightarrow> ctx \<Rightarrow> ctx prog" where
  "gin_sem fe trace fx user HRecovery c = Recovery trace c"
| "gin_sem fe trace fx user HLogger c = Logger fe c"
| "gin_sem fe trace fx user (HStaticFile f) c = Return (on_writer (x_file fx f (c_Request c)) c)"
| "gin_sem fe trace fx user (HStatic p fs) c = static_handler fx p fs c"
| "gin_sem fe trace fx user (HUser u) c = user u c"

definition kd_sem :: "env \<Rightarrow> upstream \<Rightarrow> string \<Rightarrow> kd_handler \<Rightarrow> ctx \<Rightarrow> ctx prog" where
  "kd_sem env upstream heapster_url u c =
     (case u of IndexHandler \<Rightarrow> indexHandler env c | ApiHandler \<Rightarrow> apiHandler upstream heapster_url c)"

section \<open>The engine\<close>

definition setupHandlers :: "gin_mode \<Rightarrow> env \<Rightarrow> kd_handler hname engine go" where
  "setupHandlers m env =
     bindG (Default HRecovery HLogger) (\<lambda>r.
     bindG (Static_dir (en_group r) ''/static'' ''./static'' r) (\<lambda>r.
     bindG (Static_dir (en_group r) ''/pages'' ''./pages'' r) (\<lambda>r.
     bindG (LoadHTMLGlob m env ''pages/index.html'' r) (\<lambda>r.
     bindG (group_GET (en_group r) ''/'' [HUser IndexHandler] r) (\<lambda>r.
       group_GET (en_group r) ''/api/*uri'' [HUser ApiHandler] r)))))"

section \<open>The program\<close>

record flags =
  l_port :: int
  l_listen_ip :: string
  l_headless :: bool
  l_heapster_url :: string
  l_heapster_service :: string

definition default_flags :: flags where
  "default_flags = \<lparr>l_port = 8289, l_listen_ip = [], l_headless = False, l_heapster_url = [],
     l_heapster_service = ''heapster''\<rparr>"

definition kd_heapster_url :: "flags \<Rightarrow> string" where
  "kd_heapster_url fl =
     (if \<not> l_headless fl then ''http://'' @ l_heapster_service fl else l_heapster_url fl)"

definition listen_addr :: "flags \<Rightarrow> string" where
  "listen_addr fl = l_listen_ip fl @ '':'' @ int_dec (l_port fl)"

text \<open>
  What \<open>main\<close> does, in order. \<open>r.Run\<close> returns an error or blocks for ever; \<open>os.Exit\<close> ends the process
  without running the deferred \<open>glog.Flush\<close>. \<open>Infof\<close> formats its first argument.
\<close>

datatype main_event = LogInfo string | ListenOn string | FlushLogs | ExitWith int

definition main_events :: "env \<Rightarrow> string list \<Rightarrow> flags \<Rightarrow> main_event list" where
  "main_events env args fl =
     [LogInfo (v_sprintf env (join_with (CHR '' '') args) []),
      LogInfo (v_sprintf env ''Kubedash version 0.0.1'' []),
      LogInfo (v_sprintf env ''Starting kubedash on port %d'' [GInt (l_port fl)]),
      ListenOn (listen_addr fl),
      ExitWith 0]"

section \<open>Lemmas\<close>

lemma engine_addRoute_keeps:
  assumes "engine_addRoute m p hs e = Inr e'"
  obtains trees where "e' = e\<lparr>en_trees := trees\<rparr>"
proof (cases p)
  case (Cons c q)
  with assms that show thesis
    by (auto simp: engine_addRoute_def mapG_eq_Inr Let_def split: if_splits)
qed (use assms in \<open>simp add: engine_addRoute_def\<close>)

lemma group_handle_keeps:
  assumes "group_handle gr m rel hs e = Inr e'"
  shows "en_group e' = en_group e" "en_config e' = en_config e" "en_allNoRoute e' = en_allNoRoute e"
    "en_noRoute e' = en_noRoute e"
proof -
  from assms obtain p gs where "engine_addRoute m p gs e = Inr e'"
    by (auto simp: group_handle_def bindG_eq_Inr)
  then obtain trees where "e' = e\<lparr>en_trees := trees\<rparr>" by (rule engine_addRoute_keeps)
  then show "en_group e' = en_group e" "en_config e' = en_config e" "en_allNoRoute e' = en_allNoRoute e"
    "en_noRoute e' = en_noRoute e" by simp_all
qed

lemma group_handle_trees:
  assumes "group_handle gr m rel hs e = Inr e'" "k \<noteq> m"
  shows "trees_get (en_trees e') k = trees_get (en_trees e) k"
proof -
  from assms(1) obtain p gs where "engine_addRoute m p gs e = Inr e'"
    by (auto simp: group_handle_def bindG_eq_Inr)
  with assms(2) show ?thesis
    by (auto simp: engine_addRoute_def mapG_eq_Inr Let_def trees_get_set split: list.splits if_splits)
qed

lemma Static_dir_trees:
  assumes "Static_dir gr rel root e = Inr e'" "k \<noteq> ''GET''" "k \<noteq> ''HEAD''"
  shows "trees_get (en_trees e') k = trees_get (en_trees e) k"
proof -
  from assms(1) obtain h p e1 where
    "group_handle gr ''GET'' p h e = Inr e1" "group_handle gr ''HEAD'' p h e1 = Inr e'"
    by (auto simp: Static_dir_def StaticFS_def bindG_eq_Inr Let_def group_GET_def group_HEAD_def split: if_splits)
  with group_handle_trees assms(2,3) show ?thesis by metis
qed

lemma Static_dir_ok:
  assumes "Static_dir gr rel root e = Inr e'" "engine_ok e"
    "calculateAbsolutePath gr rel = Inr pre"
    "calculateAbsolutePath gr (path_Join [rel, ''/*filepath'']) = Inr p" "route_pat p"
  shows "engine_ok e'"
    "registered e' m = (if m = ''GET'' \<or> m = ''HEAD''
       then insert (p, gr_Handlers gr @ [HStatic pre (OnlyFiles root)]) (registered e m) else registered e m)"
    "en_group e' = en_group e" "en_config e' = en_config e" "en_allNoRoute e' = en_allNoRoute e"
proof -
  let ?h = "[HStatic pre (OnlyFiles root)]"
  from assms(1,3) obtain e1 where
    e1: "group_handle gr ''GET'' (path_Join [rel, ''/*filepath'']) ?h e = Inr e1"
    "group_handle gr ''HEAD'' (path_Join [rel, ''/*filepath'']) ?h e1 = Inr e'"
    by (auto simp: Static_dir_def StaticFS_def Dir_def createStaticHandler_def bindG_eq_Inr Let_def
        group_GET_def group_HEAD_def split: if_splits)
  note g = group_handle_ok [OF assms(2,4,5) e1(1)]
  note h = group_handle_ok [OF g(1) assms(4,5) e1(2)]
  show "engine_ok e'" by (rule h(1))
  show "registered e' m = (if m = ''GET'' \<or> m = ''HEAD'' then insert (p, gr_Handlers gr @ ?h) (registered e m)
      else registered e m)"
    using h(2) [of m] g(2) [of m] by (auto simp: g(2))
  show "en_group e' = en_group e" "en_config e' = en_config e" "en_allNoRoute e' = en_allNoRoute e"
    using group_handle_keeps [OF e1(1)] group_handle_keeps [OF e1(2)] by simp_all
qed

abbreviation kd_chain :: "kd_handler hname \<Rightarrow> kd_handler hname list" where
  "kd_chain h \<equiv> [HRecovery, HLogger, h]"

definition kd_routes :: "(string \<times> kd_handler hname list) set" where
  "kd_routes =
     {(''/static/*filepath'', kd_chain (HStatic ''/static'' (OnlyFiles ''./static''))),
      (''/pages/*filepath'', kd_chain (HStatic ''/pages'' (OnlyFiles ''./pages''))),
      (''/'', kd_chain (HUser IndexHandler)),
      (''/api/*uri'', kd_chain (HUser ApiHandler))}"

definition kd_head_routes :: "(string \<times> kd_handler hname list) set" where
  "kd_head_routes =
     {(''/static/*filepath'', kd_chain (HStatic ''/static'' (OnlyFiles ''./static''))),
      (''/pages/*filepath'', kd_chain (HStatic ''/pages'' (OnlyFiles ''./pages'')))}"

lemma Default_ok:
  assumes "Default rec lg = Inr e"
  shows "engine_ok e" "registered e m = {}" "gr_Handlers (en_group e) = [rec, lg]"
    "gr_basePath (en_group e) = ''/''" "en_config e = en_config (New :: 'h engine)"
    "en_allNoRoute e = [rec, lg :: 'h]"
  using engine_Use_ok [OF engine_ok_New(1) assms [unfolded Default_def]]
  by (auto simp: engine_ok_New) (simp_all add: New_def)

lemma abs_root: "gr_basePath gr = ''/'' \<Longrightarrow> calculateAbsolutePath gr rel = joinPaths ''/'' rel"
  by (simp add: calculateAbsolutePath_def)

lemma kd_paths:
  "joinPaths ''/'' ''/static'' = Inr ''/static''" "joinPaths ''/'' ''/pages'' = Inr ''/pages''"
  "joinPaths ''/'' (path_Join [''/static'', ''/*filepath'']) = Inr ''/static/*filepath''"
  "joinPaths ''/'' (path_Join [''/pages'', ''/*filepath'']) = Inr ''/pages/*filepath''"
  "joinPaths ''/'' ''/'' = Inr ''/''" "joinPaths ''/'' ''/api/*uri'' = Inr ''/api/*uri''"
  "route_pat ''/static/*filepath''" "route_pat ''/pages/*filepath''" "route_pat ''/''" "route_pat ''/api/*uri''"
  by code_simp+

lemma setupHandlers_trees:
  assumes "setupHandlers m env = Inr e" "k \<noteq> ''GET''" "k \<noteq> ''HEAD''"
  shows "trees_get (en_trees e) k = None"
proof -
  from assms(1) obtain r1 r2 r3 r4 r5 where
    r1: "Default HRecovery HLogger = Inr r1" and
    r2: "Static_dir (en_group r1) ''/static'' ''./static'' r1 = Inr r2" and
    r3: "Static_dir (en_group r2) ''/pages'' ''./pages'' r2 = Inr r3" and
    r4: "LoadHTMLGlob m env ''pages/index.html'' r3 = Inr r4" and
    r5: "group_handle (en_group r4) ''GET'' ''/'' [HUser IndexHandler] r4 = Inr r5" and
    r6: "group_handle (en_group r5) ''GET'' ''/api/*uri'' [HUser ApiHandler] r5 = Inr e"
    by (auto simp: setupHandlers_def bindG_eq_Inr group_GET_def)
  have "trees_get (en_trees r1) k = None" using r1
    by (auto simp: Default_def engine_Use_def rebuild404Handlers_def rebuild405Handlers_def bindG_eq_Inr mapG_eq_Inr New_def)
  moreover have "en_trees r4 = en_trees r3" using r4 by (auto simp: LoadHTMLGlob_def mapG_eq_Inr split: if_splits)
  ultimately show ?thesis
    using Static_dir_trees [OF r2 assms(2,3)] Static_dir_trees [OF r3 assms(2,3)] group_handle_trees [OF r5 assms(2)]
      group_handle_trees [OF r6 assms(2)] by simp
qed

lemma setupHandlers_ok:
  assumes "setupHandlers m env = Inr e"
  shows "engine_ok e" "registered e ''GET'' = kd_routes" "registered e ''HEAD'' = kd_head_routes" "m' \<noteq> ''GET'' \<Longrightarrow> m' \<noteq> ''HEAD'' \<Longrightarrow> registered e m' = {}"
    "\<not> g_RedirectFixedPath (en_config e)" "\<not> g_HandleMethodNotAllowed (en_config e)"
    "en_allNoRoute e = [HRecovery, HLogger]"
    "g_HTMLRender (en_config e) = Some (if m = Debug then HTMLDebug [] ''pages/index.html''
       else HTMLProduction (FromGlob ''pages/index.html''))"
proof -
  from assms obtain r1 r2 r3 r4 r5 where
    r1: "Default HRecovery HLogger = Inr r1" and
    r2: "Static_dir (en_group r1) ''/static'' ''./static'' r1 = Inr r2" and
    r3: "Static_dir (en_group r2) ''/pages'' ''./pages'' r2 = Inr r3" and
    r4: "LoadHTMLGlob m env ''pages/index.html'' r3 = Inr r4" and
    r5: "group_handle (en_group r4) ''GET'' ''/'' [HUser IndexHandler] r4 = Inr r5" and
    r6: "group_handle (en_group r5) ''GET'' ''/api/*uri'' [HUser ApiHandler] r5 = Inr e"
    by (auto simp: setupHandlers_def bindG_eq_Inr group_GET_def)
  note d = Default_ok [OF r1]
  note abs = abs_root [OF d(4)]
  have s2: "calculateAbsolutePath (en_group r1) ''/static'' = Inr ''/static''"
    "calculateAbsolutePath (en_group r1) (path_Join [''/static'', ''/*filepath'']) = Inr ''/static/*filepath''"
    unfolding abs kd_paths by simp_all
  note o2 = Static_dir_ok [OF r2 d(1) s2 kd_paths(7)]
  have s3: "calculateAbsolutePath (en_group r2) ''/pages'' = Inr ''/pages''"
    "calculateAbsolutePath (en_group r2) (path_Join [''/pages'', ''/*filepath'']) = Inr ''/pages/*filepath''"
    unfolding o2(3) abs kd_paths by simp_all
  note o3 = Static_dir_ok [OF r3 o2(1) s3 kd_paths(8)]
  have h: "r4 = r3\<lparr>en_config := (en_config r3)\<lparr>g_HTMLRender := Some (if m = Debug then HTMLDebug [] ''pages/index.html''
       else HTMLProduction (FromGlob ''pages/index.html''))\<rparr>\<rparr>"
    using r4 by (auto simp: LoadHTMLGlob_def IsDebugging_def mapG_eq_Inr must_parse_def split: if_splits)
  have o4: "engine_ok r4" "registered r4 k = registered r3 k" "en_group r4 = en_group r1" for k
    using o3(1,3) o2(3) by (simp_all add: h engine_ok_def chains_ok_def registered_def)
  have s5: "calculateAbsolutePath (en_group r4) ''/'' = Inr ''/''"
    unfolding o4(3) abs kd_paths by simp
  note o5 = group_handle_ok [OF o4(1) s5 kd_paths(9) r5] and k5 = group_handle_keeps [OF r5]
  have s6: "calculateAbsolutePath (en_group r5) ''/api/*uri'' = Inr ''/api/*uri''"
    unfolding k5(1) o4(3) abs kd_paths by simp
  note o6 = group_handle_ok [OF o5(1) s6 kd_paths(10) r6] and k6 = group_handle_keeps [OF r6]
  show "engine_ok e" by (rule o6(1))
  have hs: "gr_Handlers (en_group r5) = [HRecovery, HLogger]" "gr_Handlers (en_group r4) = [HRecovery, HLogger]"
    "gr_Handlers (en_group r2) = [HRecovery, HLogger]" "gr_Handlers (en_group r1) = [HRecovery, HLogger]"
    using k5(1) o4(3) o2(3) d(3) by simp_all
  show "registered e ''GET'' = kd_routes"
    unfolding o6(2) o5(2) o4(2) o3(2) o2(2) d(2) hs kd_routes_def by auto
  show "registered e ''HEAD'' = kd_head_routes"
    unfolding o6(2) o5(2) o4(2) o3(2) o2(2) d(2) hs kd_head_routes_def by auto
  show "m' \<noteq> ''GET'' \<Longrightarrow> m' \<noteq> ''HEAD'' \<Longrightarrow> registered e m' = {}"
    unfolding o6(2) o5(2) o4(2) o3(2) o2(2) d(2) by simp
  have "en_config r3 = en_config (New :: kd_handler hname engine)" using o3(4) o2(4) d(5) by simp
  then show "\<not> g_RedirectFixedPath (en_config e)" "\<not> g_HandleMethodNotAllowed (en_config e)"
    "g_HTMLRender (en_config e) = Some (if m = Debug then HTMLDebug [] ''pages/index.html''
       else HTMLProduction (FromGlob ''pages/index.html''))"
    using k6(2) k5(2) by (simp_all add: h New_def)
  show "en_allNoRoute e = [HRecovery, HLogger]"
    using k6(3) k5(3) o3(5) o2(5) d(6) by (simp add: h)
qed

section \<open>What the handlers do\<close>

abbreviation kd_handlers :: "env \<Rightarrow> upstream \<Rightarrow> string \<Rightarrow> fmt_env \<Rightarrow> string \<Rightarrow> file_env \<Rightarrow>
    kd_handler hname \<Rightarrow> ctx \<Rightarrow> ctx prog" where
  "kd_handlers env up base fe trace fx \<equiv> gin_sem fe trace fx (kd_sem env up base)"

text \<open>The library's file handlers use the writer only by its methods.\<close>

definition files_ok :: "file_env \<Rightarrow> bool" where
  "files_ok fx \<longleftrightarrow>
     (\<forall>f req w. acts w (x_file fx f req w)) \<and> (\<forall>p fs req w. acts w (x_dir fx p fs req w))"

lemma tidy_rendered: "tidy q (rendered res c) False False"
  by (auto simp: rendered_def Let_def renderError_def AbortWithError_def AbortWithStatus_def
      split: sum.split prod.split option.split)

lemma tidy_index: "tidy q (indexHandler env c) False False"
  by (auto simp: indexHandler_def ctx_HTML_def ctx_Render_def Let_def tidy_rendered split: option.split sum.split)

lemma api_returns: "\<exists>c'. apiHandler up base c = Return c'"
  by (auto simp: apiHandler_def Let_def split: sum.split prod.split)

lemma tidy_kd: "tidy q (kd_handlers env up base fe trace fx h c) False False"
proof (cases h)
  case (HUser u)
  then show ?thesis using api_returns [of up base c]
    by (cases u) (auto simp: kd_sem_def tidy_index)
qed (auto simp: tidy_Recovery tidy_Logger static_handler_def Let_def)

lemma leaves_Recovery: "writer_ok c \<Longrightarrow> leaves writer_ok (Recovery trace c)"
  by (auto simp: Recovery_def RecoveryWithWriter_def leaves_Next AbortWithStatus_def write_out_def rw_ok_WriteHeader
      split: outcome.splits)

lemma now_writer [simp]: "c_writermem (snd (now c)) = c_writermem c" "o_log (c_world (snd (now c))) = o_log (c_world c)"
  "c_Request (snd (now c)) = c_Request c" "c_config (snd (now c)) = c_config c"
  by (auto simp: now_def split: list.split)

lemma leaves_Logger: "writer_ok c \<Longrightarrow> leaves writer_ok (Logger fe c)"
proof -
  assume c: "writer_ok c"
  obtain t c' where n: "now c = (t, c')" by fastforce
  with now_writer(1) [of c] c have "writer_ok c'" by simp
  moreover have "writer_ok d'" if "now d = (t, d')" "writer_ok d" for t d d'
    using now_writer(1) [of d] that by simp
  ultimately show ?thesis
    by (auto simp: Logger_def LoggerWithWriter_def n NextThen_def leaves_Next write_out_def Let_def
        split: outcome.splits prod.splits)
qed

lemma rw_ok_Write: "rw_ok w \<Longrightarrow> rw_ok (snd (Write d w))"
  using rw_ok_step [of w "DoWrite d"] by simp

lemma leaves_api: "writer_ok c \<Longrightarrow> leaves writer_ok (apiHandler up base c)"
  by (auto simp: apiHandler_def Let_def log_error_def split: sum.split prod.split)
    (metis rw_ok_Write snd_conv)+

lemma leaves_kd:
  assumes "files_ok fx" "writer_ok c"
  shows "leaves writer_ok (kd_handlers env up base fe trace fx h c)"
proof (cases h)
  case (HStaticFile f)
  with assms(1) acts_ok [OF _ assms(2)] show ?thesis by (auto simp: files_ok_def)
next
  case (HStatic p fs)
  have "rw_ok (x_dir fx p fs req w)" if "rw_ok w" for req w
    using assms(1) acts_ok [OF _ that] by (auto simp: files_ok_def)
  with HStatic assms(2) show ?thesis by (simp add: static_handler_def Let_def rw_ok_WriteHeader)
next
  case (HUser u)
  with assms(2) show ?thesis by (cases u) (simp_all add: kd_sem_def indexHandler_def leaves_HTML leaves_api)
qed (simp_all add: assms(2) leaves_Recovery leaves_Logger)

text \<open>No panic gets past the recovery.\<close>

lemma recovered:
  "\<exists>d. fst (onion (kd_handlers env up base fe trace fx) (HRecovery # hs) False c) = Done d"
proof -
  obtain r a where r: "onion (kd_handlers env up base fe trace fx) hs False c = (r, a)" by fastforce
  then show ?thesis
    by (cases r) (simp_all add: onion_Cons Recovery_def RecoveryWithWriter_def AbortWithStatus_def)
qed

text \<open>The chain of a route whose own handler returns.\<close>

lemma kd_chain_Return:
  assumes "kd_handlers env up base fe trace fx h (snd (now c)) = Return d"
  shows "\<exists>d'. fst (onion (kd_handlers env up base fe trace fx) (kd_chain h) False c) = Done d' \<and>
    c_writermem d' = c_writermem d \<and> o_log (c_world d') = o_log (c_world d)"
proof -
  obtain t c1 where n: "now c = (t, c1)" by fastforce
  obtain t2 d1 where m: "now d = (t2, d1)" by fastforce
  have "c_writermem d1 = c_writermem d" "o_log (c_world d1) = o_log (c_world d)"
    using now_writer [of d] m by simp_all
  with n m assms show ?thesis
    by (simp add: onion_Cons Recovery_def RecoveryWithWriter_def Logger_def LoggerWithWriter_def NextThen_def
        Let_def write_out_def)
qed

lemma logs_not_flushed: "FlushLogs \<notin> set (main_events env args fl)"
  by (simp add: main_events_def)

end
