(* ===== verification/Dashboard.thy ===== *)
theory Dashboard
  imports Kubedash
begin

text \<open>
  What the dashboard answers: the properties of the program of \<open>Kubedash\<close>, composed from the
  dispatch of the engine, the chain of the middleware and the two handlers.
\<close>

section \<open>The set-up\<close>

text \<open>The set-up with any renderer in place of the template.\<close>

definition kd_setup_with :: "html_render \<Rightarrow> kd_handler hname engine go" where
  "kd_setup_with h =
     bindG (Default HRecovery HLogger) (\<lambda>r.
     bindG (Static_dir (en_group r) ''/static'' ''./static'' r) (\<lambda>r.
     bindG (Static_dir (en_group r) ''/pages'' ''./pages'' r) (\<lambda>r.
     bindG (Inr (r\<lparr>en_config := (en_config r)\<lparr>g_HTMLRender := Some h\<rparr>\<rparr>)) (\<lambda>r.
     bindG (group_GET (en_group r) ''/'' [HUser IndexHandler] r) (\<lambda>r.
       group_GET (en_group r) ''/api/*uri'' [HUser ApiHandler] r)))))"

lemma kd_setup_with_ok: "\<exists>e. kd_setup_with h = Inr e"
proof -
  have "case kd_setup_with h of Inl _ \<Rightarrow> False | Inr _ \<Rightarrow> True" by code_simp
  then show ?thesis by (auto split: sum.splits)
qed

text \<open>
  C15: the set-up of the dashboard succeeds exactly when its page template can be loaded (in debug
  mode that is left to the requests), and then the engine has exactly the routes of the program,
  each behind the recovery and the logger, and no route of any method but GET and HEAD.
\<close>

theorem setup_routes:
  "if m = Debug \<or> v_parse env (FromGlob ''pages/index.html'')
   then \<exists>e. setupHandlers m env = Inr e \<and> engine_ok e \<and>
     (\<forall>k. registered e k = (if k = ''GET'' then kd_routes else if k = ''HEAD'' then kd_head_routes else {}))
   else \<exists>msg. setupHandlers m env = Inl msg"
proof (cases "m = Debug \<or> v_parse env (FromGlob ''pages/index.html'')")
  case True
  let ?h = "if m = Debug then HTMLDebug [] ''pages/index.html'' else HTMLProduction (FromGlob ''pages/index.html'')"
  have "LoadHTMLGlob m env ''pages/index.html'' r = Inr (r\<lparr>en_config := (en_config r)\<lparr>g_HTMLRender := Some ?h\<rparr>\<rparr>)"
    for r :: "kd_handler hname engine"
    using True by (auto simp: LoadHTMLGlob_def IsDebugging_def must_parse_def)
  then have "setupHandlers m env = kd_setup_with ?h" unfolding setupHandlers_def kd_setup_with_def by presburger
  with kd_setup_with_ok [of ?h] obtain e where e: "setupHandlers m env = Inr e" by auto
  with setupHandlers_ok [OF e] True show ?thesis by auto
next
  case False
  then have "\<exists>msg. LoadHTMLGlob m env ''pages/index.html'' r = Inl msg" for r :: "kd_handler hname engine"
    by (simp add: LoadHTMLGlob_def IsDebugging_def must_parse_def)
  then have "setupHandlers m env \<noteq> Inr e" for e
    by (auto simp: setupHandlers_def bindG_eq_Inr) (metis Inl_Inr_False)
  with False show ?thesis by (metis sum.exhaust)
qed

lemma setup_Debug: obtains e where "setupHandlers Debug env = Inr e"
proof -
  have "setupHandlers Debug env = kd_setup_with (HTMLDebug [] ''pages/index.html'')"
    unfolding setupHandlers_def kd_setup_with_def LoadHTMLGlob_def IsDebugging_def by simp
  with kd_setup_with_ok that show thesis by metis
qed

text \<open>A route of the program that matches the request, when its own handler returns.\<close>

lemma kd_serve_route:
  assumes "setupHandlers m env = Inr e" "(p, kd_chain h) \<in> registered e (q_Method req)"
    "pmatch p (q_Path req) = Some ps"
    "kd_handlers env up base fe trace fx h (snd (now ((new_ctx e fresh_conn req wd)\<lparr>c_Params := ps\<rparr>))) = Return d"
  obtains d' where "ServeHTTP env url (kd_handlers env up base fe trace fx) cap e fresh_conn req wd = Some (Done d')"
    "c_writermem d' = WriteHeaderNow (c_writermem d)" "o_log (c_world d') = o_log (c_world d)"
proof -
  obtain d1 where d1: "fst (onion (kd_handlers env up base fe trace fx) (kd_chain h) False
      ((new_ctx e fresh_conn req wd)\<lparr>c_Params := ps\<rparr>)) = Done d1"
    "c_writermem d1 = c_writermem d" "o_log (c_world d1) = o_log (c_world d)"
    using kd_chain_Return [OF assms(4)] by blast
  have "ServeHTTP env url (kd_handlers env up base fe trace fx) cap e fresh_conn req wd =
      Some (Done (on_writer WriteHeaderNow d1))"
    using serve_onion [OF setupHandlers_ok(1) [OF assms(1)] assms(2,3), of False "kd_handlers env up base fe trace fx" env url cap fresh_conn wd]
      tidy_kd d1(1) by (simp add: max_chain_def)
  with that d1(2,3) show thesis by simp
qed

lemma api_pmatch: "pmatch ''/api/*uri'' (''/api/'' @ r) = Some [(''uri'', CHR ''/'' # r)]"
  using pmatch_static [of "''/api''" "''/*uri''" "''/api/'' @ r"] by (simp add: is_wild_def pmatch_catchAll)

definition status_sent :: "ctx \<Rightarrow> int option" where
  "status_sent c = map_option fst (k_sent (w_conn (c_writermem c)))"

lemma fresh_HeaderNow:
  "k_sent (w_conn (WriteHeaderNow (rw_reset fresh_conn))) = Some (200, \<lambda>_. None)"
  "body (WriteHeaderNow (rw_reset fresh_conn)) = []"
  by (simp_all add: rw_reset_def fresh_conn_def rw_defs defaultStatus_def body_def)

lemma fresh_Write:
  "Write s (rw_reset fresh_conn) = ((int (length s), True), snd (Write s (rw_reset fresh_conn)))"
  "k_sent (w_conn (snd (Write s (rw_reset fresh_conn)))) = Some (200, \<lambda>_. None)"
  "body (snd (Write s (rw_reset fresh_conn))) = s" "Written (snd (Write s (rw_reset fresh_conn)))"
  by (simp_all add: rw_reset_def fresh_conn_def rw_defs defaultStatus_def body_def body_allowed_def)

lemma HeaderNow_Written: "Written w \<Longrightarrow> WriteHeaderNow w = w"
  by (simp add: WriteHeaderNow_def)

lemma kd_serve_api:
  assumes "setupHandlers m env = Inr e" "q_Method req = ''GET''" "q_Path req = ''/api/'' @ r"
    "apiHandler up base (snd (now ((new_ctx e fresh_conn req wd)\<lparr>c_Params := [(''uri'', CHR ''/'' # r)]\<rparr>))) = Return d"
  obtains d' where "ServeHTTP env url (kd_handlers env up base fe trace fx) cap e fresh_conn req wd = Some (Done d')"
    "c_writermem d' = WriteHeaderNow (c_writermem d)" "o_log (c_world d') = o_log (c_world d)"
proof -
  have r: "(''/api/*uri'', kd_chain (HUser ApiHandler)) \<in> registered e (q_Method req)"
    using setupHandlers_ok(2) [OF assms(1)] assms(2) by (simp add: kd_routes_def)
  have "pmatch ''/api/*uri'' (q_Path req) = Some [(''uri'', CHR ''/'' # r)]"
    using api_pmatch assms(3) by simp
  moreover have "kd_handlers env up base fe trace fx (HUser ApiHandler)
      (snd (now ((new_ctx e fresh_conn req wd)\<lparr>c_Params := [(''uri'', CHR ''/'' # r)]\<rparr>))) = Return d"
    using assms(4) by (simp add: kd_sem_def)
  ultimately show thesis by (rule kd_serve_route [OF assms(1) r _ _ that])
qed

text \<open>
  C16: a GET of a path under \<open>/api/\<close> is answered with the body that Heapster gives for the same
  request URI, byte for byte and with the status 200, when Heapster answers 200; nothing is logged
  as an error.
\<close>

theorem api_proxied:
  assumes "setupHandlers m env = Inr e" "q_Method req = ''GET''" "prefix ''/api/'' (q_Path req)"
    "up (base @ q_RequestURI req) = Inr (200, Inr bdy)"
  shows "\<exists>c. ServeHTTP env url (kd_handlers env up base fe trace fx) cap e fresh_conn req wd = Some (Done c) \<and>
    status_sent c = Some 200 \<and> body (c_writermem c) = bdy \<and> o_log (c_world c) = o_log wd"
proof -
  from assms(3) obtain r where r: "q_Path req = ''/api/'' @ r" unfolding prefix_def by blast
  let ?c = "snd (now ((new_ctx e fresh_conn req wd)\<lparr>c_Params := [(''uri'', CHR ''/'' # r)]\<rparr>))"
  have "apiHandler up base ?c = Return (?c\<lparr>c_writermem := snd (Write bdy (rw_reset fresh_conn))\<rparr>)"
  proof -
    obtain w where "Write bdy (rw_reset fresh_conn) = ((int (length bdy), True), w)"
      using fresh_Write(1) [of bdy] by metis
    with assms(4) show ?thesis by (simp add: apiHandler_def Let_def)
  qed
  from kd_serve_api [OF assms(1,2) r this, where url = url and fe = fe and trace = trace and fx = fx and cap = cap] obtain d where
    "ServeHTTP env url (kd_handlers env up base fe trace fx) cap e fresh_conn req wd = Some (Done d)"
    "c_writermem d = snd (Write bdy (rw_reset fresh_conn))" "o_log (c_world d) = o_log wd"
    using HeaderNow_Written [OF fresh_Write(4)] by (auto simp: new_ctx_def ctx_reset_def)
  with fresh_Write(2,3) [of bdy] show ?thesis by (auto simp: status_sent_def)
qed

definition kd_files :: file_env where
  "kd_files = \<lparr>x_file = (\<lambda>f req w. snd (Write f w)), x_dir = (\<lambda>p fs req w. snd (Write p (WriteHeader 200 w)))\<rparr>"

definition kd_fmt :: fmt_env where
  "kd_fmt = \<lparr>f_time = nat_dec, f_duration = int_dec, f_value = (\<lambda>v. [])\<rparr>"

theorem api_proxied_witness:
  "\<exists>e c. setupHandlers Debug sample_env = Inr e \<and>
     ServeHTTP sample_env (\<lambda>_. []) (kd_handlers sample_env (\<lambda>u. if u = ''http://heapster/api/v1/nodes'' then Inr (200, Inr ''[1]'') else Inl [])
       ''http://heapster'' kd_fmt [] kd_files) 0 e fresh_conn (get_request ''/api/v1/nodes'') no_world = Some (Done c) \<and>
     body (c_writermem c) = ''[1]''"
proof -
  obtain e where e: "setupHandlers Debug sample_env = Inr e" using setup_Debug .
  show ?thesis
    using api_proxied [OF e, of "get_request ''/api/v1/nodes''"
        "\<lambda>u. if u = ''http://heapster/api/v1/nodes'' then Inr (200, Inr ''[1]'') else Inl []" "''http://heapster''" "''[1]''"
        "\<lambda>_. []" kd_fmt "[]" kd_files 0 no_world] e
    by (auto simp: get_request_def)
qed

text \<open>
  C18: when Heapster cannot be reached, answers with another status than 200 or breaks off its body,
  the client still gets the status 200, with an empty body, and exactly one error is logged: the
  dashboard cannot tell a failure from an empty answer.
\<close>

theorem api_failure_hidden:
  assumes "setupHandlers m env = Inr e" "q_Method req = ''GET''" "prefix ''/api/'' (q_Path req)"
    "case up (base @ q_RequestURI req) of Inl _ \<Rightarrow> True | Inr (code, rd) \<Rightarrow> code \<noteq> 200 \<or> (\<exists>err. rd = Inl err)"
  shows "\<exists>c msg. ServeHTTP env url (kd_handlers env up base fe trace fx) cap e fresh_conn req wd = Some (Done c) \<and>
    status_sent c = Some 200 \<and> body (c_writermem c) = [] \<and> o_log (c_world c) = o_log wd @ [(''ERROR'', msg)]"
proof -
  from assms(3) obtain r where r: "q_Path req = ''/api/'' @ r" unfolding prefix_def by blast
  let ?c = "snd (now ((new_ctx e fresh_conn req wd)\<lparr>c_Params := [(''uri'', CHR ''/'' # r)]\<rparr>))"
  from assms(4) have "\<exists>msg. apiHandler up base ?c = Return (log_error msg ?c)"
    by (auto simp: apiHandler_def Let_def split: sum.splits prod.splits)
  then obtain msg where "apiHandler up base ?c = Return (log_error msg ?c)" by blast
  from kd_serve_api [OF assms(1,2) r this, where url = url and fe = fe and trace = trace and fx = fx and cap = cap]
  obtain d where "ServeHTTP env url (kd_handlers env up base fe trace fx) cap e fresh_conn req wd = Some (Done d)"
    "c_writermem d = WriteHeaderNow (rw_reset fresh_conn)" "o_log (c_world d) = o_log wd @ [(''ERROR'', msg)]"
    by (auto simp: new_ctx_def ctx_reset_def log_error_def)
  with fresh_HeaderNow show ?thesis by (auto simp: status_sent_def)
qed

theorem api_failure_hidden_witness:
  "\<exists>e c. setupHandlers Debug sample_env = Inr e \<and>
     ServeHTTP sample_env (\<lambda>_. []) (kd_handlers sample_env (\<lambda>u. Inr (500, Inr ''broken''))
       ''http://heapster'' kd_fmt [] kd_files) 0 e fresh_conn (get_request ''/api/'') no_world = Some (Done c) \<and>
     status_sent c = Some 200 \<and> body (c_writermem c) = []"
proof -
  obtain e where e: "setupHandlers Debug sample_env = Inr e" using setup_Debug .
  show ?thesis
    using api_failure_hidden [OF e, of "get_request ''/api/''" "\<lambda>u. Inr (500, Inr ''broken'')" "''http://heapster''"
        "\<lambda>_. []" kd_fmt "[]" kd_files 0 no_world] e
    by (auto simp: get_request_def)
qed

lemma kd_run_Done:
  assumes "length hs \<le> 61"
  shows "\<exists>d. run_chain (kd_handlers env up base fe trace fx) (HRecovery # hs) c = Some (Done d)"
proof -
  have "run_chain (kd_handlers env up base fe trace fx) (HRecovery # hs) c =
      Some (fst (onion (kd_handlers env up base fe trace fx) (HRecovery # hs) False c))"
    by (rule run_chain_onion [of _ False]) (use assms tidy_kd in \<open>simp_all add: max_chain_def\<close>)
  with recovered show ?thesis by metis
qed

lemma kd_registered:
  assumes "setupHandlers m env = Inr e" "(p, hs) \<in> registered e k"
  obtains h where "hs = kd_chain h"
proof -
  have "registered e k = (if k = ''GET'' then kd_routes else if k = ''HEAD'' then kd_head_routes else {})"
    using setupHandlers_ok [OF assms(1)] by simp
  with assms(2) that show thesis by (auto simp: kd_routes_def kd_head_routes_def split: if_splits)
qed

lemma kd_serve_Done:
  assumes "setupHandlers m env = Inr e"
  shows "\<exists>d. ServeHTTP env url (kd_handlers env up base fe trace fx) cap e k req wd = Some (Done d)"
proof (cases "matches (registered e (q_Method req)) (q_Path req) = {}")
  case True
  note ok = setupHandlers_ok [OF assms]
  obtain d where "run_chain (kd_handlers env up base fe trace fx) [HRecovery, HLogger]
      (on_writer (\<lambda>w. w\<lparr>w_status := 404\<rparr>) (new_ctx e k req wd)) = Some (Done d)"
    using kd_run_Done [of "[HLogger]"] by fastforce
  with serve_unmatched [OF ok(1) True ok(5,6), of env url "kd_handlers env up base fe trace fx" cap k wd]
  show ?thesis by (auto simp: serveError_def ok(7) then_ctx_def)
next
  case False
  then obtain hs ps where m: "(hs, ps) \<in> matches (registered e (q_Method req)) (q_Path req)" by auto
  then obtain p where "(p, hs) \<in> registered e (q_Method req)" by (auto simp: in_matches)
  with kd_registered [OF assms] obtain h where h: "hs = kd_chain h" by metis
  obtain d where "run_chain (kd_handlers env up base fe trace fx) hs ((new_ctx e k req wd)\<lparr>c_Params := ps\<rparr>) = Some (Done d)"
    using kd_run_Done [of "[HLogger, h]"] unfolding h by fastforce
  with serve_match [OF setupHandlers_ok(1) [OF assms] m] show ?thesis by (simp add: then_ctx_def)
qed

text \<open>
  C17: the dashboard answers every request: whatever the method, the path and the templates, the
  call returns to the server without a panic, with exactly one status line on the wire.
\<close>

theorem dashboard_answers:
  assumes "setupHandlers m env = Inr e" "files_ok fx"
  shows "\<exists>c. ServeHTTP env url (kd_handlers env up base fe trace fx) cap e fresh_conn req wd = Some (Done c) \<and>
    writer_ok c \<and> status_sent c \<noteq> None"
proof -
  have "answered (ServeHTTP env url (kd_handlers env up base fe trace fx) cap e fresh_conn req wd)"
    using setupHandlers_ok(1) [OF assms(1)] tidy_kd leaves_kd [OF assms(2)] by (intro answered_ServeHTTP) blast+
  with kd_serve_Done [OF assms(1)] show ?thesis by (fastforce simp: answered_def status_sent_def)
qed

lemma kd_files_ok: "files_ok kd_files"
  by (auto simp: files_ok_def kd_files_def intro!: acts_ops)

theorem dashboard_answers_witness:
  "\<exists>e c. setupHandlers Debug sample_env = Inr e \<and>
     ServeHTTP sample_env (\<lambda>_. []) (kd_handlers sample_env (\<lambda>u. Inl []) [] kd_fmt [] kd_files) 0 e fresh_conn
       ((get_request ''/nowhere'')\<lparr>q_Method := ''PATCH''\<rparr>) no_world = Some (Done c) \<and> status_sent c \<noteq> None"
proof -
  obtain e where e: "setupHandlers Debug sample_env = Inr e" using setup_Debug .
  from dashboard_answers [OF e kd_files_ok] e show ?thesis by fast
qed

text \<open>The other outcomes of a route's own handler, and the chain of the error pages.\<close>

lemma kd_chain_Abort:
  assumes "kd_handlers env up base fe trace fx h (snd (now c)) = Abort (Return d)"
  shows "\<exists>d'. fst (onion (kd_handlers env up base fe trace fx) (kd_chain h) False c) = Done d' \<and>
    c_writermem d' = c_writermem d"
proof -
  obtain t c1 where n: "now c = (t, c1)" by fastforce
  obtain t2 d1 where m: "now d = (t2, d1)" by fastforce
  have "c_writermem d1 = c_writermem d" using now_writer [of d] m by simp
  with n m assms show ?thesis
    by (simp add: onion_Cons Recovery_def RecoveryWithWriter_def Logger_def LoggerWithWriter_def NextThen_def
        Let_def write_out_def)
qed

lemma kd_chain_Throw:
  assumes "kd_handlers env up base fe trace fx h (snd (now c)) = Throw d msg"
  shows "\<exists>d'. fst (onion (kd_handlers env up base fe trace fx) (kd_chain h) False c) = Done d' \<and>
    c_writermem d' = WriteHeader 500 (c_writermem d)"
  using assms by (cases "now c")
    (simp add: onion_Cons Recovery_def RecoveryWithWriter_def Logger_def LoggerWithWriter_def NextThen_def
        Let_def write_out_def AbortWithStatus_def)

lemma kd_chain_empty:
  "\<exists>d'. fst (onion (kd_handlers env up base fe trace fx) [HRecovery, HLogger] False c) = Done d' \<and>
    c_writermem d' = c_writermem c"
proof -
  obtain t c1 where n: "now c = (t, c1)" by fastforce
  obtain t2 d1 where m: "now c1 = (t2, d1)" by fastforce
  have "c_writermem d1 = c_writermem c" using now_writer [of c] now_writer [of c1] n m by simp
  with n m show ?thesis
    by (simp add: onion_Cons Recovery_def RecoveryWithWriter_def Logger_def LoggerWithWriter_def NextThen_def
        Let_def write_out_def)
qed

lemma page_404:
  "let w = snd (Write default404Body (set_header ''Content-Type'' ''text/plain'' ((rw_reset fresh_conn)\<lparr>w_status := 404\<rparr>)))
   in map_option fst (k_sent (w_conn w)) = Some 404 \<and> body w = default404Body"
  "\<not> Written ((rw_reset fresh_conn)\<lparr>w_status := 404\<rparr>)" "Status ((rw_reset fresh_conn)\<lparr>w_status := 404\<rparr>) = 404"
  by (simp_all add: rw_reset_def fresh_conn_def rw_defs defaultStatus_def body_def body_allowed_def Status_def Let_def)

text \<open>
  C19: only GET and HEAD requests reach a handler of the program: with any other method every path
  is answered with the status 404 and the default text.
\<close>

theorem other_methods_rejected:
  assumes "setupHandlers m env = Inr e" "q_Method req \<noteq> ''GET''" "q_Method req \<noteq> ''HEAD''"
  shows "\<exists>c. ServeHTTP env url (kd_handlers env up base fe trace fx) cap e fresh_conn req wd = Some (Done c) \<and>
    status_sent c = Some 404 \<and> body (c_writermem c) = default404Body"
proof -
  let ?sem = "kd_handlers env up base fe trace fx"
  let ?c = "on_writer (\<lambda>w. w\<lparr>w_status := 404\<rparr>) (new_ctx e fresh_conn req wd)"
  note ok = setupHandlers_ok [OF assms(1)]
  obtain d where d: "fst (onion ?sem [HRecovery, HLogger] False ?c) = Done d" "c_writermem d = c_writermem ?c"
    using kd_chain_empty by blast
  have "run_chain ?sem [HRecovery, HLogger] ?c = Some (Done d)"
    using run_chain_onion [of "[HRecovery, HLogger]" False ?sem ?c] tidy_kd d(1) by (simp add: max_chain_def)
  with d(2) page_404 have serve: "\<exists>c. serveError ?sem [HRecovery, HLogger] 404 default404Body (new_ctx e fresh_conn req wd) = Some (Done c) \<and>
    status_sent c = Some 404 \<and> body (c_writermem c) = default404Body"
    by (simp add: serveError_def then_ctx_def status_sent_def Let_def)
  have "ServeHTTP env url ?sem cap e fresh_conn req wd = not_found ?sem e (new_ctx e fresh_conn req wd)"
    using setupHandlers_trees [OF assms] by (simp add: ServeHTTP_def handleHTTPRequest_def Let_def)
  with serve ok(6,7) show ?thesis by (simp add: not_found_def Let_def)
qed

theorem other_methods_rejected_witness:
  "\<exists>e c. setupHandlers Debug sample_env = Inr e \<and>
     ServeHTTP sample_env (\<lambda>_. []) (kd_handlers sample_env (\<lambda>u. Inr (200, Inr ''x'')) [] kd_fmt [] kd_files) 0 e fresh_conn
       ((get_request ''/api/v1'')\<lparr>q_Method := ''POST''\<rparr>) no_world = Some (Done c) \<and> status_sent c = Some 404"
proof -
  obtain e where e: "setupHandlers Debug sample_env = Inr e" using setup_Debug .
  show ?thesis
    using other_methods_rejected [OF e, of "(get_request ''/api/v1'')\<lparr>q_Method := ''POST''\<rparr>" "\<lambda>_. []"
        kd_fmt "[]" kd_files "\<lambda>u. Inr (200, Inr ''x'')" "[]" 0 no_world] e by auto
qed

text \<open>The page.\<close>

definition plain_w :: "responseWriter \<Rightarrow> bool" where
  "plain_w w \<longleftrightarrow> rw_ok w \<and> w_status w = 200 \<and> (Written w \<longrightarrow> fst (the (k_sent (w_conn w))) = 200)"

lemma plain_w_open: "plain_w w \<Longrightarrow> open_w w"
  by (auto simp: plain_w_def open_w_def body_allowed_def)

lemma plain_w_Write: "plain_w w \<Longrightarrow> plain_w (snd (Write s w))"
proof -
  assume w: "plain_w w"
  have "rw_ok (snd (Write s w))" using w by (simp add: plain_w_def rw_ok_Write)
  moreover have "w_status (snd (Write s w)) = 200 \<and> fst (the (k_sent (w_conn (snd (Write s w))))) = 200"
    using w by (auto simp: plain_w_def rw_ok_def rw_defs Let_def split: option.splits if_splits)
  ultimately show ?thesis by (simp add: plain_w_def)
qed

lemma write_chunks_plain:
  assumes "plain_w w"
  shows "fst (write_chunks cs err w) = err" "plain_w (snd (write_chunks cs err w))"
    "body (snd (write_chunks cs err w)) = body w @ concat cs"
proof -
  have "fst (write_chunks cs err w) = err \<and> plain_w (snd (write_chunks cs err w)) \<and>
    body (snd (write_chunks cs err w)) = body w @ concat cs"
    using assms
  proof (induction cs arbitrary: w)
    case (Cons c cs)
    note o = open_w_Write [OF plain_w_open [OF Cons.prems], of c]
    obtain v where v: "Write c w = ((int (length c), True), v)" using o(1) by metis
    with o(2,3) plain_w_Write [OF Cons.prems, of c] Cons.IH [of v] show ?case by simp
  qed simp
  then show "fst (write_chunks cs err w) = err" "plain_w (snd (write_chunks cs err w))"
    "body (snd (write_chunks cs err w)) = body w @ concat cs" by simp_all
qed

lemma plain_chunks_written: "plain_w w \<Longrightarrow> cs \<noteq> [] \<or> Written w \<Longrightarrow> Written (snd (write_chunks cs err w))"
proof (induction cs arbitrary: w)
  case (Cons c cs)
  obtain v where v: "Write c w = ((int (length c), True), v)"
    using open_w_Write(1) [OF plain_w_open [OF Cons.prems(1)], of c] by metis
  have "Written (snd (Write c w))"
    using Write_written(2) [OF rw_ok_HeaderNow Written_WriteHeaderNow, of w c] Cons.prems(1)
    by (simp add: plain_w_def Write_HeaderNow)
  with v Cons.IH [of v] plain_w_Write [OF Cons.prems(1), of c] show ?case by simp
qed simp

lemma plain_w_sent: "plain_w w \<Longrightarrow> map_option fst (k_sent (w_conn (WriteHeaderNow w))) = Some 200"
  by (auto simp: plain_w_def rw_ok_def rw_defs split: option.splits if_splits)

lemma plain_fresh_header: "plain_w (writeContentType v (rw_reset fresh_conn))" "body (writeContentType v (rw_reset fresh_conn)) = []"
  by (simp_all add: writeContentType_def plain_w_def rw_ok_def rw_reset_def fresh_conn_def rw_defs defaultStatus_def
      header_of_def body_def)

lemma setup_parsed:
  assumes "setupHandlers m env = Inr e"
  shows "m = Debug \<or> v_parse env (FromGlob ''pages/index.html'')"
proof -
  from assms obtain r r' :: "kd_handler hname engine" where "LoadHTMLGlob m env ''pages/index.html'' r = Inr r'"
    by (auto simp: setupHandlers_def bindG_eq_Inr)
  then show ?thesis by (auto simp: LoadHTMLGlob_def IsDebugging_def mapG_eq_Inr must_parse_def split: if_splits)
qed

lemma header_500:
  "map_option fst (k_sent (w_conn (WriteHeaderNow (WriteHeader 500 (writeContentType v (rw_reset fresh_conn)))))) = Some 500"
  "map_option fst (k_sent (w_conn (WriteHeaderNow (WriteHeader 500 (rw_reset fresh_conn))))) = Some 500"
  by (simp_all add: writeContentType_def rw_reset_def fresh_conn_def rw_defs defaultStatus_def header_of_def)

lemma body_WriteHeader: "body (WriteHeader code w) = body w"
  by (simp add: body_def)

lemma body_fresh: "body (rw_reset fresh_conn) = []"
  by (simp add: body_def rw_reset_def fresh_conn_def)

definition page_source :: tmpl_source where
  "page_source = FromGlob ''pages/index.html''"

lemma index_outcome:
  assumes "setupHandlers m env = Inr e" "c_config c = en_config e" "c_writermem c = rw_reset fresh_conn"
  shows "indexHandler env c =
    (if v_parse env page_source
     then rendered (Inr (Render_HTML env page_source ''index.html'' (GMap []) (rw_reset fresh_conn))) c
     else Throw c ''template: parse error'')"
proof -
  have "WriteHeader 200 (rw_reset fresh_conn) = rw_reset fresh_conn"
    by (simp add: WriteHeader_def rw_reset_def defaultStatus_def)
  moreover have "rendered (Inr r) (c\<lparr>c_writermem := rw_reset fresh_conn\<rparr>) = rendered (Inr r) c" for r
    by (simp add: rendered_def split: prod.split)
  ultimately show ?thesis
    using setup_parsed [OF assms(1)] setupHandlers_ok(8) [OF assms(1)] assms(2,3)
    by (auto simp: indexHandler_def ctx_HTML_def html_Instance_def loadTemplate_def must_parse_def ctx_Render_def
        page_source_def Let_def mapG_def split: sum.split)
qed

lemma index_chain:
  assumes "setupHandlers m env = Inr e"
    "(if v_parse env page_source then v_execute env page_source ''index.html'' (GMap []) else ([], Some msg)) = (chunks, err)"
    "write_chunks chunks err (writeContentType ''text/html; charset=utf-8'' (rw_reset fresh_conn)) = (err, w)"
  shows "\<exists>d. fst (onion (kd_handlers env up base fe trace fx) (kd_chain (HUser IndexHandler)) False
      ((new_ctx e fresh_conn req wd)\<lparr>c_Params := []\<rparr>)) = Done d \<and>
    c_writermem d = (if v_parse env page_source then if err = None then w else WriteHeader 500 w
       else WriteHeader 500 (rw_reset fresh_conn))"
proof -
  let ?sem = "kd_handlers env up base fe trace fx"
  let ?c = "(new_ctx e fresh_conn req wd)\<lparr>c_Params := []\<rparr>"
  have i: "?sem (HUser IndexHandler) (snd (now ?c)) =
    (if v_parse env page_source
     then rendered (Inr (Render_HTML env page_source ''index.html'' (GMap []) (rw_reset fresh_conn))) (snd (now ?c))
     else Throw (snd (now ?c)) ''template: parse error'')"
    using index_outcome [OF assms(1), of "snd (now ?c)"] by (simp add: kd_sem_def)
  have html: "Render_HTML env page_source ''index.html'' (GMap []) (rw_reset fresh_conn) = (err, w)"
    if "v_parse env page_source"
    using that assms(2,3) by (simp add: Render_HTML_def Let_def)
  show ?thesis
  proof (cases "v_parse env page_source")
    case True
    show ?thesis
    proof (cases err)
      case None
      have "?sem (HUser IndexHandler) (snd (now ?c)) = Return ((snd (now ?c))\<lparr>c_writermem := w\<rparr>)"
        unfolding i using True None by (simp add: html rendered_def)
      from kd_chain_Return [OF this] True None show ?thesis by auto
    next
      case (Some e')
      let ?d = "ctx_Error (SetType ErrorTypeRender) (Plain e') ((snd (now ?c))\<lparr>c_writermem := WriteHeader 500 w\<rparr>)"
      have "?sem (HUser IndexHandler) (snd (now ?c)) = Abort (Return ?d)"
        unfolding i using True Some
        by (simp add: html rendered_def renderError_def AbortWithError_def AbortWithStatus_def)
      from kd_chain_Abort [OF this] True Some show ?thesis by (auto simp: ctx_Error_def)
    qed
  next
    case False
    have "?sem (HUser IndexHandler) (snd (now ?c)) = Throw (snd (now ?c)) ''template: parse error''"
      unfolding i using False by simp
    from kd_chain_Throw [OF this] False show ?thesis by auto
  qed
qed

lemma index_status:
  assumes "plain_w w" "chunks = [] \<Longrightarrow> w = writeContentType ''text/html; charset=utf-8'' (rw_reset fresh_conn)"
    "chunks \<noteq> [] \<Longrightarrow> Written w" "\<not> parsed \<Longrightarrow> chunks = [] \<and> err \<noteq> None"
    "w' = (if parsed then if err = None then w else WriteHeader 500 w else WriteHeader 500 (rw_reset fresh_conn))"
  shows "map_option fst (k_sent (w_conn (WriteHeaderNow w'))) = Some (if err \<noteq> None \<and> chunks = [] then 500 else 200)"
proof (cases "err \<noteq> None \<and> chunks = []")
  case True
  with assms(2,5) have
    "w' = WriteHeader 500 (writeContentType ''text/html; charset=utf-8'' (rw_reset fresh_conn)) \<or>
     w' = WriteHeader 500 (rw_reset fresh_conn)" by auto
  with True show ?thesis using header_500 by auto
next
  case False
  then have parsed using assms(4) by blast
  show ?thesis
  proof (cases "err = None")
    case True
    with assms(5) \<open>parsed\<close> False plain_w_sent [OF assms(1)] show ?thesis by simp
  next
    case err: False
    with False have "Written w" using assms(3) by simp
    then have "WriteHeaderNow (WriteHeader 500 w) = WriteHeader 500 w" "WriteHeaderNow w = w"
      by (auto simp: WriteHeaderNow_def WriteHeader_def Written_def)
    with assms(5) \<open>parsed\<close> False err plain_w_sent [OF assms(1)] show ?thesis by simp
  qed
qed

text \<open>
  C20: the page is the template \<open>index.html\<close> without variables, with the status 200. When the template
  cannot be parsed, or fails before it has written anything, the answer is a 500 without a body;
  when it fails later, the client gets a 200 and the part that was written.
\<close>

theorem index_page:
  assumes "setupHandlers m env = Inr e" "q_Method req = ''GET''" "q_Path req = ''/''"
    "(if v_parse env page_source then v_execute env page_source ''index.html'' (GMap []) else ([], Some msg)) = (chunks, err)"
  shows "\<exists>c. ServeHTTP env url (kd_handlers env up base fe trace fx) cap e fresh_conn req wd = Some (Done c) \<and>
    body (c_writermem c) = concat chunks \<and>
    status_sent c = Some (if err \<noteq> None \<and> chunks = [] then 500 else 200)"
proof -
  let ?sem = "kd_handlers env up base fe trace fx"
  let ?c = "(new_ctx e fresh_conn req wd)\<lparr>c_Params := []\<rparr>"
  let ?w = "writeContentType ''text/html; charset=utf-8'' (rw_reset fresh_conn)"
  have r: "(''/'', kd_chain (HUser IndexHandler)) \<in> registered e (q_Method req)" "pmatch ''/'' (q_Path req) = Some []"
    using setupHandlers_ok(2) [OF assms(1)] assms(2,3) by (simp_all add: kd_routes_def pmatch_char)
  obtain x w where w: "write_chunks chunks err ?w = (x, w)" by fastforce
  have p: "x = err" "plain_w w" "body w = concat chunks"
    using write_chunks_plain [OF plain_fresh_header(1), of chunks err "''text/html; charset=utf-8''"] w
      plain_fresh_header(2) by simp_all
  obtain d where d: "fst (onion ?sem (kd_chain (HUser IndexHandler)) False ?c) = Done d"
    "c_writermem d = (if v_parse env page_source then if err = None then w else WriteHeader 500 w
       else WriteHeader 500 (rw_reset fresh_conn))"
    using index_chain [OF assms(1,4), where w = w and up = up and base = base and fe = fe and trace = trace and fx = fx] w p(1) by blast
  have "ServeHTTP env url ?sem cap e fresh_conn req wd = Some (Done (on_writer WriteHeaderNow d))"
    using serve_onion [OF setupHandlers_ok(1) [OF assms(1)] r, of False ?sem env url cap fresh_conn wd] tidy_kd d(1)
    by (simp add: max_chain_def)
  moreover have "body (WriteHeaderNow (c_writermem d)) = concat chunks"
    using d(2) p(3) assms(4) body_WriteHeader body_fresh by (auto split: if_splits)
  moreover have "Written w" if "chunks \<noteq> []"
    using that w plain_fresh_header(1) plain_chunks_written by (metis snd_conv)
  then have "map_option fst (k_sent (w_conn (WriteHeaderNow (c_writermem d)))) =
      Some (if err \<noteq> None \<and> chunks = [] then 500 else 200)"
    by (intro index_status [OF p(2) _ _ _ d(2)]) (use w assms(4) in \<open>auto split: if_splits\<close>)
  ultimately show ?thesis by (simp add: status_sent_def)
qed

theorem index_page_witness:
  "\<exists>e c. setupHandlers Debug sample_env = Inr e \<and>
     ServeHTTP sample_env (\<lambda>_. []) (kd_handlers sample_env (\<lambda>u. Inl []) [] kd_fmt [] kd_files) 0 e fresh_conn
       (get_request ''/'') no_world = Some (Done c) \<and> status_sent c = Some 200 \<and> body (c_writermem c) = ''<html></html>''"
proof -
  obtain e where e: "setupHandlers Debug sample_env = Inr e" using setup_Debug .
  have "(if v_parse sample_env page_source then v_execute sample_env page_source ''index.html'' (GMap []) else ([], Some []))
      = ([''<html>'', ''</html>''], None)" by (simp add: sample_env_def)
  from index_page [OF e _ _ this, where req = "get_request ''/''"] e show ?thesis
    by (force simp: get_request_def)
qed

end
