(* ===== verification/Binding.thy ===== *)
theory Binding
  imports GinContext
begin

text \<open>
  Binding of requests to structs (\<open>gin/binding\<close>). Go's reflection sees a struct as its list of fields:
  the name, the tag \<open>form\<close>, whether the field can be set, and its type. The decoders of JSON and XML,
  the parsers of \<open>net/http\<close>, the validator and floating-point numbers are parameters.
\<close>

section \<open>Types and values\<close>

text \<open>The number is the width of the kind, 0 for \<open>int\<close> and \<open>uint\<close>.\<close>

datatype gtype =
    TInt nat
  | TUint nat
  | TBool
  | TFloat nat
  | TString
  | TStruct "(string \<times> string \<times> bool \<times> gtype) list"
  | TSlice gtype
  | TOther

type_synonym fields = "(string \<times> string \<times> bool \<times> gtype) list"

datatype 'f gval =
    VInt int
  | VUint nat
  | VBool bool
  | VFloat 'f
  | VString string
  | VStruct "'f gval list"
  | VSlice "'f gval list"
  | VOther

text \<open>\<open>strconv.ParseFloat\<close>, its inverse, and zero.\<close>

record 'f floats =
  fl_parse :: "nat \<Rightarrow> string \<Rightarrow> num_error + 'f"
  fl_show :: "'f \<Rightarrow> string"
  fl_zero :: 'f

datatype bind_error = ParseError num_error | UnknownType | Foreign string

type_synonym form = "string \<rightharpoonup> string list"

fun zero :: "'f floats \<Rightarrow> gtype \<Rightarrow> 'f gval" where
  "zero fl (TInt b) = VInt 0"
| "zero fl (TUint b) = VUint 0"
| "zero fl TBool = VBool False"
| "zero fl (TFloat b) = VFloat (fl_zero fl)"
| "zero fl TString = VString []"
| "zero fl (TStruct fs) = VStruct (map (\<lambda>(n, tag, s, t). zero fl t) fs)"
| "zero fl (TSlice t) = VSlice []"
| "zero fl TOther = VOther"

section \<open>\<open>mapForm\<close>\<close>

definition setIntField :: "string \<Rightarrow> nat \<Rightarrow> 'f gval \<Rightarrow> bind_error option \<times> 'f gval" where
  "setIntField val bitSize fld =
     (let val = (if val = [] then ''0'' else val)
      in case ParseInt bitSize val of Inl err \<Rightarrow> (Some (ParseError err), fld) | Inr n \<Rightarrow> (None, VInt n))"

definition setUintField :: "string \<Rightarrow> nat \<Rightarrow> 'f gval \<Rightarrow> bind_error option \<times> 'f gval" where
  "setUintField val bitSize fld =
     (let val = (if val = [] then ''0'' else val)
      in case ParseUint bitSize val of Inl err \<Rightarrow> (Some (ParseError err), fld) | Inr n \<Rightarrow> (None, VUint n))"

definition setBoolField :: "string \<Rightarrow> 'f gval \<Rightarrow> bind_error option \<times> 'f gval" where
  "setBoolField val fld =
     (let val = (if val = [] then ''false'' else val)
      in case ParseBool val of Inl err \<Rightarrow> (None, fld) | Inr b \<Rightarrow> (None, VBool b))"

definition setFloatField :: "'f floats \<Rightarrow> string \<Rightarrow> nat \<Rightarrow> 'f gval \<Rightarrow> bind_error option \<times> 'f gval" where
  "setFloatField fl val bitSize fld =
     (let val = (if val = [] then ''0.0'' else val)
      in case fl_parse fl bitSize val of Inl err \<Rightarrow> (Some (ParseError err), fld) | Inr x \<Rightarrow> (None, VFloat x))"

fun setWithProperType :: "'f floats \<Rightarrow> gtype \<Rightarrow> string \<Rightarrow> 'f gval \<Rightarrow> bind_error option \<times> 'f gval" where
  "setWithProperType fl (TInt b) val fld = setIntField val b fld"
| "setWithProperType fl (TUint b) val fld = setUintField val b fld"
| "setWithProperType fl TBool val fld = setBoolField val fld"
| "setWithProperType fl (TFloat b) val fld = setFloatField fl val b fld"
| "setWithProperType fl TString val fld = (None, VString val)"
| "setWithProperType fl _ val fld = (Some UnknownType, fld)"

text \<open>The elements of a new slice, up to the first error.\<close>

fun set_slice :: "'f floats \<Rightarrow> gtype \<Rightarrow> string list \<Rightarrow> bind_error + 'f gval list" where
  "set_slice fl t [] = Inr []"
| "set_slice fl t (val # vals) =
     (case setWithProperType fl t val (zero fl t) of
        (Some err, v) \<Rightarrow> Inl err
      | (None, v) \<Rightarrow> (case set_slice fl t vals of Inl err \<Rightarrow> Inl err | Inr vs \<Rightarrow> Inr (v # vs)))"

definition set_field :: "'f floats \<Rightarrow> gtype \<Rightarrow> string list \<Rightarrow> 'f gval \<Rightarrow> (bind_error option \<times> 'f gval) go" where
  "set_field fl t inputValue v =
     (case t of
        TSlice el \<Rightarrow>
          if 0 < length inputValue then
            Inr (case set_slice fl el inputValue of Inl err \<Rightarrow> (Some err, v) | Inr vs \<Rightarrow> (None, VSlice vs))
          else Inl index_panic
      | _ \<Rightarrow> mapG (\<lambda>val. setWithProperType fl t val v) (at inputValue 0))"

text \<open>A field that is a struct and has no tag is flattened.\<close>

definition nested_struct :: "string \<Rightarrow> gtype \<Rightarrow> 'f gval \<Rightarrow> (fields \<times> 'f gval list) option" where
  "nested_struct tag t v =
     (case (t, v) of (TStruct fs, VStruct vs) \<Rightarrow> if tag = [] then Some (fs, vs) else None | _ \<Rightarrow> None)"

text \<open>The loop over the fields; an error ends it with the fields set so far.\<close>

function mapForm :: "'f floats \<Rightarrow> fields \<Rightarrow> form \<Rightarrow> 'f gval list \<Rightarrow> (bind_error option \<times> 'f gval list) go" where
  "mapForm fl [] form vs = Inr (None, vs)"
| "mapForm fl (f # fs) form [] = Inr (None, [])"
| "mapForm fl ((name, tag, canSet, t) # fs) form (v # vs) =
     bindG
       (if \<not> canSet then Inr (None, v)
        else
          (case nested_struct tag t v of
             Some (fs', vs') \<Rightarrow> mapG (\<lambda>(err, vs'). (err, VStruct vs')) (mapForm fl fs' form vs')
           | None \<Rightarrow>
               (case form (if tag = [] then name else tag) of
                  None \<Rightarrow> Inr (None, v)
                | Some inputValue \<Rightarrow> set_field fl t inputValue v)))
       (\<lambda>(err, v).
          if err \<noteq> None then Inr (err, v # vs)
          else mapG (\<lambda>(err, vs). (err, v # vs)) (mapForm fl fs form vs))"
  by pat_completeness auto

termination
  by (relation "measure (\<lambda>(fl, fs, form, vs). size_list (size_prod (\<lambda>_. 0) (size_prod (\<lambda>_. 0) (size_prod (\<lambda>_. 0) size))) fs)")
    (auto simp: nested_struct_def split: if_splits gtype.splits gval.splits)

section \<open>The bindings\<close>

text \<open>
  A request as \<open>net/http\<close> parsed it: \<open>rq_Form\<close> is \<open>req.Form\<close> after both calls. \<open>json\<close> and \<open>xml\<close> decode a body
  into a value of the type, also partly when they fail; \<open>validator\<close> is \<open>Validator\<close>, if it is set.
\<close>

record bind_request =
  rq_Body :: string
  rq_ParseForm :: "string option"
  rq_Form :: form
  rq_PostForm :: form
  rq_ParseMultipartForm :: "string option"
  rq_MultipartValue :: form

record 'f bind_env =
  be_floats :: "'f floats"
  be_json :: "string \<Rightarrow> fields \<Rightarrow> 'f gval list \<Rightarrow> string option \<times> 'f gval list"
  be_xml :: "string \<Rightarrow> fields \<Rightarrow> 'f gval list \<Rightarrow> string option \<times> 'f gval list"
  be_validator :: "(fields \<Rightarrow> 'f gval list \<Rightarrow> string option) option"

datatype binding = JSON | XML | Form | FormPost | FormMultipart

definition MIMEJSON :: string where "MIMEJSON = ''application/json''"
definition MIMEXML :: string where "MIMEXML = ''application/xml''"
definition MIMEXML2 :: string where "MIMEXML2 = ''text/xml''"

fun binding_Name :: "binding \<Rightarrow> string" where
  "binding_Name JSON = ''json''"
| "binding_Name XML = ''xml''"
| "binding_Name Form = ''form''"
| "binding_Name FormPost = ''form-urlencoded''"
| "binding_Name FormMultipart = ''multipart/form-data''"

definition binding_Default :: "string \<Rightarrow> string \<Rightarrow> binding" where
  "binding_Default method contentType =
     (if method = ''GET'' then Form
      else if contentType = MIMEJSON then JSON
      else if contentType = MIMEXML \<or> contentType = MIMEXML2 then XML
      else Form)"

definition validate :: "'f bind_env \<Rightarrow> fields \<Rightarrow> 'f gval list \<Rightarrow> bind_error option" where
  "validate env fs vs = (case be_validator env of None \<Rightarrow> None | Some check \<Rightarrow> map_option Foreign (check fs vs))"

definition then_validate :: "'f bind_env \<Rightarrow> fields \<Rightarrow> bind_error option \<times> 'f gval list \<Rightarrow> bind_error option \<times> 'f gval list" where
  "then_validate env fs r = (case r of (Some err, vs) \<Rightarrow> (Some err, vs) | (None, vs) \<Rightarrow> (validate env fs vs, vs))"

fun binding_Bind :: "'f bind_env \<Rightarrow> binding \<Rightarrow> bind_request \<Rightarrow> fields \<Rightarrow> 'f gval list \<Rightarrow>
    (bind_error option \<times> 'f gval list) go" where
  "binding_Bind env JSON req fs vs =
     (case be_json env (rq_Body req) fs vs of (err, vs) \<Rightarrow> Inr (then_validate env fs (map_option Foreign err, vs)))"
| "binding_Bind env XML req fs vs =
     (case be_xml env (rq_Body req) fs vs of (err, vs) \<Rightarrow> Inr (then_validate env fs (map_option Foreign err, vs)))"
| "binding_Bind env Form req fs vs =
     (case rq_ParseForm req of
        Some err \<Rightarrow> Inr (Some (Foreign err), vs)
      | None \<Rightarrow> mapG (then_validate env fs) (mapForm (be_floats env) fs (rq_Form req) vs))"
| "binding_Bind env FormPost req fs vs =
     (case rq_ParseForm req of
        Some err \<Rightarrow> Inr (Some (Foreign err), vs)
      | None \<Rightarrow> mapG (then_validate env fs) (mapForm (be_floats env) fs (rq_PostForm req) vs))"
| "binding_Bind env FormMultipart req fs vs =
     (case rq_ParseMultipartForm req of
        Some err \<Rightarrow> Inr (Some (Foreign err), vs)
      | None \<Rightarrow> mapG (then_validate env fs) (mapForm (be_floats env) fs (rq_MultipartValue req) vs))"

text \<open>\<open>Context.BindWith\<close>, \<open>Bind\<close> and \<open>BindJSON\<close>; \<open>show\<close> is the text of an error.\<close>

definition bind_with :: "'f bind_env \<Rightarrow> (bind_error \<Rightarrow> string) \<Rightarrow> binding \<Rightarrow> bind_request \<Rightarrow> fields \<Rightarrow> 'f gval list \<Rightarrow>
    ctx \<Rightarrow> ('f gval list \<times> ctx prog) go" where
  "bind_with env show b req fs vs c =
     mapG (\<lambda>(err, vs). (vs, BindWith (map_option (\<lambda>e. Plain (show e)) err) c)) (binding_Bind env b req fs vs)"

definition ctx_Bind :: "'f bind_env \<Rightarrow> (bind_error \<Rightarrow> string) \<Rightarrow> bind_request \<Rightarrow> fields \<Rightarrow> 'f gval list \<Rightarrow>
    ctx \<Rightarrow> ('f gval list \<times> ctx prog) go" where
  "ctx_Bind env show req fs vs c =
     bind_with env show (binding_Default (q_Method (c_Request c)) (ContentType c)) req fs vs c"

definition ctx_BindJSON :: "'f bind_env \<Rightarrow> (bind_error \<Rightarrow> string) \<Rightarrow> bind_request \<Rightarrow> fields \<Rightarrow> 'f gval list \<Rightarrow>
    ctx \<Rightarrow> ('f gval list \<times> ctx prog) go" where
  "ctx_BindJSON env show req fs vs c = bind_with env show JSON req fs vs c"

section \<open>Types are kept\<close>

fun has_type :: "gtype \<Rightarrow> 'f gval \<Rightarrow> bool" and has_types :: "fields \<Rightarrow> 'f gval list \<Rightarrow> bool" where
  "has_type (TInt b) v \<longleftrightarrow> (case v of VInt i \<Rightarrow> - (2 ^ (width b - 1)) \<le> i \<and> i < 2 ^ (width b - 1) | _ \<Rightarrow> False)"
| "has_type (TUint b) v \<longleftrightarrow> (case v of VUint n \<Rightarrow> n < 2 ^ width b | _ \<Rightarrow> False)"
| "has_type TBool v \<longleftrightarrow> (case v of VBool b \<Rightarrow> True | _ \<Rightarrow> False)"
| "has_type (TFloat b) v \<longleftrightarrow> (case v of VFloat x \<Rightarrow> True | _ \<Rightarrow> False)"
| "has_type TString v \<longleftrightarrow> (case v of VString s \<Rightarrow> True | _ \<Rightarrow> False)"
| "has_type (TStruct fs) v \<longleftrightarrow> (case v of VStruct vs \<Rightarrow> has_types fs vs | _ \<Rightarrow> False)"
| "has_type (TSlice t) v \<longleftrightarrow> (case v of VSlice vs \<Rightarrow> \<forall>v \<in> set vs. has_type t v | _ \<Rightarrow> False)"
| "has_type TOther v \<longleftrightarrow> (case v of VOther \<Rightarrow> True | _ \<Rightarrow> False)"
| "has_types [] vs \<longleftrightarrow> vs = []"
| "has_types (f # fs) vs \<longleftrightarrow>
     (case f of (name, tag, canSet, t) \<Rightarrow> case vs of [] \<Rightarrow> False | v # vs \<Rightarrow> has_type t v \<and> has_types fs vs)"

lemma ParseInt_Inl_zero [simp]: "ParseInt b ''0'' = Inr 0"
  by (simp add: ParseInt_def dec_val_def digit_val_def is_digit_def)

lemma set_typed:
  assumes "setWithProperType fl t val v = (err, v')" "has_type t v"
  shows "has_type t v'"
  using assms
  by (cases t) (auto simp: setIntField_def setUintField_def setBoolField_def setFloatField_def Let_def
      split: sum.splits if_splits dest: ParseInt_bounds ParseUint_bounds)

lemma set_typed_zero:
  assumes "setWithProperType fl t val (zero fl t) = (None, v')"
  shows "has_type t v'"
proof -
  have "t \<noteq> TOther \<and> (\<forall>fs. t \<noteq> TStruct fs) \<and> (\<forall>e. t \<noteq> TSlice e)" using assms by (cases t) auto
  then have "has_type t (zero fl t)" by (cases t) simp_all
  with set_typed [OF assms] show ?thesis .
qed

lemma set_slice_typed: "set_slice fl t vals = Inr vs \<Longrightarrow> \<forall>v \<in> set vs. has_type t v"
  by (induction vals arbitrary: vs) (auto split: prod.splits option.splits sum.splits intro: set_typed_zero)

lemma set_field_typed:
  assumes "has_type t v" "inputs \<noteq> []"
  shows "\<exists>err v'. set_field fl t inputs v = Inr (err, v') \<and> has_type t v'"
proof -
  obtain err v' where s: "setWithProperType fl t (hd inputs) v = (err, v')" by fastforce
  from assms(2) have a: "at inputs 0 = Inr (hd inputs)" by (cases inputs) (simp_all add: at_def)
  show ?thesis
  proof (cases "\<exists>el. t = TSlice el")
    case True
    then obtain el where "t = TSlice el" by blast
    with assms set_slice_typed [of fl el inputs] show ?thesis by (auto simp: set_field_def split: sum.split)
  next
    case False
    then have "set_field fl t inputs v = Inr (err, v')" using a s by (cases t) (simp_all add: set_field_def)
    with set_typed [OF s assms(1)] show ?thesis by blast
  qed
qed

lemma nested_typed:
  assumes "nested_struct tag t v = Some (fs, vs)" "has_type t v"
  shows "tag = [] \<and> t = TStruct fs \<and> v = VStruct vs \<and> has_types fs vs"
  using assms by (auto simp: nested_struct_def split: gtype.splits gval.splits if_splits)

text \<open>
  C35: binding a form never panics and never breaks a type: whatever values the client sends, however
  deep the structs are nested, with an error or without, every field keeps a value of its type; the
  number in a field of 8 bits fits into 8 bits.
\<close>

theorem mapForm_typed:
  assumes "has_types fs vs" "\<forall>k l. form k = Some l \<longrightarrow> l \<noteq> []"
  shows "\<exists>err vs'. mapForm fl fs form vs = Inr (err, vs') \<and> has_types fs vs'"
  using assms
proof (induction fl fs form vs rule: mapForm.induct)
  case (3 fl name tag canSet t fs form v vs)
  have v: "has_type t v" "has_types fs vs" using "3.prems"(1) by simp_all
  let ?one = "if \<not> canSet then Inr (None, v)
        else (case nested_struct tag t v of
             Some (fs', vs') \<Rightarrow> mapG (\<lambda>(err, vs'). (err, VStruct vs')) (mapForm fl fs' form vs')
           | None \<Rightarrow> (case form (if tag = [] then name else tag) of
                  None \<Rightarrow> Inr (None, v) | Some inputValue \<Rightarrow> set_field fl t inputValue v))"
  have "\<exists>err v'. ?one = Inr (err, v') \<and> has_type t v'"
  proof (cases "canSet")
    case True
    show ?thesis
    proof (cases "nested_struct tag t v")
      case None
      with True v(1) "3.prems"(2) set_field_typed [OF v(1), of _ fl] show ?thesis by (auto split: option.split)
    next
      case (Some fv)
      obtain fs' vs' where fv: "fv = (fs', vs')" by fastforce
      with Some nested_typed [OF _ v(1)] have n: "t = TStruct fs'" "has_types fs' vs'" by auto
      have "\<not> \<not> canSet" using True by simp
      from "3.IH"(1) [OF this Some fv [symmetric] n(2) "3.prems"(2)] obtain err vs'' where
        "mapForm fl fs' form vs' = Inr (err, vs'')" "has_types fs' vs''" by blast
      with True Some fv n(1) show ?thesis by simp
    qed
  qed (use v(1) in simp)
  then obtain err v' where one: "?one = Inr (err, v')" "has_type t v'" by blast
  have eq: "mapForm fl ((name, tag, canSet, t) # fs) form (v # vs) =
      (if err \<noteq> None then Inr (err, v' # vs) else mapG (\<lambda>(err, vs). (err, v' # vs)) (mapForm fl fs form vs))"
    unfolding mapForm.simps one(1) by simp
  show ?case
  proof (cases err)
    case None
    with "3.IH"(2) [OF one(1) refl _ v(2) "3.prems"(2)] obtain err' vs' where
      "mapForm fl fs form vs = Inr (err', vs')" "has_types fs vs'" by auto
    with None one(2) show ?thesis unfolding eq by simp
  qed (use one(2) v(2) eq in simp)
qed auto

section \<open>Forms are read back\<close>

text \<open>The form of a value: what a client sends for it.\<close>

fun show_scalar :: "'f floats \<Rightarrow> 'f gval \<Rightarrow> string" where
  "show_scalar fl (VInt i) = int_dec i"
| "show_scalar fl (VUint n) = nat_dec n"
| "show_scalar fl (VBool b) = (if b then ''true'' else ''false'')"
| "show_scalar fl (VFloat x) = fl_show fl x"
| "show_scalar fl (VString s) = s"
| "show_scalar fl _ = []"

definition show_field :: "'f floats \<Rightarrow> 'f gval \<Rightarrow> string list" where
  "show_field fl v = (case v of VSlice vs \<Rightarrow> map (show_scalar fl) vs | _ \<Rightarrow> [show_scalar fl v])"

fun scalar :: "gtype \<Rightarrow> bool" where
  "scalar (TFloat b) \<longleftrightarrow> b = 64"
| "scalar (TStruct fs) \<longleftrightarrow> False"
| "scalar (TSlice t) \<longleftrightarrow> False"
| "scalar TOther \<longleftrightarrow> False"
| "scalar _ \<longleftrightarrow> True"

definition key_of :: "string \<Rightarrow> string \<Rightarrow> string" where
  "key_of name tag = (if tag = [] then name else tag)"

fun form_names :: "fields \<Rightarrow> string list" where
  "form_names [] = []"
| "form_names ((name, tag, canSet, TStruct fs') # fs) = (if tag = [] then form_names fs' else [tag]) @ form_names fs"
| "form_names ((name, tag, canSet, t) # fs) = key_of name tag # form_names fs"

fun bindable :: "fields \<Rightarrow> bool" where
  "bindable [] \<longleftrightarrow> True"
| "bindable ((name, tag, canSet, TStruct fs') # fs) \<longleftrightarrow> canSet \<and> tag = [] \<and> bindable fs' \<and> bindable fs"
| "bindable ((name, tag, canSet, TSlice t) # fs) \<longleftrightarrow> canSet \<and> scalar t \<and> bindable fs"
| "bindable ((name, tag, canSet, t) # fs) \<longleftrightarrow> canSet \<and> scalar t \<and> bindable fs"

fun form_of :: "'f floats \<Rightarrow> fields \<Rightarrow> 'f gval list \<Rightarrow> (string \<times> string list) list" where
  "form_of fl ((name, tag, canSet, TStruct fs') # fs) (VStruct vs' # vs) = form_of fl fs' vs' @ form_of fl fs vs"
| "form_of fl ((name, tag, canSet, t) # fs) (v # vs) =
     (if show_field fl v = [] then [] else [(key_of name tag, show_field fl v)]) @ form_of fl fs vs"
| "form_of fl _ _ = []"

definition zeros :: "'f floats \<Rightarrow> fields \<Rightarrow> 'f gval list" where
  "zeros fl fs = map (\<lambda>(n, tag, s, t). zero fl t) fs"

lemma zero_struct: "zero fl (TStruct fs) = VStruct (zeros fl fs)"
  by (simp add: zeros_def)

definition floats_ok :: "'f floats \<Rightarrow> bool" where
  "floats_ok fl \<longleftrightarrow> (\<forall>x. fl_show fl x \<noteq> [] \<and> fl_parse fl 64 (fl_show fl x) = Inr x)"

lemma int_dec_nonempty: "int_dec i \<noteq> []"
  by (simp add: int_dec_def)

lemma set_scalar:
  assumes "floats_ok fl" "scalar t" "has_type t v"
  shows "setWithProperType fl t (show_scalar fl v) w = (None, v)"
  using assms
  by (cases t; cases v) (auto simp: setIntField_def setUintField_def setBoolField_def setFloatField_def ParseInt_int_dec
      ParseUint_nat_dec ParseBool_def floats_ok_def int_dec_nonempty)

lemma set_slice_shown:
  "floats_ok fl \<Longrightarrow> scalar t \<Longrightarrow> \<forall>v \<in> set vs. has_type t v \<Longrightarrow> set_slice fl t (map (show_scalar fl) vs) = Inr vs"
  by (induction vs) (simp_all add: set_scalar)

definition leaf :: "gtype \<Rightarrow> bool" where
  "leaf t \<longleftrightarrow> scalar t \<or> (\<exists>el. t = TSlice el \<and> scalar el)"

lemma set_field_shown:
  assumes "floats_ok fl" "leaf t" "has_type t v" "show_field fl v \<noteq> []"
  shows "set_field fl t (show_field fl v) w = Inr (None, v)"
proof (cases "scalar t")
  case True
  have "show_field fl v = [show_scalar fl v]" using True assms(3)
    by (cases t) (auto simp: show_field_def split: gval.splits)
  with True set_scalar [OF assms(1) True assms(3), of w] show ?thesis
    by (cases t) (simp_all add: set_field_def at_def)
next
  case False
  with assms(2) obtain el where el: "t = TSlice el" "scalar el" by (auto simp: leaf_def)
  with assms(3) obtain vs where vs: "v = VSlice vs" "\<forall>v \<in> set vs. has_type el v" by (auto split: gval.splits)
  with assms(4) el set_slice_shown [OF assms(1) el(2) vs(2)] show ?thesis
    by (simp add: set_field_def show_field_def)
qed

lemma zero_of_empty: "leaf t \<Longrightarrow> has_type t v \<Longrightarrow> show_field fl v = [] \<Longrightarrow> zero fl t = v"
  by (cases t; cases v) (auto simp: show_field_def leaf_def)

lemma not_struct: "leaf t \<Longrightarrow> nested_struct tag t v = None"
  by (cases t) (auto simp: leaf_def nested_struct_def)

lemma mapForm_leaf:
  assumes "floats_ok fl" "leaf t" "has_type t v" "mapForm fl fs form (zeros fl fs) = Inr (None, vs)"
    "form (key_of name tag) = (if show_field fl v = [] then None else Some (show_field fl v))"
  shows "mapForm fl ((name, tag, True, t) # fs) form (zeros fl ((name, tag, True, t) # fs)) = Inr (None, v # vs)"
proof -
  have "(case form (key_of name tag) of None \<Rightarrow> Inr (None, zero fl t) | Some inputs \<Rightarrow> set_field fl t inputs (zero fl t)) =
      Inr (None, v)"
    using assms(5) set_field_shown [OF assms(1-3)] zero_of_empty [OF assms(2,3)] by auto
  moreover have "nested_struct tag t (zero fl t) = None" by (rule not_struct [OF assms(2)])
  ultimately show ?thesis using assms(4) by (simp add: zeros_def key_of_def split: if_splits)
qed

lemma form_of_names: "bindable fs \<Longrightarrow> has_types fs vs \<Longrightarrow> fst ` set (form_of fl fs vs) \<subseteq> set (form_names fs)"
proof (induction fs arbitrary: vs rule: bindable.induct)
  case (2 name tag canSet fs' fs)
  then obtain vs' ws where vs: "vs = VStruct vs' # ws" "has_types fs' vs'" "has_types fs ws"
    by (auto split: list.splits gval.splits)
  with 2 have "fst ` set (form_of fl fs' vs') \<subseteq> set (form_names fs')" "fst ` set (form_of fl fs ws) \<subseteq> set (form_names fs)"
    by simp_all
  with 2(3) vs(1) show ?case by auto
qed (auto split: list.splits)

lemma form_leaf_entry:
  assumes "leaf t" "has_type t v"
  shows "form_of fl ((name, tag, canSet, t) # fs) (v # vs) =
    (if show_field fl v = [] then [] else [(key_of name tag, show_field fl v)]) @ form_of fl fs vs"
    "form_names ((name, tag, canSet, t) # fs) = key_of name tag # form_names fs"
  using assms by (cases t; cases v; auto simp: leaf_def)+

definition serves :: "form \<Rightarrow> 'f floats \<Rightarrow> fields \<Rightarrow> 'f gval list \<Rightarrow> bool" where
  "serves form fl fs vs \<longleftrightarrow> (\<forall>k \<in> set (form_names fs). form k = map_of (form_of fl fs vs) k)"

lemma serves_leaf:
  assumes "serves form fl ((name, tag, canSet, t) # fs) (v # vs)" "leaf t" "has_type t v" "bindable fs" "has_types fs vs"
    "distinct (form_names ((name, tag, canSet, t) # fs))"
  shows "serves form fl fs vs" "form (key_of name tag) = (if show_field fl v = [] then None else Some (show_field fl v))"
proof -
  note e = form_leaf_entry [OF assms(2,3)]
  have k: "key_of name tag \<notin> set (form_names fs)" using assms(6) by (simp add: e(2))
  with form_of_names [OF assms(4,5), of fl] have "map_of (form_of fl fs vs) (key_of name tag) = None"
    by (auto simp: map_of_eq_None_iff)
  with assms(1) show "form (key_of name tag) = (if show_field fl v = [] then None else Some (show_field fl v))"
    by (simp add: serves_def e)
  have "k' \<noteq> key_of name tag" if "k' \<in> set (form_names fs)" for k' using k that by blast
  with assms(1) show "serves form fl fs vs" by (auto simp: serves_def e)
qed

lemma zeros_struct: "zeros fl ((name, tag, canSet, TStruct fs') # fs) = VStruct (zeros fl fs') # zeros fl fs"
  by (simp add: zeros_def)

lemma mapForm_shown:
  assumes "floats_ok fl"
  shows "bindable fs \<Longrightarrow> has_types fs vs \<Longrightarrow> distinct (form_names fs) \<Longrightarrow> serves form fl fs vs \<Longrightarrow>
    mapForm fl fs form (zeros fl fs) = Inr (None, vs)"
proof (induction "size_list (size_prod (\<lambda>_. 0) (size_prod (\<lambda>_. 0) (size_prod (\<lambda>_. 0) size))) fs"
    arbitrary: fs vs rule: less_induct)
  case less
  note smaller = less.hyps
  show ?case
  proof (cases fs)
    case Nil
    with less.prems show ?thesis by (simp add: zeros_def)
  next
    case (Cons f gs)
    obtain name tag canSet t where f: "f = (name, tag, canSet, t)" using prod_cases4 by blast
    obtain v ws where vs: "vs = v # ws" "has_type t v" "has_types gs ws"
      using less.prems(2) Cons f by (auto split: list.splits)
    show ?thesis
    proof (cases "\<exists>fs'. t = TStruct fs'")
      case True
      then obtain fs' where t: "t = TStruct fs'" by blast
      with vs(2) obtain vs' where v: "v = VStruct vs'" "has_types fs' vs'" by (auto split: gval.splits)
      have b: "canSet" "tag = []" "bindable fs'" "bindable gs" using less.prems(1) Cons f t by simp_all
      have d: "distinct (form_names fs')" "distinct (form_names gs)" "set (form_names fs') \<inter> set (form_names gs) = {}"
        using less.prems(3) Cons f t b(2) by simp_all
      have out: "map_of (form_of fl gs ws) k = None" if "k \<in> set (form_names fs')" for k
        using that d(3) form_of_names [OF b(4) vs(3), of fl] by (auto simp: map_of_eq_None_iff)
      have inn: "map_of (form_of fl fs' vs') k = None" if "k \<in> set (form_names gs)" for k
        using that d(3) form_of_names [OF b(3) v(2), of fl] by (auto simp: map_of_eq_None_iff)
      have "serves form fl fs' vs'" "serves form fl gs ws"
        using less.prems(4) Cons f t v(1) vs(1) b(2) out inn by (auto simp: serves_def map_add_def split: option.splits)
      with smaller [of fs' vs'] smaller [of gs ws] b d v(2) vs(3) Cons f t have
        "mapForm fl fs' form (zeros fl fs') = Inr (None, vs')" "mapForm fl gs form (zeros fl gs) = Inr (None, ws)" by simp_all
      with b v(1) vs(1) show ?thesis unfolding Cons f t zeros_struct by (simp add: nested_struct_def)
    next
      case False
      then have l: "leaf t" "bindable gs" "canSet" using less.prems(1) Cons f by (cases t; auto simp: leaf_def)+
      note s = serves_leaf [OF _ l(1) vs(2) l(2) vs(3), of form fl name tag canSet]
      have "mapForm fl gs form (zeros fl gs) = Inr (None, ws)"
        using smaller [of gs ws] s(1) less.prems(3,4) l(1,2) vs(1,3) Cons f form_leaf_entry(2) [OF l(1) vs(2)] by simp
      from mapForm_leaf [OF assms l(1) vs(2) this] s(2) less.prems(3,4) vs(1) Cons f l(3) show ?thesis by simp
    qed
  qed
qed

text \<open>
  C37: a form carries a value faithfully: for a struct of settable fields with names of their own
  (integers of any width, 64-bit floats, booleans, strings, slices of these, nested structs), binding
  the form that shows a value to the zero struct returns no error and gives this value.
\<close>

theorem form_roundtrip:
  assumes "floats_ok fl" "bindable fs" "has_types fs vs" "distinct (form_names fs)"
  shows "mapForm fl fs (map_of (form_of fl fs vs)) (zeros fl fs) = Inr (None, vs)"
  by (rule mapForm_shown [OF assms]) (simp add: serves_def)

section \<open>Instances\<close>

definition sample_floats :: "string floats" where
  "sample_floats = \<lparr>fl_parse = (\<lambda>b s. Inr (tl s)), fl_show = (\<lambda>x. CHR ''f'' # x), fl_zero = []\<rparr>"

definition sample_fields :: fields where
  "sample_fields = [(''Name'', [], True, TString), (''Age'', ''age'', True, TInt 8), (''Tags'', [], True, TSlice TBool),
     (''Home'', [], True, TStruct [(''Zip'', [], True, TUint 16)])]"

definition sample_values :: "string gval list" where
  "sample_values = [VString ''Ann'', VInt (- 7), VSlice [VBool True, VBool False], VStruct [VUint 8000]]"

lemma sample_typed: "has_types sample_fields sample_values" "has_types sample_fields (zeros sample_floats sample_fields)"
  by (simp_all add: sample_fields_def sample_values_def width_def zeros_def)

theorem mapForm_typed_witness:
  "\<exists>err vs. mapForm sample_floats sample_fields [''age'' \<mapsto> [''300'']] (zeros sample_floats sample_fields) = Inr (err, vs) \<and>
     has_types sample_fields vs"
  by (rule mapForm_typed [OF sample_typed(2)]) simp

theorem form_roundtrip_witness:
  "mapForm sample_floats sample_fields (map_of (form_of sample_floats sample_fields sample_values))
     (zeros sample_floats sample_fields) = Inr (None, sample_values)"
proof -
  have "floats_ok sample_floats" by (simp add: floats_ok_def sample_floats_def)
  moreover have "bindable sample_fields" "distinct (form_names sample_fields)"
    by (simp_all add: sample_fields_def key_of_def)
  ultimately show ?thesis by (intro form_roundtrip sample_typed)
qed

text \<open>A value that is no boolean is ignored without an error, where a value that is no number is one.\<close>

lemma bool_errors_ignored:
  "setWithProperType fl TBool ''maybe'' v = (None, v)"
  "setWithProperType fl (TInt 0) ''maybe'' v = (Some (ParseError ErrSyntax), v)"
  by (simp_all add: setBoolField_def ParseBool_def setIntField_def ParseInt_def is_digit_def)

end
