(* ===== verification/GinRest.thy ===== *)
theory GinRest
  imports Engine Binding
begin

text \<open>
  The operations of gin around the request: copies of a context for other goroutines
  (\<open>context.go\<close>), handlers made of structs to bind and of handlers of \<open>net/http\<close> (\<open>utils.go\<close>), errors as JSON
  (\<open>errors.go\<close>), warnings (\<open>debug.go\<close>), the switch of validation (\<open>mode.go\<close>) and servers (\<open>gin.go\<close>).
\<close>

section \<open>Copies of a context\<close>

text \<open>
  A map of Go is a reference. Here the keys of a context are an address in a store of maps, so that a
  copy can share them; the writer is nil in a copy. The parameters are a slice: the address of an array
  in a store of arrays, and a length. The word is the cursor of the chain.
\<close>

type_synonym key_store = "(string \<rightharpoonup> goval) list"
type_synonym arrays = "Params list"
type_synonym pslice_ref = "nat \<times> nat"

record 'h Context =
  x_conn :: "conn option"
  x_size :: int
  x_status :: int
  x_Request :: request
  x_Params :: pslice_ref
  x_handlers :: "'h list"
  x_index :: "8 word"
  x_Keys :: "nat option"
  x_Errors :: errorMsgs
  x_Accepted :: "string list option"

definition Copy :: "'h Context \<Rightarrow> 'h Context" where
  "Copy c = c\<lparr>x_conn := None, x_index := abortIndex, x_handlers := []\<rparr>"

definition HandlerName :: "('h option \<Rightarrow> string) \<Rightarrow> 'h Context \<Rightarrow> string" where
  "HandlerName nameOfFunction c = nameOfFunction (Last (x_handlers c))"

definition shared_Set :: "string \<Rightarrow> goval \<Rightarrow> 'h Context \<Rightarrow> key_store \<Rightarrow> 'h Context \<times> key_store" where
  "shared_Set key v c ks =
     (case x_Keys c of
        None \<Rightarrow> (c\<lparr>x_Keys := Some (length ks)\<rparr>, ks @ [[key \<mapsto> v]])
      | Some a \<Rightarrow> (c, ks[a := (ks ! a)(key \<mapsto> v)]))"

definition keys_of :: "'h Context \<Rightarrow> key_store \<Rightarrow> (string \<rightharpoonup> goval) option" where
  "keys_of c ks = map_option (\<lambda>a. ks ! a) (x_Keys c)"

definition shared_Get :: "string \<Rightarrow> 'h Context \<Rightarrow> key_store \<Rightarrow> goval \<times> bool" where
  "shared_Get key c ks =
     (case keys_of c ks of
        None \<Rightarrow> (GNil, False)
      | Some m \<Rightarrow> (case m key of None \<Rightarrow> (GNil, False) | Some v \<Rightarrow> (v, True)))"

definition keys_ok :: "'h Context \<Rightarrow> key_store \<Rightarrow> bool" where
  "keys_ok c ks \<longleftrightarrow> (\<forall>a. x_Keys c = Some a \<longrightarrow> a < length ks)"

text \<open>On one context the store is invisible: \<open>Set\<close> and \<open>Get\<close> are those of \<open>GinContext\<close>.\<close>

lemma shared_Set_abs:
  assumes "keys_ok c ks" "c_Keys d = keys_of c ks" "shared_Set key v c ks = (c', ks')"
  shows "c_Keys (ctx_Set key v d) = keys_of c' ks'" "keys_ok c' ks'"
  using assms by (auto simp: shared_Set_def ctx_Set_def keys_of_def keys_ok_def Let_def split: option.splits)

lemma shared_Get_abs: "c_Keys d = keys_of c ks \<Longrightarrow> shared_Get key c ks = ctx_Get key d"
  by (simp add: shared_Get_def ctx_Get_def)

text \<open>A copy is aborted, has no handlers and cannot write, but it shares the keys with the original.\<close>

lemma Copy_aborted: "abortIndex \<le>s x_index (Copy c)" "x_handlers (Copy c) = []" "x_conn (Copy c) = None"
  by (simp_all add: Copy_def)

lemma copy_shares_keys:
  assumes "keys_ok c ks" "x_Keys c \<noteq> None" "shared_Set key v (Copy c) ks = (d, ks')"
  shows "shared_Get key c ks' = (v, True)"
  using assms by (auto simp: shared_Get_def shared_Set_def Copy_def keys_of_def keys_ok_def)

text \<open>Before the first \<open>Set\<close> there is no map to share.\<close>

lemma copy_of_fresh:
  assumes "x_Keys c = None" "shared_Set key v (Copy c) ks = (d, ks')"
  shows "shared_Get key' c ks' = (GNil, False)"
  using assms by (auto simp: shared_Get_def keys_of_def)

text \<open>The step of \<open>getValue\<close> that saves a parameter, on slices with shared arrays.\<close>

definition shared_save :: "8 word \<Rightarrow> nat \<Rightarrow> string \<Rightarrow> string \<Rightarrow> pslice_ref \<Rightarrow> arrays \<Rightarrow> (pslice_ref \<times> arrays) go" where
  "shared_save maxParams k npath val p ps =
     (let (q, ps) = (if length (ps ! fst p) < unat maxParams
                     then ((length ps, 0), ps @ [replicate (unat maxParams) ([], [])]) else (p, ps))
      in if snd q < length (ps ! fst q) then
           if k \<le> length npath then
             Inr ((fst q, Suc (snd q)), ps[fst q := (ps ! fst q)[snd q := (drop k npath, val)]])
           else Inl slice_panic
         else Inl slice_panic)"

definition slice_ok :: "pslice_ref \<Rightarrow> arrays \<Rightarrow> bool" where
  "slice_ok p ps \<longleftrightarrow> fst p < length ps \<and> snd p \<le> length (ps ! fst p)"

definition pslice_of :: "pslice_ref \<Rightarrow> arrays \<Rightarrow> pslice" where
  "pslice_of p ps = \<lparr>p_elems = take (snd p) (ps ! fst p), p_cap = length (ps ! fst p)\<rparr>"

text \<open>On one context the sharing is invisible: this is the \<open>save_param\<close> of the tree.\<close>

lemma shared_save_abs:
  assumes "slice_ok p ps" "shared_save m k npath val p ps = Inr (p', ps')"
  shows "save_param m k npath val (pslice_of p ps) = Inr (pslice_of p' ps')" "slice_ok p' ps'"
  using assms
  by (auto simp: shared_save_def save_param_def pslice_of_def slice_ok_def Let_def nth_append take_Suc_conv_app_nth
      split: if_splits)

lemma shared_save_panics:
  assumes "slice_ok p ps" "shared_save m k npath val p ps = Inl msg"
  shows "save_param m k npath val (pslice_of p ps) = Inl msg"
  using assms
  by (auto simp: shared_save_def save_param_def pslice_of_def slice_ok_def Let_def nth_append split: if_splits)

text \<open>\<open>reset\<close> of a context from the pool: the parameters keep their array.\<close>

definition shared_reset :: "'h Context \<Rightarrow> 'h Context" where
  "shared_reset c = c\<lparr>x_Params := (fst (x_Params c), 0), x_handlers := [], x_index := -1, x_Keys := None, x_Errors := [],
     x_Accepted := None\<rparr>"

text \<open>
  A copy keeps the array of the parameters, and so does the context when it goes back to the pool: the
  first parameter of the next request replaces the one that the copy still reads.
\<close>

lemma copy_params_overwritten:
  assumes "slice_ok (x_Params c) ps" "x_Params c = (a, Suc n)" "unat m \<le> length (ps ! a)"
    "shared_save m k npath val (x_Params (shared_reset c)) ps = Inr (p', ps')"
  shows "p_elems (pslice_of (x_Params (Copy c)) ps') ! 0 = (drop k npath, val)"
  using assms
  by (auto simp: shared_save_def shared_reset_def pslice_of_def slice_ok_def Copy_def Let_def split: if_splits)

text \<open>The rest of \<open>context.Context\<close>: a request is never canceled and has no deadline.\<close>

definition gin_Deadline :: "nat option" where "gin_Deadline = None"
definition gin_Done :: "nat option" where "gin_Done = None"
definition gin_Err :: "string option" where "gin_Err = None"

text \<open>\<open>http.ServeFile\<close> is a parameter; \<open>CloseNotify\<close> is a cast of the writer of \<open>net/http\<close>, which may not fit.\<close>

definition ctx_File :: "(string \<Rightarrow> request \<Rightarrow> responseWriter \<Rightarrow> responseWriter) \<Rightarrow> string \<Rightarrow> ctx \<Rightarrow> ctx" where
  "ctx_File ServeFile filepath c = on_writer (ServeFile filepath (c_Request c)) c"

definition CloseNotify :: "'c option \<Rightarrow> 'c go" where
  "CloseNotify notifier =
     (case notifier of
        None \<Rightarrow> Inl ''interface conversion: http.ResponseWriter is not http.CloseNotifier: missing method CloseNotify''
      | Some ch \<Rightarrow> Inr ch)"

section \<open>Handlers made of other things\<close>

definition BindKey :: string where "BindKey = ''_gin-gonic/gin/bindkey''"

text \<open>
  \<open>Bind\<close> gets a value to bind to, not a pointer. Each request gets a new zero value; \<open>stored\<close> is the value
  as \<open>Set\<close> stores it. The handler may panic before it is a program of the chain.
\<close>

definition gin_Bind :: "'f bind_env \<Rightarrow> (bind_error \<Rightarrow> string) \<Rightarrow> ('f gval list \<Rightarrow> goval) \<Rightarrow> bool \<Rightarrow> fields \<Rightarrow>
    (bind_request \<Rightarrow> ctx \<Rightarrow> ctx prog) go" where
  "gin_Bind env show stored pointer fs =
     (if pointer then
        Inl (''Bind struct can not be a pointer. Example:'' @ [LF, CHR 0x09] @
          ''Use: gin.Bind(Struct{}) instead of gin.Bind(&Struct{})'' @ [LF])
      else Inr (\<lambda>req c.
        case binding_Bind env (binding_Default (q_Method (c_Request c)) (ContentType c)) req fs
            (map (\<lambda>(n, tag, s, t). zero (be_floats env) t) fs) of
          Inl m \<Rightarrow> Throw c m
        | Inr (None, vs) \<Rightarrow> Return (ctx_Set BindKey (stored vs) c)
        | Inr (Some err, vs) \<Rightarrow> BindWith (Some (Plain (show err))) c))"

definition ensureNotPointer :: "bool \<Rightarrow> unit go" where
  "ensureNotPointer pointer = (if pointer then Inl ''Pointers are not accepted as binding models'' else Inr ())"

text \<open>A handler of \<open>net/http\<close> works on the writer and the request; it can panic.\<close>

type_synonym http_handler = "request \<Rightarrow> responseWriter \<Rightarrow> string option \<times> responseWriter"

definition WrapF :: "http_handler \<Rightarrow> ctx \<Rightarrow> ctx prog" where
  "WrapF f c =
     (case f (c_Request c) (c_writermem c) of
        (None, w) \<Rightarrow> Return (c\<lparr>c_writermem := w\<rparr>)
      | (Some m, w) \<Rightarrow> Throw (c\<lparr>c_writermem := w\<rparr>) m)"

definition WrapH :: "http_handler \<Rightarrow> ctx \<Rightarrow> ctx prog" where
  "WrapH h c = WrapF h c"

text \<open>A value bound without an error is found under the key, and the request goes on.\<close>

lemma gin_Bind_stored:
  assumes "gin_Bind env show stored False fs = Inr handler"
    "binding_Bind env (binding_Default (q_Method (c_Request c)) (ContentType c)) req fs
       (map (\<lambda>(n, tag, s, t). zero (be_floats env) t) fs) = Inr (None, vs)"
  shows "\<exists>d. handler req c = Return d \<and> ctx_Get BindKey d = (stored vs, True)"
  using assms by (auto simp: gin_Bind_def)

section \<open>Errors as JSON\<close>

text \<open>\<open>json.Marshal\<close> is a parameter.\<close>

definition Error_MarshalJSON :: "(goval \<Rightarrow> string + string) \<Rightarrow> GErr \<Rightarrow> string + string" where
  "Error_MarshalJSON Marshal msg = Marshal (Error_JSON msg)"

definition Errors_MarshalJSON :: "(goval \<Rightarrow> string + string) \<Rightarrow> errorMsgs \<Rightarrow> string + string" where
  "Errors_MarshalJSON Marshal a = Marshal (Errors_JSON a)"

section \<open>Messages and modes\<close>

definition debugPrintWARNINGNew :: "gin_mode \<Rightarrow> string" where
  "debugPrintWARNINGNew m = debugPrint m
     (''[WARNING] Running in '' @ [CHR 0x22] @ ''debug'' @ [CHR 0x22] @ '' mode. Switch to '' @ [CHR 0x22] @ ''release'' @
      [CHR 0x22] @ '' mode in production.'' @ [LF] @
      '' - using env:'' @ [CHR 0x09] @ ''export GIN_MODE=release'' @ [LF] @
      '' - using code:'' @ [CHR 0x09] @ ''gin.SetMode(gin.ReleaseMode)'' @ [LF, LF])"

definition debugPrintWARNINGSetHTMLTemplate :: "gin_mode \<Rightarrow> string" where
  "debugPrintWARNINGSetHTMLTemplate m = debugPrint m
     (''[WARNING] Since SetHTMLTemplate() is NOT thread-safe. It should only be called'' @ [LF] @
      ''at initialization. ie. before any route is registered or the router is listening in a socket:'' @ [LF, LF, CHR 0x09] @
      ''router := gin.Default()'' @ [LF, CHR 0x09] @
      ''router.SetHTMLTemplate(template) // << good place'' @ [LF, LF])"

definition Mode :: "gin_mode \<Rightarrow> string" where
  "Mode m = mode_name m"

definition DisableBindValidation :: "'f bind_env \<Rightarrow> 'f bind_env" where
  "DisableBindValidation env = env\<lparr>be_validator := None\<rparr>"

text \<open>Without validation the answer of a binding is that of its decoder.\<close>

lemma unvalidated:
  assumes "binding_Bind (DisableBindValidation env) b req fs vs = Inr (None, ws)"
  shows "\<exists>err. binding_Bind env b req fs vs = Inr (err, ws) \<and> err = validate env fs ws"
  using assms
  by (cases b)
    (auto simp: DisableBindValidation_def then_validate_def validate_def [of "env\<lparr>be_validator := None\<rparr>"] mapG_def
      split: option.splits sum.splits prod.splits)

section \<open>Servers\<close>

definition SetHTMLTemplate :: "gin_mode \<Rightarrow> tmpl_source \<Rightarrow> 'h engine \<Rightarrow> string \<times> 'h engine" where
  "SetHTMLTemplate m templ e =
     (if 0 < length (en_trees e) then debugPrintWARNINGSetHTMLTemplate m else [],
      e\<lparr>en_config := (en_config e)\<lparr>g_HTMLRender := Some (HTMLProduction templ)\<rparr>\<rparr>)"

text \<open>
  What a server does in order. Serving blocks until there is an error, which is given; \<open>Listen\<close> opens a
  socket, which can fail.
\<close>

datatype server_event = Print string | ListenAndServe string | ListenAndServeTLS string string string
  | RemoveFile string | Listen string | ServeListener string | CloseListener

definition Run :: "gin_mode \<Rightarrow> string \<Rightarrow> string \<Rightarrow> server_event list \<times> string option" where
  "Run m addr err =
     ([Print (debugPrint m (''Listening and serving HTTP on '' @ addr @ [LF])), ListenAndServe addr,
       Print (debugPrintError m (Some err))], Some err)"

definition RunTLS :: "gin_mode \<Rightarrow> string \<Rightarrow> string \<Rightarrow> string \<Rightarrow> string \<Rightarrow> server_event list \<times> string option" where
  "RunTLS m addr certFile keyFile err =
     ([Print (debugPrint m (''Listening and serving HTTPS on '' @ addr @ [LF])), ListenAndServeTLS addr certFile keyFile,
       Print (debugPrintError m (Some err))], Some err)"

text \<open>The deferred calls run in reverse order: the listener is closed before the error is printed.\<close>

definition RunUnix :: "gin_mode \<Rightarrow> string \<Rightarrow> string option \<Rightarrow> string \<Rightarrow> server_event list \<times> string option" where
  "RunUnix m file no_listener err =
     (case no_listener of
        Some e \<Rightarrow>
          ([Print (debugPrint m (''Listening and serving HTTP on unix:/'' @ file)), RemoveFile file, Listen file,
            Print (debugPrintError m (Some e))], Some e)
      | None \<Rightarrow>
          ([Print (debugPrint m (''Listening and serving HTTP on unix:/'' @ file)), RemoveFile file, Listen file, ServeListener file,
            CloseListener, Print (debugPrintError m (Some err))], Some err))"

text \<open>A socket that was opened is closed again.\<close>

lemma RunUnix_closes:
  assumes "RunUnix m file no_listener err = (tr, r)"
  shows "ServeListener file \<in> set tr \<longleftrightarrow> CloseListener \<in> set tr" "\<exists>pre. tr = pre @ [Print (debugPrintError m r)]"
  using assms by (auto simp: RunUnix_def split: option.splits)

end
