(* ===== verification/GlogHeader.thy ===== *)
theory GlogHeader
  imports GoStrings
begin

text \<open>
  The header of a log line (\<open>glog.go\<close>: \<open>formatHeader\<close>, \<open>header\<close> and the digit helpers on the 64-byte
  scratch array), with the free list of buffers. The clock, the caller and the process id are
  parameters. \<open>int\<close> is Go's 64-bit \<open>int\<close>; the numbers printed stay far inside it.
\<close>

section \<open>Buffers\<close>

record buffer =
  b_bytes :: string
  b_tmp :: string

definition new_buffer :: buffer where
  "new_buffer = \<lparr>b_bytes = [], b_tmp = replicate 64 (CHR 0x00)\<rparr>"

text \<open>\<open>getBuffer\<close> and \<open>putBuffer\<close> on the free list.\<close>

definition getBuffer :: "buffer list \<Rightarrow> buffer \<times> buffer list" where
  "getBuffer freeList =
     (case freeList of [] \<Rightarrow> (new_buffer, []) | b # bs \<Rightarrow> (b\<lparr>b_bytes := []\<rparr>, bs))"

definition putBuffer :: "buffer \<Rightarrow> buffer list \<Rightarrow> buffer list" where
  "putBuffer b freeList = (if 256 \<le> length (b_bytes b) then freeList else b # freeList)"

section \<open>Digits\<close>

text \<open>\<open>digits[d%10]\<close> and \<open>d /= 10\<close>: Go rounds towards zero, so a negative \<open>d\<close> can panic.\<close>

definition go_mod :: "int \<Rightarrow> int \<Rightarrow> int" where
  "go_mod a b = sgn a * (\<bar>a\<bar> mod \<bar>b\<bar>)"

definition go_div :: "int \<Rightarrow> int \<Rightarrow> int" where
  "go_div a b = sgn a * sgn b * (\<bar>a\<bar> div \<bar>b\<bar>)"

definition digit_at :: "int \<Rightarrow> char go" where
  "digit_at d = (let r = go_mod d 10 in if r < 0 then Inl index_panic else Inr (digit_char (nat r)))"

definition tset :: "nat \<Rightarrow> char \<Rightarrow> string \<Rightarrow> string go" where
  "tset i c t = (if i < length t then Inr (t[i := c]) else Inl index_panic)"

definition twoDigits :: "nat \<Rightarrow> int \<Rightarrow> string \<Rightarrow> string go" where
  "twoDigits i d t =
     bindG (digit_at d) (\<lambda>c. bindG (tset (i + 1) c t) (\<lambda>t.
     bindG (digit_at (go_div d 10)) (\<lambda>c. tset i c t)))"

text \<open>The two loops of \<open>nDigits\<close>, from the position \<open>j - 1\<close> downwards.\<close>

fun nDigits_loop :: "nat \<Rightarrow> nat \<Rightarrow> int \<Rightarrow> char \<Rightarrow> string \<Rightarrow> string go" where
  "nDigits_loop 0 i d pad t = Inr t"
| "nDigits_loop (Suc j) i d pad t =
     (if 0 < d
      then bindG (digit_at d) (\<lambda>c. bindG (tset (i + j) c t) (nDigits_loop j i (go_div d 10) pad))
      else bindG (tset (i + j) pad t) (nDigits_loop j i d pad))"

definition nDigits :: "nat \<Rightarrow> nat \<Rightarrow> int \<Rightarrow> char \<Rightarrow> string \<Rightarrow> string go" where
  "nDigits n i d pad t = nDigits_loop n i d pad t"

text \<open>\<open>someDigits\<close> prints into the top of the array and copies down.\<close>

fun someDigits_loop :: "nat \<Rightarrow> int \<Rightarrow> string \<Rightarrow> (nat \<times> string) go" where
  "someDigits_loop 0 d t = Inl index_panic"
| "someDigits_loop (Suc j) d t =
     bindG (digit_at d) (\<lambda>c. bindG (tset j c t) (\<lambda>t.
       if go_div d 10 = 0 then Inr (j, t) else someDigits_loop j (go_div d 10) t))"

definition someDigits :: "nat \<Rightarrow> int \<Rightarrow> string \<Rightarrow> (nat \<times> string) go" where
  "someDigits i d t =
     bindG (someDigits_loop (length t) d t) (\<lambda>(j, t).
       let n = min (length t - i) (length t - j)
       in Inr (n, take i t @ take n (drop j t) @ drop (i + n) t))"

section \<open>The header\<close>

record gtime =
  t_year :: int
  t_month :: int
  t_day :: int
  t_hour :: int
  t_minute :: int
  t_second :: int
  t_nano :: int

definition infoLog :: int where [simp]: "infoLog = 0"
definition warningLog :: int where [simp]: "warningLog = 1"
definition errorLog :: int where [simp]: "errorLog = 2"
definition fatalLog :: int where [simp]: "fatalLog = 3"

definition severityChar :: string where
  "severityChar = ''IWEF''"

definition severity_char :: "int \<Rightarrow> char go" where
  "severity_char s = (if s < 0 then Inl index_panic else at severityChar (nat s))"

definition formatHeader :: "gtime \<Rightarrow> int \<Rightarrow> int \<Rightarrow> string \<Rightarrow> int \<Rightarrow> buffer list \<Rightarrow> (buffer \<times> buffer list) go" where
  "formatHeader now pid s file line freeList =
     (let line = (if line < 0 then 0 else line);
          s = (if fatalLog < s then infoLog else s);
          (buf, freeList) = getBuffer freeList
      in bindG (severity_char s) (\<lambda>c.
         bindG (tset 0 c (b_tmp buf)) (\<lambda>t.
         bindG (twoDigits 1 (t_month now) t) (\<lambda>t.
         bindG (twoDigits 3 (t_day now) t) (\<lambda>t.
         bindG (tset 5 (CHR '' '') t) (\<lambda>t.
         bindG (twoDigits 6 (t_hour now) t) (\<lambda>t.
         bindG (tset 8 (CHR '':'') t) (\<lambda>t.
         bindG (twoDigits 9 (t_minute now) t) (\<lambda>t.
         bindG (tset 11 (CHR '':'') t) (\<lambda>t.
         bindG (twoDigits 12 (t_second now) t) (\<lambda>t.
         bindG (tset 14 (CHR ''.'') t) (\<lambda>t.
         bindG (nDigits 6 15 (go_div (t_nano now) 1000) (CHR ''0'') t) (\<lambda>t.
         bindG (tset 21 (CHR '' '') t) (\<lambda>t.
         bindG (nDigits 7 22 pid (CHR '' '') t) (\<lambda>t.
         bindG (tset 29 (CHR '' '') t) (\<lambda>t.
         let out = b_bytes buf @ take 30 t @ file
         in bindG (tset 0 (CHR '':'') t) (\<lambda>t.
         bindG (someDigits 1 line t) (\<lambda>(n, t).
         bindG (tset (n + 1) (CHR '']'') t) (\<lambda>t.
         bindG (tset (n + 2) (CHR '' '') t) (\<lambda>t.
         Inr (\<lparr>b_bytes = out @ take (n + 3) t, b_tmp = t\<rparr>, freeList)))))))))))))))))))))"

text \<open>
  \<open>caller\<close> is the outcome of \<open>runtime.Caller\<close>; the header names only the last element of the path.
\<close>

definition base_name :: "string \<Rightarrow> string" where
  "base_name s = rev (takeWhile (\<lambda>c. c \<noteq> CHR ''/'') (rev s))"

definition caller_place :: "(string \<times> int) option \<Rightarrow> string \<times> int" where
  "caller_place caller =
     (case caller of None \<Rightarrow> (''???'', 1) | Some (file, line) \<Rightarrow> (base_name file, line))"

definition header :: "gtime \<Rightarrow> int \<Rightarrow> int \<Rightarrow> (string \<times> int) option \<Rightarrow> buffer list \<Rightarrow>
    ((buffer \<times> string \<times> int) \<times> buffer list) go" where
  "header now pid s caller freeList =
     (let (file, line) = caller_place caller
      in mapG (\<lambda>(b, fl). ((b, file, line), fl)) (formatHeader now pid s file line freeList))"

section \<open>Writing into the array\<close>

definition patch :: "string \<Rightarrow> nat \<Rightarrow> string \<Rightarrow> string" where
  "patch t i s = take i t @ s @ drop (i + length s) t"

lemma length_patch [simp]: "i + length s \<le> length t \<Longrightarrow> length (patch t i s) = length t"
  by (simp add: patch_def)

lemma take_patch: "i \<le> length t \<Longrightarrow> j = i + length s \<Longrightarrow> take j (patch t i s) = take i t @ s"
  by (simp add: patch_def min_def)

lemma drop_patch: "i + length s = length t \<Longrightarrow> drop i (patch t i s) = s"
  by (simp add: patch_def min_def)

lemma patch_patch:
  assumes "i + length s + length u \<le> length t"
  shows "patch (patch t (i + length s) u) i s = patch t i (s @ u)"
  using assms by (simp add: patch_def min_def add.assoc [symmetric])

lemma tset_patch: "i < length t \<Longrightarrow> tset i c t = Inr (patch t i [c])"
  by (simp add: tset_def patch_def upd_conv_take_nth_drop)

lemma digit_at_nat: "0 \<le> d \<Longrightarrow> digit_at d = Inr (digit_char (nat (d mod 10)))"
  by (cases "d = 0") (simp_all add: digit_at_def go_mod_def Let_def)

lemma go_div_nat [simp]: "0 \<le> d \<Longrightarrow> 0 < b \<Longrightarrow> go_div d b = d div b"
  by (cases "d = 0") (simp_all add: go_div_def)

definition two :: "int \<Rightarrow> string" where
  "two d = [digit_char (nat (d div 10 mod 10)), digit_char (nat (d mod 10))]"

lemma length_two [simp]: "length (two d) = 2"
  by (simp add: two_def)

lemma twoDigits_patch:
  assumes "0 \<le> d" "i + 2 \<le> length t"
  shows "twoDigits i d t = Inr (patch t i (two d))"
proof -
  have "twoDigits i d t = Inr (patch (patch t (i + 1) [digit_char (nat (d mod 10))]) i [digit_char (nat (d div 10 mod 10))])"
    using assms by (simp add: twoDigits_def digit_at_nat tset_patch)
  with patch_patch [of i "[digit_char (nat (d div 10 mod 10))]" "[digit_char (nat (d mod 10))]" t] assms(2)
  show ?thesis by (simp add: two_def)
qed

text \<open>What \<open>nDigits\<close> prints: the last \<open>n\<close> digits, or padding on the left; nothing but padding for 0.\<close>

fun ndig :: "nat \<Rightarrow> char \<Rightarrow> int \<Rightarrow> string" where
  "ndig 0 pad d = []"
| "ndig (Suc j) pad d =
     (if 0 < d then ndig j pad (d div 10) @ [digit_char (nat (d mod 10))] else ndig j pad d @ [pad])"

lemma length_ndig [simp]: "length (ndig n pad d) = n"
  by (induction n pad d rule: ndig.induct) auto

lemma nDigits_patch:
  assumes "0 \<le> d" "i + n \<le> length t"
  shows "nDigits n i d pad t = Inr (patch t i (ndig n pad d))"
  unfolding nDigits_def using assms
proof (induction n arbitrary: d t)
  case (Suc n)
  have p: "patch (patch t (i + n) [c]) i (ndig n pad e) = patch t i (ndig n pad e @ [c])" for c e
    using patch_patch [of i "ndig n pad e" "[c]" t] Suc.prems(2) by simp
  show ?case
  proof (cases "0 < d")
    case True
    with Suc.IH [of "d div 10" "patch t (i + n) [digit_char (nat (d mod 10))]"] Suc.prems p show ?thesis
      by (simp add: digit_at_nat tset_patch)
  next
    case False
    with Suc.IH [of d "patch t (i + n) [pad]"] Suc.prems p show ?thesis by (simp add: tset_patch)
  qed
qed (simp add: patch_def)

lemma ndig_0: "ndig n pad 0 = replicate n pad"
  by (induction n) (simp_all add: replicate_append_same)

lemma nat_dec_small: "0 \<le> d \<Longrightarrow> d < 10 \<Longrightarrow> nat_dec (nat d) = [digit_char (nat (d mod 10))]"
  by (subst nat_dec.simps) (simp add: nat_less_iff)

lemma nat_dec_big: "10 \<le> d \<Longrightarrow> nat_dec (nat d) = nat_dec (nat (d div 10)) @ [digit_char (nat (d mod 10))]"
  by (subst nat_dec.simps) (simp add: nat_less_iff nat_div_distrib nat_mod_distrib)

lemma ndig_dec:
  assumes "0 < d" "length (nat_dec (nat d)) \<le> n"
  shows "ndig n pad d = replicate (n - length (nat_dec (nat d))) pad @ nat_dec (nat d)"
  using assms
proof (induction n arbitrary: d)
  case (Suc n)
  show ?case
  proof (cases "d < 10")
    case True
    then show ?thesis using Suc.prems(1) ndig_0 [of n pad] nat_dec_small [of d] by simp
  next
    case False
    then have "nat_dec (nat d) = nat_dec (nat (d div 10)) @ [digit_char (nat (d mod 10))]"
      by (intro nat_dec_big) simp
    with Suc.IH [of "d div 10"] Suc.prems False show ?thesis by simp
  qed
qed simp

lemma someDigits_loop_patch:
  assumes "0 \<le> d" "k \<le> length t" "length (nat_dec (nat d)) \<le> k"
  shows "someDigits_loop k d t =
    Inr (k - length (nat_dec (nat d)), patch t (k - length (nat_dec (nat d))) (nat_dec (nat d)))"
  using assms
proof (induction k arbitrary: d t)
  case (Suc k)
  show ?case
  proof (cases "d < 10")
    case True
    with Suc.prems(1) have "nat_dec (nat d) = [digit_char (nat (d mod 10))]" by (rule nat_dec_small)
    then show ?thesis using True Suc.prems by (simp add: digit_at_nat tset_patch)
  next
    case False
    then have n: "nat_dec (nat d) = nat_dec (nat (d div 10)) @ [digit_char (nat (d mod 10))]"
      by (intro nat_dec_big) simp
    let ?l = "length (nat_dec (nat (d div 10)))"
    have l: "?l \<le> k" using Suc.prems(3) n by simp
    have "patch (patch t k [digit_char (nat (d mod 10))]) (k - ?l) (nat_dec (nat (d div 10))) =
        patch t (k - ?l) (nat_dec (nat d))"
      using patch_patch [of "k - ?l" "nat_dec (nat (d div 10))" "[digit_char (nat (d mod 10))]" t] l Suc.prems(2)
      by (simp add: n)
    moreover have "d div 10 \<noteq> 0" using False by presburger
    ultimately show ?thesis
      using Suc.IH [of "d div 10" "patch t k [digit_char (nat (d mod 10))]"] Suc.prems False l n
      by (simp add: digit_at_nat tset_patch)
  qed
qed (use nat_dec_not_Nil in auto)

lemma someDigits_patch:
  assumes "0 \<le> d" "length (nat_dec (nat d)) + i \<le> length t"
  shows "\<exists>t'. someDigits i d t = Inr (length (nat_dec (nat d)), t') \<and> length t' = length t \<and>
    take (i + length (nat_dec (nat d))) t' = take i t @ nat_dec (nat d)"
proof -
  let ?s = "nat_dec (nat d)" and ?j = "length t - length (nat_dec (nat d))"
  let ?t = "patch t ?j ?s"
  have j: "i \<le> ?j" "?j + length ?s = length t" using assms(2) by simp_all
  have "someDigits_loop (length t) d t = Inr (?j, ?t)"
    using someDigits_loop_patch [of d "length t" t] assms by simp
  moreover have lt: "length ?t = length t" using j(2) by simp
  moreover have "drop ?j ?t = ?s" by (rule drop_patch [OF j(2)])
  moreover have "min (length t - i) (length t - ?j) = length ?s" using assms(2) by simp
  ultimately have "someDigits i d t = Inr (length ?s, patch ?t i ?s)"
    by (simp add: someDigits_def Let_def patch_def)
  moreover have "take i ?t = take i t" using j by (simp add: patch_def min_def)
  moreover have "take (i + length ?s) (patch ?t i ?s) = take i ?t @ ?s"
    using assms(2) lt by (intro take_patch) simp_all
  moreover have "length (patch ?t i ?s) = length t" using assms(2) lt by simp
  ultimately show ?thesis by auto
qed

section \<open>The text of the header\<close>

definition pad_dec :: "nat \<Rightarrow> char \<Rightarrow> int \<Rightarrow> string" where
  "pad_dec n pad d = replicate (n - length (nat_dec (nat d))) pad @ nat_dec (nat d)"

definition header_text :: "gtime \<Rightarrow> int \<Rightarrow> int \<Rightarrow> string \<Rightarrow> int \<Rightarrow> string" where
  "header_text now pid s file line =
     [severityChar ! nat s] @ two (t_month now) @ two (t_day now) @ '' '' @
     two (t_hour now) @ '':'' @ two (t_minute now) @ '':'' @ two (t_second now) @ ''.'' @
     pad_dec 6 (CHR ''0'') (t_nano now div 1000) @ '' '' @ pad_dec 7 (CHR '' '') pid @ '' '' @
     file @ '':'' @ nat_dec (nat line) @ ''] ''"

definition clock_ok :: "gtime \<Rightarrow> bool" where
  "clock_ok now \<longleftrightarrow> 0 \<le> t_month now \<and> 0 \<le> t_day now \<and> 0 \<le> t_hour now \<and> 0 \<le> t_minute now \<and>
     0 \<le> t_second now \<and> 0 \<le> t_nano now \<and> t_nano now < 1000000000"

definition pool_ok :: "buffer list \<Rightarrow> bool" where
  "pool_ok fl \<longleftrightarrow> (\<forall>b \<in> set fl. length (b_tmp b) = 64)"

lemma getBuffer_ok:
  assumes "pool_ok fl" "getBuffer fl = (b, fl')"
  shows "b_bytes b = []" "length (b_tmp b) = 64" "pool_ok fl'" "length fl' = length fl - 1"
  using assms by (auto simp: getBuffer_def pool_ok_def new_buffer_def split: list.splits)

lemma pool_ok_put: "pool_ok fl \<Longrightarrow> length (b_tmp b) = 64 \<Longrightarrow> pool_ok (putBuffer b fl)"
  by (simp add: putBuffer_def pool_ok_def)

lemma dec_length_nano: "0 \<le> d \<Longrightarrow> d < 1000000 \<Longrightarrow> length (nat_dec (nat d)) \<le> 6"
  using length_nat_dec [of "nat d" 5] by (simp add: nat_less_iff)

lemma dec_length_pid: "0 \<le> d \<Longrightarrow> d < 10000000 \<Longrightarrow> length (nat_dec (nat d)) \<le> 7"
  using length_nat_dec [of "nat d" 6] by (simp add: nat_less_iff)

lemma dec_length_line: "d < 9223372036854775808 \<Longrightarrow> length (nat_dec (nat d)) \<le> 19"
  using length_nat_dec [of "nat d" 18] by (simp add: nat_less_iff)

lemma ndig_nano: "0 \<le> d \<Longrightarrow> d < 1000000 \<Longrightarrow> ndig 6 (CHR ''0'') d = pad_dec 6 (CHR ''0'') d"
proof (cases "d = 0")
  case True
  have "digit_char 0 = CHR ''0''" by code_simp
  with True show ?thesis unfolding True ndig_0 pad_dec_def by (simp add: nat_dec.simps [of 0] eval_nat_numeral)
qed (simp add: ndig_dec dec_length_nano pad_dec_def)

lemma ndig_pid: "0 < d \<Longrightarrow> d < 10000000 \<Longrightarrow> ndig 7 pad d = pad_dec 7 pad d"
  by (simp add: ndig_dec dec_length_pid pad_dec_def)

text \<open>The array is written from left to right: \<open>filled t s\<close> says that it begins with \<open>s\<close>.\<close>

definition filled :: "string \<Rightarrow> string \<Rightarrow> bool" where
  "filled t s \<longleftrightarrow> length t = 64 \<and> take (length s) t = s"

lemma filled_patch:
  assumes "filled t s" "i = length s" "i + length u \<le> 64"
  shows "filled (patch t i u) (s @ u)"
  using assms by (simp add: filled_def take_patch)

definition returns :: "'a go \<Rightarrow> ('a \<Rightarrow> bool) \<Rightarrow> bool" where
  "returns r Q \<longleftrightarrow> (\<exists>x. r = Inr x \<and> Q x)"

lemma returns_mono: "returns r Q \<Longrightarrow> (\<And>x. Q x \<Longrightarrow> R x) \<Longrightarrow> returns r R"
  by (auto simp: returns_def)

lemma wp_tset:
  assumes "filled t s" "length s < 64" "i = length s" "\<And>t'. filled t' (s @ [c]) \<Longrightarrow> returns (f t') Q"
  shows "returns (bindG (tset i c t) f) Q"
  using filled_patch [OF assms(1,3), of "[c]"] assms by (simp add: tset_patch filled_def)

lemma wp_twoDigits:
  assumes "filled t s" "length s + 2 \<le> 64" "i = length s" "0 \<le> d"
    "\<And>t'. filled t' (s @ two d) \<Longrightarrow> returns (f t') Q"
  shows "returns (bindG (twoDigits i d t) f) Q"
  using filled_patch [OF assms(1,3), of "two d"] assms by (simp add: twoDigits_patch filled_def)

lemma wp_nDigits:
  assumes "filled t s" "length s + n \<le> 64" "i = length s" "0 \<le> d"
    "\<And>t'. filled t' (s @ ndig n pad d) \<Longrightarrow> returns (f t') Q"
  shows "returns (bindG (nDigits n i d pad t) f) Q"
  using filled_patch [OF assms(1,3), of "ndig n pad d"] assms by (simp add: nDigits_patch filled_def)

lemmas wp_steps = wp_tset wp_twoDigits wp_nDigits

lemma wp_someDigits:
  assumes "filled t s" "i = length s" "0 \<le> d" "length s + length (nat_dec (nat d)) \<le> 64"
    "\<And>t'. filled t' (s @ nat_dec (nat d)) \<Longrightarrow> returns (f (length (nat_dec (nat d)), t')) Q"
  shows "returns (bindG (someDigits i d t) f) Q"
proof -
  have "length (nat_dec (nat d)) + i \<le> length t" using assms by (simp add: filled_def)
  from someDigits_patch [OF assms(3) this] assms(1,2) obtain t' where
    "someDigits i d t = Inr (length (nat_dec (nat d)), t')" "filled t' (s @ nat_dec (nat d))"
    by (auto simp: filled_def)
  with assms(5) show ?thesis by simp
qed

text \<open>The second use of the array, for the line number, starts again at its beginning.\<close>

lemma filled_Nil: "filled t s \<Longrightarrow> filled t []"
  by (simp add: filled_def)

lemma wp_line:
  assumes "filled t0 s" "length s = 30" "0 \<le> line" "length (nat_dec (nat line)) \<le> 19"
  shows "returns (bindG (tset 0 (CHR '':'') t0) (\<lambda>t. bindG (someDigits 1 line t) (\<lambda>(n, t).
      bindG (tset (n + 1) (CHR '']'') t) (\<lambda>t. bindG (tset (n + 2) (CHR '' '') t) (\<lambda>t.
      Inr (\<lparr>b_bytes = (pre @ take 30 t0 @ file) @ take (n + 3) t, b_tmp = t\<rparr>, fl))))))
    (\<lambda>(b, fl'). b_bytes b = pre @ s @ file @ '':'' @ nat_dec (nat line) @ ''] '' \<and> length (b_tmp b) = 64 \<and> fl' = fl)"
proof -
  have s: "take 30 t0 = s" using assms(1,2) by (metis filled_def)
  have n: "length (nat_dec (nat line)) + 3 = Suc (Suc (Suc (length (nat_dec (nat line)))))" by simp
  show ?thesis unfolding s
    using filled_Nil [OF assms(1)] assms(3,4)
    apply -
    apply (erule wp_tset, simp, simp)
    apply (erule wp_someDigits, simp, simp, simp)
    apply (simp only: prod.case)
    apply (erule wp_tset, simp, simp)+
    apply (auto simp: returns_def filled_def n)
    done
qed

lemma formatHeader_text:
  assumes "clock_ok now" "0 < pid" "pid < 10000000" "0 \<le> s" "s \<le> 3" "0 \<le> line" "line < 9223372036854775808"
    "pool_ok fl"
  shows "returns (formatHeader now pid s file line fl)
    (\<lambda>(b, fl'). b_bytes b = header_text now pid s file line \<and> length (b_tmp b) = 64 \<and> fl' = snd (getBuffer fl))"
proof -
  obtain b fl' where b: "getBuffer fl = (b, fl')" by fastforce
  note B = getBuffer_ok [OF assms(8) b]
  have c: "severity_char s = Inr (severityChar ! nat s)"
    using assms(4,5) by (simp add: severity_char_def at_def severityChar_def)
  let ?us = "t_nano now div 1000"
  have clock: "0 \<le> t_month now" "0 \<le> t_day now" "0 \<le> t_hour now" "0 \<le> t_minute now" "0 \<le> t_second now"
    "0 \<le> t_nano now" "0 \<le> ?us" "?us < 1000000" "0 \<le> pid" using assms(1,2) by (auto simp: clock_ok_def)
  have line: "length (nat_dec (nat line)) \<le> 19" by (rule dec_length_line [OF assms(7)])
  have start: "filled (b_tmp b) []" using B(2) by (simp add: filled_def)
  have s: "(if fatalLog < s then infoLog else s) = s" "(if line < 0 then 0 else line) = line" using assms(5,6) by simp_all
  show ?thesis
    unfolding formatHeader_def Let_def s b prod.case c bindG_simps go_div_nat [OF clock(6), of 1000, simplified]
    using start clock(1-5,7,9) assms(6) line
    apply -
    apply (erule wp_steps, (simp; fail), (simp; fail), (simp; fail)?)+
    apply (rule returns_mono, erule wp_line, (simp; fail)+)
    using B(1) clock(7,8) assms(2,3)
    apply (clarsimp simp: header_text_def ndig_nano ndig_pid)
    done
qed

section \<open>Properties of the header\<close>


definition sample_time :: gtime where
  "sample_time = \<lparr>t_year = 2015, t_month = 7, t_day = 4, t_hour = 9, t_minute = 5, t_second = 59, t_nano = 1234567\<rparr>"

definition used_buffer :: buffer where
  "used_buffer = \<lparr>b_bytes = ''old'', b_tmp = replicate 64 (CHR ''x'')\<rparr>"

lemma sample_header:
  "header_text sample_time 42 2 ''d.go'' 23 = ''E0704 09:05:59.001234      42 d.go:23] ''"
  by code_simp


text \<open>A reader of log lines, as a tool that processes log files has it.\<close>

record log_line =
  l_sev :: "nat option"
  l_clock :: "nat list"
  l_pid :: nat
  l_file :: string
  l_line :: nat
  l_msg :: string

definition read_line :: "string \<Rightarrow> log_line" where
  "read_line t =
     (let file = takeWhile (\<lambda>c. c \<noteq> CHR '':'') (drop 30 t);
          rest = drop (length file + 1) (drop 30 t);
          line = takeWhile (\<lambda>c. c \<noteq> CHR '']'') rest
      in \<lparr>l_sev = find_index (hd t) severityChar,
          l_clock = map (\<lambda>(i, n). dec_val (take n (drop i t))) [(1, 2), (3, 2), (6, 2), (9, 2), (12, 2), (15, 6)],
          l_pid = dec_val (dropWhile (\<lambda>c. c = CHR '' '') (take 7 (drop 22 t))),
          l_file = file, l_line = dec_val line, l_msg = drop (length line + 2) rest\<rparr>)"

lemma dec_val_two: "0 \<le> d \<Longrightarrow> d < 100 \<Longrightarrow> dec_val (two d) = nat d"
proof -
  assume d: "0 \<le> d" "d < 100"
  then have "nat (d div 10 mod 10) < 10" "nat (d mod 10) < 10" by (simp_all add: nat_less_iff)
  moreover have "nat (d div 10 mod 10) * 10 + nat (d mod 10) = nat d"
  proof -
    have "nat (d div 10 * 10 + d mod 10) = nat (d div 10) * 10 + nat (d mod 10)"
      using d by (subst nat_add_distrib) (simp_all add: nat_mult_distrib)
    moreover have "d div 10 mod 10 = d div 10" using d by simp
    ultimately show ?thesis by simp
  qed
  ultimately show ?thesis by (simp add: dec_val_def two_def)
qed

lemma dec_val_zeros: "dec_val (replicate k (CHR ''0'') @ s) = dec_val s"
  by (induction k) (simp_all add: dec_val_def digit_val_def)

lemma length_pad_dec: "length (nat_dec (nat d)) \<le> n \<Longrightarrow> length (pad_dec n pad d) = n"
  by (simp add: pad_dec_def)

lemma is_digit_space: "\<not> is_digit (CHR '' '')" "\<not> is_digit (CHR '']'')"
  by (simp_all add: is_digit_def)

lemma unpad_pid: "dropWhile (\<lambda>c. c = CHR '' '') (pad_dec n (CHR '' '') d) = nat_dec (nat d)"
proof -
  have "dropWhile (\<lambda>c. c = CHR '' '') (nat_dec (nat d)) = nat_dec (nat d)"
    using nat_dec_digits [of _ "nat d"] is_digit_space(1) nat_dec_not_Nil [of "nat d"]
    by (cases "nat_dec (nat d)") auto
  moreover have "dropWhile (\<lambda>c. c = CHR '' '') (replicate k (CHR '' '') @ s) = dropWhile (\<lambda>c. c = CHR '' '') s" for k s
    by (induction k) simp_all
  ultimately show ?thesis by (simp add: pad_dec_def)
qed

lemma takeWhile_stop: "(\<forall>c \<in> set s. P c) \<Longrightarrow> \<not> P d \<Longrightarrow> takeWhile P (s @ d # t) = s"
  by (simp add: takeWhile_append2)

lemma severity_index: "0 \<le> s \<Longrightarrow> s \<le> 3 \<Longrightarrow> find_index (severityChar ! nat s) severityChar = Some (nat s)"
  by (rule find_index_distinct) (auto simp: severityChar_def)

lemma read_header_text:
  assumes "0 \<le> s" "s \<le> 3" "0 \<le> t_month now" "t_month now < 100" "0 \<le> t_day now" "t_day now < 100"
    "0 \<le> t_hour now" "t_hour now < 100" "0 \<le> t_minute now" "t_minute now < 100" "0 \<le> t_second now" "t_second now < 100"
    "0 \<le> t_nano now" "t_nano now < 1000000000" "0 \<le> pid" "pid < 10000000" "CHR '':'' \<notin> set file"
  shows "read_line (header_text now pid s file line @ msg) =
    \<lparr>l_sev = Some (nat s), l_clock = map nat [t_month now, t_day now, t_hour now, t_minute now, t_second now, t_nano now div 1000],
     l_pid = nat pid, l_file = file, l_line = nat line, l_msg = msg\<rparr>"
proof -
  let ?us = "t_nano now div 1000"
  have us: "length (nat_dec (nat ?us)) \<le> 6" using assms(13,14) by (intro dec_length_nano) simp_all
  have pid: "length (nat_dec (nat pid)) \<le> 7" using assms(15,16) by (rule dec_length_pid)
  note len = length_pad_dec [OF us] length_pad_dec [OF pid]
  define tail where "tail = file @ CHR '':'' # nat_dec (nat line) @ CHR '']'' # CHR '' '' # msg"
  have t: "header_text now pid s file line @ msg =
     severityChar ! nat s # two (t_month now) @ two (t_day now) @ CHR '' '' # two (t_hour now) @ CHR '':'' #
     two (t_minute now) @ CHR '':'' # two (t_second now) @ CHR ''.'' # pad_dec 6 (CHR ''0'') ?us @ CHR '' '' #
     pad_dec 7 (CHR '' '') pid @ CHR '' '' # tail"
    by (simp add: header_text_def tail_def)
  have "drop 30 (header_text now pid s file line @ msg) = tail" unfolding t by (simp add: len)
  moreover have "takeWhile (\<lambda>c. c \<noteq> CHR '':'') tail = file"
    unfolding tail_def using assms(17) by (intro takeWhile_stop) auto
  moreover have "takeWhile (\<lambda>c. c \<noteq> CHR '']'') (nat_dec (nat line) @ CHR '']'' # CHR '' '' # msg) = nat_dec (nat line)"
    using nat_dec_digits is_digit_space(2) by (intro takeWhile_stop) auto
  moreover have "drop (length file + 1) tail = nat_dec (nat line) @ CHR '']'' # CHR '' '' # msg"
    by (simp add: tail_def)
  ultimately show ?thesis
    unfolding read_line_def Let_def
    by (simp add: t len severity_index assms dec_val_two unpad_pid) (simp add: pad_dec_def dec_val_zeros)
qed

text \<open>
  C23: a log line can be read back: from the header that \<open>formatHeader\<close> printed and any message
  after it, a reader recovers the severity, the date and the time to the microsecond, the process,
  the file, the line and the message.
\<close>

theorem header_roundtrip:
  assumes "clock_ok now" "0 < pid" "pid < 10000000" "0 \<le> s" "s \<le> 3" "0 \<le> line" "line < 9223372036854775808"
    "pool_ok fl" "formatHeader now pid s file line fl = Inr (b, fl')" "CHR '':'' \<notin> set file"
    "t_month now < 100" "t_day now < 100" "t_hour now < 100" "t_minute now < 100" "t_second now < 100"
  shows "read_line (b_bytes b @ msg) =
    \<lparr>l_sev = Some (nat s), l_clock = map nat [t_month now, t_day now, t_hour now, t_minute now, t_second now, t_nano now div 1000],
     l_pid = nat pid, l_file = file, l_line = nat line, l_msg = msg\<rparr>"
proof -
  have "b_bytes b = header_text now pid s file line"
    using formatHeader_text [OF assms(1-8), of "file"] assms(9) by (auto simp: returns_def)
  with assms show ?thesis by (simp add: read_header_text clock_ok_def)
qed

theorem header_roundtrip_witness:
  "\<exists>b fl'. formatHeader sample_time 42 2 ''d.go'' 23 [] = Inr (b, fl') \<and> l_line (read_line (b_bytes b @ ''boom'')) = 23 \<and>
     l_msg (read_line (b_bytes b @ ''boom'')) = ''boom''"
proof -
  have c: "clock_ok sample_time" "pool_ok []" by (simp_all add: clock_ok_def sample_time_def pool_ok_def)
  obtain b fl' where "formatHeader sample_time 42 2 ''d.go'' 23 [] = Inr (b, fl')"
    using formatHeader_text [of sample_time 42 2 23 "[]" "''d.go''"] c by (auto simp: returns_def)
  with header_roundtrip [OF c(1) _ _ _ _ _ _ c(2) this, of "''boom''"] show ?thesis
    by (simp add: sample_time_def)
qed

end
