(* ===== verification/GlogFile.thy ===== *)
theory GlogFile
  imports GlogHeader "HOL-Library.Word"
begin

text \<open>
  The files of the log (\<open>glog_file.go\<close>) on a model of the operating system's files and of
  \<open>bufio.Writer\<close>. Every call that can fail takes its outcome from a script of faults, so that a
  statement over all scripts is one over all behaviours of the disk.
\<close>

section \<open>The operating system\<close>

text \<open>
  \<open>o_faults\<close>: for every \<open>os.Create\<close> and every write to a file to come, \<open>None\<close> when it succeeds,
  \<open>Some (n, err)\<close> when it fails after \<open>n\<close> bytes; past the end of the script everything succeeds.
  \<open>o_now k\<close> is what the \<open>k\<close>-th call of \<open>time.Now\<close> reads, of which \<open>o_tick\<close> were made; the variable
  \<open>timeNow\<close> of the package is another function, \<open>o_timeNow\<close>.
\<close>

record osys =
  o_files :: "string \<rightharpoonup> string"
  o_links :: "string \<rightharpoonup> string"
  o_stderr :: string
  o_faults :: "(nat \<times> string) option list"
  o_now :: "nat \<Rightarrow> gtime"
  o_tick :: nat
  o_timeNow :: "nat \<Rightarrow> gtime"
  o_calls :: nat

definition next_fault :: "osys \<Rightarrow> (nat \<times> string) option \<times> osys" where
  "next_fault os = (case o_faults os of [] \<Rightarrow> (None, os) | f # fs \<Rightarrow> (f, os\<lparr>o_faults := fs\<rparr>))"

text \<open>\<open>os.Create\<close> truncates a file that exists.\<close>

definition os_Create :: "string \<Rightarrow> osys \<Rightarrow> string option \<times> osys" where
  "os_Create path os =
     (case next_fault os of
        (Some (_, err), os) \<Rightarrow> (Some err, os)
      | (None, os) \<Rightarrow> (None, os\<lparr>o_files := (o_files os)(path \<mapsto> [])\<rparr>))"

definition append_file :: "string \<Rightarrow> string \<Rightarrow> osys \<Rightarrow> osys" where
  "append_file path data os =
     os\<lparr>o_files := (o_files os)(path \<mapsto> (case o_files os path of None \<Rightarrow> data | Some old \<Rightarrow> old @ data))\<rparr>"

text \<open>The \<open>Write\<close> of an \<open>os.File\<close>; \<open>opened\<close> is false once the file is closed.\<close>

definition file_Write :: "string \<Rightarrow> bool \<Rightarrow> string \<Rightarrow> osys \<Rightarrow> (nat \<times> string option) \<times> osys" where
  "file_Write path opened p os =
     (if \<not> opened then ((0, Some ''file already closed''), os)
      else case next_fault os of
        (Some (n, err), os) \<Rightarrow> ((min n (length p), Some err), append_file path (take n p) os)
      | (None, os) \<Rightarrow> ((length p, None), append_file path p os))"

definition write_stderr :: "string \<Rightarrow> osys \<Rightarrow> osys" where
  "write_stderr s os = os\<lparr>o_stderr := o_stderr os @ s\<rparr>"

definition time_Now :: "osys \<Rightarrow> gtime \<times> osys" where
  "time_Now os = (o_now os (o_tick os), os\<lparr>o_tick := o_tick os + 1\<rparr>)"

definition timeNow :: "osys \<Rightarrow> gtime \<times> osys" where
  "timeNow os = (o_timeNow os (o_calls os), os\<lparr>o_calls := o_calls os + 1\<rparr>)"

section \<open>\<open>bufio.Writer\<close>\<close>

text \<open>The writer remembers its first error and then refuses everything.\<close>

record bufw =
  w_path :: string
  w_open :: bool
  w_buf :: string
  w_err :: "string option"

definition bw_Flush :: "bufw \<Rightarrow> osys \<Rightarrow> bufw \<times> osys" where
  "bw_Flush w os =
     (if w_err w \<noteq> None \<or> w_buf w = [] then (w, os)
      else case file_Write (w_path w) (w_open w) (w_buf w) os of
        ((n, Some err), os) \<Rightarrow> (w\<lparr>w_buf := drop n (w_buf w), w_err := Some err\<rparr>, os)
      | ((n, None), os) \<Rightarrow> (w\<lparr>w_buf := []\<rparr>, os))"

function bw_Write :: "nat \<Rightarrow> string \<Rightarrow> nat \<Rightarrow> bufw \<Rightarrow> osys \<Rightarrow> (nat \<times> bufw) \<times> osys" where
  "bw_Write bufsz p nn w os =
     (if bufsz - length (w_buf w) < length p \<and> w_err w = None then
        (if w_buf w = [] then
           (case file_Write (w_path w) (w_open w) p os of
              ((n, Some err), os) \<Rightarrow> ((nn + n, w\<lparr>w_err := Some err\<rparr>), os)
            | ((n, None), os) \<Rightarrow> bw_Write bufsz [] (nn + length p) w os)
         else
           let n = min (bufsz - length (w_buf w)) (length p)
           in case bw_Flush (w\<lparr>w_buf := w_buf w @ take n p\<rparr>) os of
                (w, os) \<Rightarrow> bw_Write bufsz (drop n p) (nn + n) w os)
      else if w_err w \<noteq> None then ((nn, w), os)
      else ((nn + length p, w\<lparr>w_buf := w_buf w @ p\<rparr>), os))"
  by pat_completeness auto

termination
proof (relation "measures [\<lambda>(z, p, nn, w, os). if w_err w = None then 1 else 0, \<lambda>(z, p, nn, w, os). length p,
    \<lambda>(z, p, nn, w, os). length (w_buf w)]", goal_cases)
  case (3 z p nn w os n w' os')
  note c = 3
  have p: "p \<noteq> []" using c(1) by auto
  show ?case
  proof (cases "w_err w' = None")
    case True
    with c(1,2) c(4) [symmetric] have "w_buf w' = []"
      by (auto simp: bw_Flush_def split: prod.splits option.splits if_splits)
    with True c(1-3) c(4) [symmetric] p show ?thesis by (cases "n = 0") auto
  next
    case False
    with c(1-3) c(4) [symmetric] show ?thesis by auto
  qed
qed auto

declare bw_Write.simps [simp del]

section \<open>Names and creation\<close>

definition shortHostname :: "string \<Rightarrow> string" where
  "shortHostname hostname =
     (case find_index (CHR ''.'') hostname of Some i \<Rightarrow> take i hostname | None \<Rightarrow> hostname)"

definition sanitize_user :: "string \<Rightarrow> string" where
  "sanitize_user = map (\<lambda>c. if c = CHR 0x5C then CHR ''_'' else c)"

record setting =
  e_program :: string
  e_host :: string
  e_user :: string
  e_pid :: int
  e_logDir :: string
  e_tempDir :: string
  e_maxSize :: "64 word"
  e_build :: string
  e_stacks :: "bool \<Rightarrow> string"
  e_slow :: "nat option"

definition createLogDirs :: "setting \<Rightarrow> string list" where
  "createLogDirs cf = (if e_logDir cf \<noteq> [] then [e_logDir cf] else []) @ [e_tempDir cf]"

text \<open>\<open>%0nd\<close> of a number that is not negative.\<close>

definition zdec :: "nat \<Rightarrow> int \<Rightarrow> string" where
  "zdec n d = pad_dec n (CHR ''0'') d"

definition stamp :: "gtime \<Rightarrow> string" where
  "stamp t = zdec 4 (t_year t) @ zdec 2 (t_month t) @ zdec 2 (t_day t) @ ''-'' @
     zdec 2 (t_hour t) @ zdec 2 (t_minute t) @ zdec 2 (t_second t)"

definition logName :: "setting \<Rightarrow> string \<Rightarrow> gtime \<Rightarrow> string \<times> string" where
  "logName cf tag t =
     (e_program cf @ ''.'' @ e_host cf @ ''.'' @ e_user cf @ ''.log.'' @ tag @ ''.'' @ stamp t @ ''.'' @
      int_dec (e_pid cf), e_program cf @ ''.'' @ tag)"

text \<open>The loop of \<open>create\<close> over the directories; the links are made on a best effort.\<close>

fun create_in :: "setting \<Rightarrow> string \<Rightarrow> string \<Rightarrow> string \<Rightarrow> string list \<Rightarrow> osys \<Rightarrow> (string + string) \<times> osys" where
  "create_in cf name link lastErr [] os = (Inl (''log: cannot create log: '' @ lastErr), os)"
| "create_in cf name link lastErr (dir # dirs) os =
     (let fname = path_Join [dir, name]
      in case os_Create fname os of
           (None, os) \<Rightarrow> (Inr fname, os\<lparr>o_links := (o_links os)(path_Join [dir, link] \<mapsto> name)\<rparr>)
         | (Some err, os) \<Rightarrow> create_in cf name link err dirs os)"

definition create :: "setting \<Rightarrow> string \<Rightarrow> gtime \<Rightarrow> osys \<Rightarrow> (string + string) \<times> osys" where
  "create cf tag t os =
     (if createLogDirs cf = [] then (Inl ''log: no log dirs'', os)
      else case logName cf tag t of (name, link) \<Rightarrow> create_in cf name link ''<nil>'' (createLogDirs cf) os)"

section \<open>The contract of a logging destination\<close>

text \<open>
  \<open>flushSyncWriter\<close>: what is written is accepted in order, may wait in memory, and is in the file
  after a flush.
\<close>

locale sink =
  fixes put :: "string \<Rightarrow> 's \<Rightarrow> 's" and flush :: "'s \<Rightarrow> 's"
    and accepted :: "'s \<Rightarrow> string" and stored :: "'s \<Rightarrow> string" and inv :: "'s \<Rightarrow> bool"
  assumes inv_put: "inv s \<Longrightarrow> inv (put p s)"
    and inv_flush: "inv s \<Longrightarrow> inv (flush s)"
    and accepted_put: "inv s \<Longrightarrow> accepted (put p s) = accepted s @ p"
    and accepted_flush: "inv s \<Longrightarrow> accepted (flush s) = accepted s"
    and stored_flush: "inv s \<Longrightarrow> stored (flush s) = accepted s"
    and stored_prefix: "inv s \<Longrightarrow> prefix (stored s) (accepted s)"
begin

lemma inv_run: "inv s \<Longrightarrow> inv (fold put ps s)"
  by (induction ps arbitrary: s) (simp_all add: inv_put)

lemma accepted_run: "inv s \<Longrightarrow> accepted (fold put ps s) = accepted s @ concat ps"
  by (induction ps arbitrary: s) (simp_all add: inv_put accepted_put)

lemma stored_run: "inv s \<Longrightarrow> stored (flush (fold put ps s)) = accepted s @ concat ps"
  by (simp add: inv_run stored_flush accepted_run)

lemma never_invents: "inv s \<Longrightarrow> prefix (stored (fold put ps s)) (accepted s @ concat ps)"
  using stored_prefix [OF inv_run] accepted_run by metis

end

section \<open>\<open>bufio.Writer\<close> keeps it on a disk without faults\<close>

definition calm :: "osys \<Rightarrow> bool" where
  "calm os \<longleftrightarrow> set (o_faults os) \<subseteq> {None}"

definition content :: "osys \<Rightarrow> string \<Rightarrow> string" where
  "content os path = (case o_files os path of None \<Rightarrow> [] | Some s \<Rightarrow> s)"

lemma content_append [simp]:
  "content (append_file path d os) q = (if q = path then content os path @ d else content os q)"
  by (simp add: content_def append_file_def split: option.split)

lemma append_file_simps [simp]:
  "o_faults (append_file path d os) = o_faults os" "o_stderr (append_file path d os) = o_stderr os"
  "o_now (append_file path d os) = o_now os" "o_tick (append_file path d os) = o_tick os"
  "o_timeNow (append_file path d os) = o_timeNow os" "o_calls (append_file path d os) = o_calls os" "o_links (append_file path d os) = o_links os"
  "dom (o_files (append_file path d os)) = insert path (dom (o_files os))"
  by (auto simp: append_file_def)

lemma calm_fault: "calm os \<Longrightarrow> \<exists>os'. next_fault os = (None, os') \<and> calm os' \<and> os' = os\<lparr>o_faults := tl (o_faults os)\<rparr>"
  by (cases "o_faults os") (auto simp: next_fault_def calm_def)

lemma content_faults [simp]: "content (os\<lparr>o_faults := fs\<rparr>) = content os"
  by (rule ext) (simp add: content_def)

lemma file_Write_calm:
  assumes "calm os"
  shows "file_Write path True p os = ((length p, None), append_file path p (os\<lparr>o_faults := tl (o_faults os)\<rparr>))"
  using calm_fault [OF assms] by (auto simp: file_Write_def)

lemma calm_tl: "calm os \<Longrightarrow> calm (os\<lparr>o_faults := tl (o_faults os)\<rparr>)"
  by (cases "o_faults os") (auto simp: calm_def)

lemma calm_append [simp]: "calm (append_file path d os) = calm os"
  by (simp add: calm_def)

text \<open>What a writer without an error does to the world: it appends to its own file only.\<close>

definition same_but :: "string \<Rightarrow> osys \<Rightarrow> osys \<Rightarrow> bool" where
  "same_but path os os' \<longleftrightarrow> (\<forall>q. q \<noteq> path \<longrightarrow> o_files os' q = o_files os q) \<and> o_stderr os' = o_stderr os \<and>
     o_links os' = o_links os \<and> o_now os' = o_now os \<and> o_tick os' = o_tick os \<and>
     o_timeNow os' = o_timeNow os \<and> o_calls os' = o_calls os"

lemma same_but_refl [simp]: "same_but path os os"
  by (simp add: same_but_def)

lemma same_but_trans: "same_but path a b \<Longrightarrow> same_but path b c \<Longrightarrow> same_but path a c"
  by (simp add: same_but_def)

lemma same_but_append [simp]: "same_but path os (append_file path d (os\<lparr>o_faults := fs\<rparr>))"
  by (simp add: same_but_def append_file_def)

definition bw_ok :: "bufw \<times> osys \<Rightarrow> bool" where
  "bw_ok s \<longleftrightarrow> (case s of (w, os) \<Rightarrow> w_open w \<and> w_err w = None \<and> calm os \<and> o_files os (w_path w) \<noteq> None)"

definition bw_accepted :: "bufw \<times> osys \<Rightarrow> string" where
  "bw_accepted s = (case s of (w, os) \<Rightarrow> content os (w_path w) @ w_buf w)"

definition bw_stored :: "bufw \<times> osys \<Rightarrow> string" where
  "bw_stored s = (case s of (w, os) \<Rightarrow> content os (w_path w))"

lemma append_file_file: "o_files os path \<noteq> None \<Longrightarrow> o_files (append_file path d os) path = Some (content os path @ d)"
  by (auto simp: append_file_def content_def)

lemma bw_Flush_calm:
  assumes "bw_ok (w, os)"
  shows "\<exists>os'. bw_Flush w os = (w\<lparr>w_buf := []\<rparr>, os') \<and> calm os' \<and> same_but (w_path w) os os' \<and>
    o_files os' (w_path w) = Some (content os (w_path w) @ w_buf w)"
proof (cases "w_buf w = []")
  case True
  with assms have "w\<lparr>w_buf := []\<rparr> = w" "o_files os (w_path w) = Some (content os (w_path w))"
    by (auto simp: bw_ok_def content_def)
  with True assms show ?thesis by (auto simp: bw_Flush_def bw_ok_def)
next
  case False
  with assms show ?thesis by (auto simp: bw_Flush_def bw_ok_def file_Write_calm calm_tl append_file_file)
qed

lemma bw_Write_calm:
  assumes "bw_ok (w, os)" "bw_Write z p nn w os = ((n, w'), os')"
  shows "n = nn + length p" "bw_ok (w', os')" "same_but (w_path w) os os'" "w_path w' = w_path w"
    "bw_accepted (w', os') = bw_accepted (w, os) @ p" "length (w_buf w) \<le> z \<Longrightarrow> length (w_buf w') \<le> z"
    "prefix (content os (w_path w)) (content os' (w_path w))"
proof -
  have "n = nn + length p \<and> bw_ok (w', os') \<and> same_but (w_path w) os os' \<and> w_path w' = w_path w \<and>
    bw_accepted (w', os') = bw_accepted (w, os) @ p \<and> (length (w_buf w) \<le> z \<longrightarrow> length (w_buf w') \<le> z) \<and>
    prefix (content os (w_path w)) (content os' (w_path w))"
    using assms
  proof (induction z p nn w os arbitrary: n w' os' rule: bw_Write.induct)
    case (1 z p nn w os)
    have err: "w_err w = None" and opn: "w_open w" and clm: "calm os" and ex: "o_files os (w_path w) \<noteq> None"
      using "1.prems"(1) by (auto simp: bw_ok_def)
    show ?case
    proof (cases "z - length (w_buf w) < length p")
      case False
      with err "1.prems" show ?thesis by (auto simp: bw_Write.simps [of z p] bw_ok_def bw_accepted_def)
    next
      case guard: True
      show ?thesis
      proof (cases "w_buf w = []")
        case True
        let ?os = "append_file (w_path w) p (os\<lparr>o_faults := tl (o_faults os)\<rparr>)"
        have "bw_Write z [] (nn + length p) w ?os = ((n, w'), os')"
          using "1.prems"(2) guard err True opn clm by (simp add: bw_Write.simps [of z p] file_Write_calm)
        moreover have "w\<lparr>w_buf := []\<rparr> = w" using True by (cases w) simp
        ultimately have "w' = w" "os' = ?os" "n = nn + length p" using err True
          by (auto simp: bw_Write.simps [of z "[]"])
        with True err opn clm ex show ?thesis
          by (auto simp: bw_ok_def calm_tl append_file_file bw_accepted_def)
      next
        case False
        let ?n = "min (z - length (w_buf w)) (length p)"
        let ?w = "w\<lparr>w_buf := w_buf w @ take ?n p\<rparr>"
        have ok: "bw_ok (?w, os)" using "1.prems"(1) by (simp add: bw_ok_def)
        from bw_Flush_calm [OF this] obtain os1 where f: "bw_Flush ?w os = (?w\<lparr>w_buf := []\<rparr>, os1)" "calm os1"
          "same_but (w_path w) os os1" "o_files os1 (w_path w) = Some (content os (w_path w) @ w_buf w @ take ?n p)" by auto
        have rec: "bw_Write z (drop ?n p) (nn + ?n) (?w\<lparr>w_buf := []\<rparr>) os1 = ((n, w'), os')"
          using "1.prems"(2) guard err False f(1) by (simp add: bw_Write.simps [of z p] Let_def)
        have ok1: "bw_ok (?w\<lparr>w_buf := []\<rparr>, os1)" using opn err f by (simp add: bw_ok_def)
        note IH = "1.IH"(2) [OF conjI [OF guard err] False refl f(1) [symmetric] ok1 rec]
        have acc: "bw_accepted (?w\<lparr>w_buf := []\<rparr>, os1) @ drop ?n p = bw_accepted (w, os) @ p"
          using f(4) by (simp add: bw_accepted_def content_def)
        have "prefix (content os (w_path w)) (content os1 (w_path w))" using f(4) by (simp add: content_def)
        with IH acc f(3) show ?thesis by (auto intro: same_but_trans prefix_order.trans)
      qed
    qed
  qed
  then show "n = nn + length p" "bw_ok (w', os')" "same_but (w_path w) os os'" "w_path w' = w_path w"
    "bw_accepted (w', os') = bw_accepted (w, os) @ p" "length (w_buf w) \<le> z \<Longrightarrow> length (w_buf w') \<le> z"
    "prefix (content os (w_path w)) (content os' (w_path w))" by simp_all
qed

definition bw_put :: "nat \<Rightarrow> string \<Rightarrow> bufw \<times> osys \<Rightarrow> bufw \<times> osys" where
  "bw_put z p s = (case s of (w, os) \<Rightarrow> case bw_Write z p 0 w os of ((n, w), os) \<Rightarrow> (w, os))"

definition bw_fl :: "bufw \<times> osys \<Rightarrow> bufw \<times> osys" where
  "bw_fl s = (case s of (w, os) \<Rightarrow> bw_Flush w os)"

interpretation bufio: sink "bw_put z" bw_fl bw_accepted bw_stored bw_ok
proof (unfold_locales, goal_cases)
  case (1 s p)
  obtain w os n w' os' where w: "s = (w, os)" "bw_Write z p 0 w os = ((n, w'), os')" by (metis prod.exhaust)
  with bw_Write_calm(2) 1 show ?case by (simp add: bw_put_def)
next
  case (3 s p)
  obtain w os n w' os' where w: "s = (w, os)" "bw_Write z p 0 w os = ((n, w'), os')" by (metis prod.exhaust)
  with bw_Write_calm(5) 3 show ?case by (simp add: bw_put_def)
next
  case (6 s)
  then show ?case by (cases s) (simp add: bw_stored_def bw_accepted_def)
qed (use bw_Flush_calm in \<open>fastforce simp: bw_fl_def bw_ok_def bw_accepted_def bw_stored_def content_def\<close>)+

end
