(* ===== verification/GlogOutput.thy ===== *)
theory GlogOutput
  imports GlogFile
begin

text \<open>
  The logger (\<open>glog.go\<close>): \<open>syncBuffer\<close> with its rotation, \<open>createFiles\<close>, \<open>output\<close>, \<open>flushAll\<close> and the
  printing functions. \<open>output\<close> holds the lock of the logger from its first to its last effect, so
  concurrent callers are a sequence of calls. The formatting of \<open>fmt\<close> is done by the caller: the
  printing functions take the formatted text.
\<close>

section \<open>State\<close>

record syncBuffer =
  y_writer :: "bufw option"
  y_hasfile :: bool
  y_sev :: nat
  y_nbytes :: "64 word"

record stats =
  s_lines :: "64 word"
  s_bytes :: "64 word"

text \<open>
  \<open>g_exitfunc\<close> says that \<open>logExitFunc\<close> is the function that does nothing, \<open>g_trace\<close> is the file and
  the line of \<open>-log_backtrace_at\<close>, \<open>g_noStacks\<close> is \<open>fatalNoStacks\<close>.
\<close>

record glog =
  g_toStderr :: bool
  g_alsoToStderr :: bool
  g_threshold :: int
  g_pool :: "buffer list"
  g_file :: "syncBuffer option list"
  g_trace :: "string \<times> int"
  g_stats :: "stats list"
  g_noStacks :: bool
  g_exitfunc :: bool
  g_os :: osys

text \<open>A call returns, ends the process with an exit code, or panics.\<close>

datatype res = Ok glog | Exit int glog | Crash string

definition bindR :: "res \<Rightarrow> (glog \<Rightarrow> res) \<Rightarrow> res" where
  "bindR r f = (case r of Ok g \<Rightarrow> f g | Exit c g \<Rightarrow> Exit c g | Crash m \<Rightarrow> Crash m)"

abbreviation nil_panic :: string where
  "nil_panic \<equiv> ''runtime error: invalid memory address or nil pointer dereference''"

lemma bindR_simps [simp]:
  "bindR (Ok g) f = f g" "bindR (Exit c g) f = Exit c g" "bindR (Crash m) f = Crash m"
  by (simp_all add: bindR_def)

abbreviation stderr :: "string \<Rightarrow> glog \<Rightarrow> glog" where
  "stderr s g \<equiv> g\<lparr>g_os := write_stderr s (g_os g)\<rparr>"

definition severityName :: "string list" where
  "severityName = [''INFO'', ''WARNING'', ''ERROR'', ''FATAL'']"

definition bufferSize :: nat where
  "bufferSize = 262144"

section \<open>Log files\<close>

definition file_header :: "setting \<Rightarrow> gtime \<Rightarrow> string" where
  "file_header cf now =
     ''Log file created at: '' @ zdec 4 (t_year now) @ ''/'' @ zdec 2 (t_month now) @ ''/'' @ zdec 2 (t_day now) @ '' '' @
       zdec 2 (t_hour now) @ '':'' @ zdec 2 (t_minute now) @ '':'' @ zdec 2 (t_second now) @ [CHR 0x0A] @
     ''Running on machine: '' @ e_host cf @ [CHR 0x0A] @
     ''Binary: Built with '' @ e_build cf @ [CHR 0x0A] @
     ''Log line format: [IWEF]mmdd hh:mm:ss.uuuuuu threadid file:line] msg'' @ [CHR 0x0A]"

definition new_syncBuffer :: "nat \<Rightarrow> syncBuffer" where
  "new_syncBuffer s = \<lparr>y_writer = None, y_hasfile = False, y_sev = s, y_nbytes = 0\<rparr>"

definition new_bufw :: "string \<Rightarrow> bufw" where
  "new_bufw path = \<lparr>w_path = path, w_open = True, w_buf = [], w_err = None\<rparr>"

text \<open>\<open>sb.Flush(); sb.file.Close()\<close>\<close>

definition close_file :: "syncBuffer \<Rightarrow> osys \<Rightarrow> syncBuffer \<times> osys" where
  "close_file sb os =
     (if y_hasfile sb then
        (case y_writer sb of
           None \<Rightarrow> (sb, os)
         | Some w \<Rightarrow> (case bw_Flush w os of (w, os) \<Rightarrow> (sb\<lparr>y_writer := Some (w\<lparr>w_open := False\<rparr>)\<rparr>, os)))
      else (sb, os))"

definition rotateFile :: "setting \<Rightarrow> gtime \<Rightarrow> syncBuffer \<Rightarrow> osys \<Rightarrow> string option \<times> syncBuffer \<times> osys" where
  "rotateFile cf now sb os =
     (case close_file sb os of (sb, os) \<Rightarrow>
      case create cf (severityName ! y_sev sb) now os of
        (Inl err, os) \<Rightarrow> (Some err, sb\<lparr>y_hasfile := False, y_nbytes := 0\<rparr>, os)
      | (Inr fname, os) \<Rightarrow>
          (case file_Write fname True (file_header cf now) os of ((n, err), os) \<Rightarrow>
             (err, sb\<lparr>y_hasfile := True, y_nbytes := of_nat n, y_writer := Some (new_bufw fname)\<rparr>, os)))"

definition flush_at :: "nat \<Rightarrow> glog \<Rightarrow> glog" where
  "flush_at s g =
     (case g_file g ! s of
        None \<Rightarrow> g
      | Some sb \<Rightarrow>
          (case y_writer sb of
             None \<Rightarrow> g
           | Some w \<Rightarrow>
               (case bw_Flush w (g_os g) of (w, os) \<Rightarrow>
                  g\<lparr>g_file := (g_file g)[s := Some (sb\<lparr>y_writer := Some w\<rparr>)], g_os := os\<rparr>)))"

definition flushAll :: "glog \<Rightarrow> glog" where
  "flushAll g = fold flush_at [3, 2, 1, 0] g"

definition lockAndFlushAll :: "glog \<Rightarrow> glog" where
  "lockAndFlushAll g = flushAll g"

text \<open>The daemon flushes at every tick.\<close>

definition flushDaemon :: "nat \<Rightarrow> glog \<Rightarrow> glog" where
  "flushDaemon ticks = lockAndFlushAll ^^ ticks"

definition l_exit :: "string \<Rightarrow> glog \<Rightarrow> res" where
  "l_exit err g =
     (let g = stderr (''log: exiting because of error: '' @ err @ [CHR 0x0A]) g
      in if g_exitfunc g then Ok g else Exit 2 (flushAll g))"

text \<open>\<open>sb.Write\<close> of the file of severity \<open>s\<close>, in its two steps.\<close>

definition rotate_step :: "setting \<Rightarrow> nat \<Rightarrow> nat \<Rightarrow> syncBuffer \<Rightarrow> glog \<Rightarrow> res" where
  "rotate_step cf s n sb g =
     (if e_maxSize cf \<le> y_nbytes sb + of_nat n then
        (case time_Now (g_os g) of (now, os) \<Rightarrow>
         case rotateFile cf now sb os of (err, sb, os) \<Rightarrow>
           let g = g\<lparr>g_file := (g_file g)[s := Some sb], g_os := os\<rparr>
           in case err of Some e \<Rightarrow> l_exit e g | None \<Rightarrow> Ok g)
      else Ok g)"

definition buffer_step :: "nat \<Rightarrow> string \<Rightarrow> glog \<Rightarrow> res" where
  "buffer_step s p g =
     (case g_file g ! s of
        None \<Rightarrow> Crash nil_panic
      | Some sb \<Rightarrow>
          (case y_writer sb of
             None \<Rightarrow> Crash nil_panic
           | Some w \<Rightarrow>
               (case bw_Write bufferSize p 0 w (g_os g) of ((n, w), os) \<Rightarrow>
                  let g = g\<lparr>g_file := (g_file g)[s := Some (sb\<lparr>y_writer := Some w, y_nbytes := y_nbytes sb + of_nat n\<rparr>)],
                            g_os := os\<rparr>
                  in case w_err w of Some e \<Rightarrow> l_exit e g | None \<Rightarrow> Ok g)))"

definition sb_Write :: "setting \<Rightarrow> nat \<Rightarrow> string \<Rightarrow> glog \<Rightarrow> res" where
  "sb_Write cf s p g =
     (case g_file g ! s of
        None \<Rightarrow> Crash nil_panic
      | Some sb \<Rightarrow> bindR (rotate_step cf s (length p) sb g) (buffer_step s p))"

text \<open>The loop of \<open>createFiles\<close>, from the severity \<open>k - 1\<close> downwards.\<close>

fun createFiles_loop :: "setting \<Rightarrow> gtime \<Rightarrow> nat \<Rightarrow> glog \<Rightarrow> string option \<times> glog" where
  "createFiles_loop cf now 0 g = (None, g)"
| "createFiles_loop cf now (Suc s) g =
     (if g_file g ! s = None then
        (case rotateFile cf now (new_syncBuffer s) (g_os g) of
           (Some err, sb, os) \<Rightarrow> (Some err, g\<lparr>g_os := os\<rparr>)
         | (None, sb, os) \<Rightarrow>
             createFiles_loop cf now s (g\<lparr>g_file := (g_file g)[s := Some sb], g_os := os\<rparr>))
      else (None, g))"

definition createFiles :: "setting \<Rightarrow> nat \<Rightarrow> glog \<Rightarrow> string option \<times> glog" where
  "createFiles cf s g =
     (case time_Now (g_os g) of (now, os) \<Rightarrow> createFiles_loop cf now (Suc s) (g\<lparr>g_os := os\<rparr>))"

section \<open>\<open>output\<close>\<close>

text \<open>
  \<open>stacks\<close> asks the runtime for the trace, with a buffer that is doubled while it is filled to the end, at
  most four times; \<open>e_stacks\<close> is the trace as it would be without a limit.
\<close>

fun stacks_loop :: "nat \<Rightarrow> nat \<Rightarrow> string \<Rightarrow> string \<Rightarrow> string" where
  "stacks_loop 0 n trace full = trace"
| "stacks_loop (Suc i) n trace full =
     (let trace = take n full in if length trace < n then trace else stacks_loop i (n * 2) trace full)"

definition stacks :: "setting \<Rightarrow> bool \<Rightarrow> string" where
  "stacks cf all = stacks_loop 5 (if all then 100000 else 10000) [] (e_stacks cf all)"

lemma stacks_loop_take:
  "0 < i \<Longrightarrow> stacks_loop i n trace full = take (n * 2 ^ (i - 1)) full"
proof (induction i arbitrary: n trace)
  case (Suc i)
  show ?case
  proof (cases "length full < n")
    case True
    moreover have "n \<le> n * 2 ^ i" by simp
    ultimately have "length full \<le> n * 2 ^ i" by linarith
    with True show ?thesis by simp
  next
    case False
    with Suc.IH [of "n * 2" "take n full"] show ?thesis
      by (cases i) (simp_all add: Let_def mult.assoc)
  qed
qed simp

text \<open>A trace is cut at 160000 bytes, that of all goroutines at 1600000.\<close>

lemma stacks_take: "stacks cf all = take (if all then 1600000 else 160000) (e_stacks cf all)"
  by (simp add: stacks_def stacks_loop_take)

definition trace_match :: "string \<times> int \<Rightarrow> string \<Rightarrow> int \<Rightarrow> bool" where
  "trace_match t file line \<longleftrightarrow> snd t = line \<and> fst t = base_name file"

definition trace_isSet :: "string \<times> int \<Rightarrow> bool" where
  "trace_isSet t \<longleftrightarrow> 0 < snd t"

text \<open>The fall-through of the switch: the file of the severity and those of all lower ones.\<close>

fun write_down :: "setting \<Rightarrow> string \<Rightarrow> nat \<Rightarrow> glog \<Rightarrow> res" where
  "write_down cf data 0 g = Ok g"
| "write_down cf data (Suc s) g = bindR (sb_Write cf s data g) (write_down cf data s)"

text \<open>The loop that writes the stacks of all goroutines to the files there are.\<close>

fun write_present :: "setting \<Rightarrow> string \<Rightarrow> nat \<Rightarrow> glog \<Rightarrow> res" where
  "write_present cf data 0 g = Ok g"
| "write_present cf data (Suc s) g =
     bindR (if g_file g ! s = None then Ok g else sb_Write cf s data g) (write_present cf data s)"

text \<open>
  \<open>timeoutFlush\<close> waits ten seconds for a flush that runs on its own. When it is late (\<open>e_slow\<close> of the
  setting), so many of the files from the fatal one down have been flushed by then.
\<close>

definition timeoutFlush :: "setting \<Rightarrow> glog \<Rightarrow> glog" where
  "timeoutFlush cf g =
     (case e_slow cf of
        None \<Rightarrow> lockAndFlushAll g
      | Some k \<Rightarrow> stderr (''glog: Flush took longer than 10s'' @ [CHR 0x0A]) (fold flush_at (take k [3, 2, 1, 0]) g))"

definition to_files :: "setting \<Rightarrow> nat \<Rightarrow> string \<Rightarrow> bool \<Rightarrow> glog \<Rightarrow> res" where
  "to_files cf s data also g =
     (let g = (if also \<or> g_alsoToStderr g \<or> g_threshold g \<le> int s then stderr data g else g)
      in if length (g_file g) \<le> s then Crash index_panic
         else
           bindR (if g_file g ! s = None then
                    (case createFiles cf s g of
                       (Some err, g) \<Rightarrow> l_exit err (stderr data g)
                     | (None, g) \<Rightarrow> Ok g)
                  else Ok g)
             (write_down cf data (Suc s)))"

definition fatal_end :: "setting \<Rightarrow> glog \<Rightarrow> res" where
  "fatal_end cf g =
     (if g_noStacks g then Exit 1 (timeoutFlush cf g)
      else
        let g = (if \<not> g_toStderr g then stderr (stacks cf False) g else g);
            g = g\<lparr>g_exitfunc := True\<rparr>
        in bindR (write_present cf (stacks cf True) 4 g) (\<lambda>g. Exit 255 (timeoutFlush cf g)))"

definition count :: "nat \<Rightarrow> nat \<Rightarrow> glog \<Rightarrow> glog" where
  "count s n g =
     (let st = g_stats g ! s
      in g\<lparr>g_stats := (g_stats g)[s := \<lparr>s_lines = s_lines st + 1, s_bytes = s_bytes st + of_nat n\<rparr>]\<rparr>)"

definition l_output :: "setting \<Rightarrow> nat \<Rightarrow> buffer \<Rightarrow> string \<Rightarrow> int \<Rightarrow> bool \<Rightarrow> glog \<Rightarrow> res" where
  "l_output cf s b file line also g =
     (let b = (if trace_isSet (g_trace g) \<and> trace_match (g_trace g) file line
               then b\<lparr>b_bytes := b_bytes b @ stacks cf False\<rparr> else b);
          data = b_bytes b
      in bindR (if g_toStderr g then Ok (stderr data g) else to_files cf s data also g) (\<lambda>g.
           if s = 3 then fatal_end cf g
           else
             let g = g\<lparr>g_pool := putBuffer b (g_pool g)\<rparr>
             in Ok (if s < 3 then count s (length data) g else g)))"

section \<open>The printing functions\<close>

text \<open>
  The stack of a call: the frame of the caller of the function comes first. Every function of the
  package pushes a frame of its own; \<open>runtime.Caller(3 + depth)\<close> in \<open>header\<close> counts from \<open>header\<close>.
\<close>

type_synonym frames = "(string \<times> int) list"

definition own :: "string \<times> int" where
  "own = (''glog.go'', 1)"

definition Caller :: "nat \<Rightarrow> frames \<Rightarrow> (string \<times> int) option" where
  "Caller k st = (if k < length st then Some (st ! k) else None)"

definition end_line :: "string \<Rightarrow> string" where
  "end_line s = (if last s = CHR 0x0A then s else s @ [CHR 0x0A])"

definition with_header :: "setting \<Rightarrow> nat \<Rightarrow> nat \<Rightarrow> frames \<Rightarrow> (string \<Rightarrow> string) \<Rightarrow> glog \<Rightarrow> res" where
  "with_header cf s depth st f g =
     (case timeNow (g_os g) of (now, os) \<Rightarrow>
      case header now (e_pid cf) (int s) (Caller (3 + depth) (own # st)) (g_pool g) of
        Inl m \<Rightarrow> Crash m
      | Inr ((b, file, line), pool) \<Rightarrow>
          l_output cf s (b\<lparr>b_bytes := f (b_bytes b)\<rparr>) file line False (g\<lparr>g_os := os, g_pool := pool\<rparr>))"

definition l_println :: "setting \<Rightarrow> nat \<Rightarrow> frames \<Rightarrow> string \<Rightarrow> glog \<Rightarrow> res" where
  "l_println cf s st args g = with_header cf s 0 (own # st) (\<lambda>h. h @ args @ [CHR 0x0A]) g"

definition l_printDepth :: "setting \<Rightarrow> nat \<Rightarrow> nat \<Rightarrow> frames \<Rightarrow> string \<Rightarrow> glog \<Rightarrow> res" where
  "l_printDepth cf s depth st args g = with_header cf s depth (own # st) (\<lambda>h. end_line (h @ args)) g"

definition l_print :: "setting \<Rightarrow> nat \<Rightarrow> frames \<Rightarrow> string \<Rightarrow> glog \<Rightarrow> res" where
  "l_print cf s st args g = l_printDepth cf s 1 (own # st) args g"

definition l_printf :: "setting \<Rightarrow> nat \<Rightarrow> frames \<Rightarrow> string \<Rightarrow> glog \<Rightarrow> res" where
  "l_printf cf s st formatted g = with_header cf s 0 (own # st) (\<lambda>h. end_line (h @ formatted)) g"

definition printWithFileLine :: "setting \<Rightarrow> nat \<Rightarrow> string \<Rightarrow> int \<Rightarrow> bool \<Rightarrow> string \<Rightarrow> glog \<Rightarrow> res" where
  "printWithFileLine cf s file line also args g =
     (case timeNow (g_os g) of (now, os) \<Rightarrow>
      case formatHeader now (e_pid cf) (int s) file line (g_pool g) of
        Inl m \<Rightarrow> Crash m
      | Inr (b, pool) \<Rightarrow>
          l_output cf s (b\<lparr>b_bytes := end_line (b_bytes b @ args)\<rparr>) file line also (g\<lparr>g_os := os, g_pool := pool\<rparr>))"

end
