(* ===== verification/GlogSafety.thy ===== *)
theory GlogSafety
  imports GlogOutput
begin

text \<open>
  What holds of the logger on every disk: whatever fails, \<open>output\<close> never panics, a fatal message
  always ends the process, and the files that are open are those of all severities below some bound.
\<close>

section \<open>The invariant\<close>

definition has_writer :: "nat \<Rightarrow> syncBuffer \<Rightarrow> bool" where
  "has_writer s sb \<longleftrightarrow> y_sev sb = s \<and> y_writer sb \<noteq> None"

definition log_inv :: "glog \<Rightarrow> bool" where
  "log_inv g \<longleftrightarrow> length (g_file g) = 4 \<and> length (g_stats g) = 3 \<and> pool_ok (g_pool g) \<and>
     (\<forall>s < 4. \<forall>sb. g_file g ! s = Some sb \<longrightarrow> has_writer s sb) \<and>
     (\<forall>s < 3. g_file g ! Suc s \<noteq> None \<longrightarrow> g_file g ! s \<noteq> None)"

definition opened :: "glog \<Rightarrow> nat set" where
  "opened g = {s. s < 4 \<and> g_file g ! s \<noteq> None}"

text \<open>The part of the state that no write to the files changes.\<close>

definition same_setup :: "glog \<Rightarrow> glog \<Rightarrow> bool" where
  "same_setup g g' \<longleftrightarrow> g_toStderr g' = g_toStderr g \<and> g_alsoToStderr g' = g_alsoToStderr g \<and>
     g_threshold g' = g_threshold g \<and> g_pool g' = g_pool g \<and> g_trace g' = g_trace g \<and>
     g_stats g' = g_stats g \<and> g_noStacks g' = g_noStacks g \<and> g_exitfunc g' = g_exitfunc g"

lemma same_setup_refl [simp]: "same_setup g g"
  by (simp add: same_setup_def)

lemma same_setup_trans: "same_setup a b \<Longrightarrow> same_setup b c \<Longrightarrow> same_setup a c"
  by (simp add: same_setup_def)

lemma same_setup_os [simp]: "same_setup g (g\<lparr>g_os := os\<rparr>)" "same_setup g (g\<lparr>g_file := f, g_os := os\<rparr>)"
  by (simp_all add: same_setup_def)

lemma log_inv_os [simp]: "log_inv (g\<lparr>g_os := os\<rparr>) = log_inv g" "opened (g\<lparr>g_os := os\<rparr>) = opened g"
  by (simp_all add: log_inv_def opened_def)

lemma log_inv_file:
  assumes "log_inv g" "s < 4" "has_writer s sb" "g_file g ! s \<noteq> None"
  shows "log_inv (g\<lparr>g_file := (g_file g)[s := Some sb], g_os := os\<rparr>)"
    "opened (g\<lparr>g_file := (g_file g)[s := Some sb], g_os := os\<rparr>) = opened g"
  using assms by (auto simp: log_inv_def opened_def nth_list_update)

lemma log_inv_writer:
  assumes "log_inv g" "s < 4" "g_file g ! s = Some sb"
  obtains w where "y_writer sb = Some w" "y_sev sb = s"
proof -
  have "has_writer s sb" using assms by (simp add: log_inv_def)
  with that show thesis by (auto simp: has_writer_def)
qed

text \<open>What a step may do: keep the invariant, the set-up and the open files, or end the process.\<close>

fun keeps :: "glog \<Rightarrow> res \<Rightarrow> bool" where
  "keeps g (Ok g') \<longleftrightarrow> log_inv g' \<and> opened g' = opened g \<and> same_setup g g'"
| "keeps g (Exit c g') \<longleftrightarrow> c = 2 \<and> \<not> g_exitfunc g"
| "keeps g (Crash m) \<longleftrightarrow> False"

lemma keeps_bind:
  assumes "keeps g r" "\<And>g'. log_inv g' \<Longrightarrow> opened g' = opened g \<Longrightarrow> same_setup g g' \<Longrightarrow> keeps g' (f g')"
  shows "keeps g (bindR r f)"
proof (cases r)
  case (Ok g')
  with assms(1) have g': "log_inv g'" "opened g' = opened g" "same_setup g g'" by simp_all
  from assms(2) [OF this] g' show ?thesis
    by (cases "f g'") (auto simp: Ok intro: same_setup_trans, simp add: same_setup_def)
qed (use assms(1) in simp_all)

lemma flush_at_keeps:
  assumes "log_inv g" "s < 4"
  shows "keeps g (Ok (flush_at s g))"
proof (cases "g_file g ! s")
  case (Some sb)
  obtain w where w: "y_writer sb = Some w" "y_sev sb = s" using log_inv_writer [OF assms Some] .
  obtain w' os where "bw_Flush w (g_os g) = (w', os)" by fastforce
  with Some w assms log_inv_file [OF assms, of "sb\<lparr>y_writer := Some w'\<rparr>" os] show ?thesis
    by (simp add: flush_at_def has_writer_def)
qed (use assms in \<open>simp add: flush_at_def\<close>)

lemma flushAll_keeps: "log_inv g \<Longrightarrow> keeps g (Ok (flushAll g))"
proof -
  have "keeps g (Ok (fold flush_at ss g))" if "set ss \<subseteq> {..<4}" "log_inv g" for ss g
    using that
  proof (induction ss arbitrary: g)
    case (Cons s ss)
    then have "keeps g (Ok (flush_at s g))" by (intro flush_at_keeps) auto
    with Cons.IH [of "flush_at s g"] Cons.prems show ?case by (auto intro: same_setup_trans)
  qed simp
  from this [of "[3, 2, 1, 0]"] show "log_inv g \<Longrightarrow> keeps g (Ok (flushAll g))"
    by (simp only: flushAll_def) simp
qed

lemma l_exit_keeps: "log_inv g \<Longrightarrow> keeps g (l_exit err g)"
  by (simp add: l_exit_def Let_def)

lemma close_file_writer: "y_writer sb \<noteq> None \<Longrightarrow> has_writer s (fst (close_file sb os)) = has_writer s sb"
  by (auto simp: close_file_def has_writer_def split: option.split prod.split)

lemma rotateFile_writer:
  assumes "rotateFile cf now sb os = (err, sb', os')" "y_sev sb = s"
  shows "y_writer sb \<noteq> None \<or> err = None \<Longrightarrow> has_writer s sb'"
  using assms close_file_writer [of sb s os]
  by (auto simp: rotateFile_def has_writer_def close_file_def split: prod.splits sum.splits option.splits if_splits)

lemma rotate_step_keeps:
  assumes "log_inv g" "s < 4" "g_file g ! s = Some sb"
  shows "keeps g (rotate_step cf s n sb g)"
proof (cases "e_maxSize cf \<le> y_nbytes sb + of_nat n")
  case True
  obtain now os where t: "time_Now (g_os g) = (now, os)" by fastforce
  obtain err sb' os' where r: "rotateFile cf now sb os = (err, sb', os')" using prod_cases3 by blast
  have "has_writer s sb" using assms by (simp add: log_inv_def)
  with rotateFile_writer [OF r] have "has_writer s sb'" by (simp add: has_writer_def)
  with assms log_inv_file [of g s sb' os'] have
    k: "keeps g (Ok (g\<lparr>g_file := (g_file g)[s := Some sb'], g_os := os'\<rparr>))" by simp
  show ?thesis
  proof (cases err)
    case None
    with True t r k show ?thesis by (simp add: rotate_step_def)
  next
    case (Some e)
    have "keeps g (bindR (Ok (g\<lparr>g_file := (g_file g)[s := Some sb'], g_os := os'\<rparr>)) (l_exit e))"
      by (rule keeps_bind [OF k]) (rule l_exit_keeps)
    with Some True t r show ?thesis by (simp add: rotate_step_def)
  qed
qed (use assms(1) in \<open>simp add: rotate_step_def\<close>)

lemma buffer_step_keeps:
  assumes "log_inv g" "s < 4" "g_file g ! s \<noteq> None"
  shows "keeps g (buffer_step s p g)"
proof -
  obtain sb where sb: "g_file g ! s = Some sb" using assms(3) by blast
  obtain w where w: "y_writer sb = Some w" "y_sev sb = s" using log_inv_writer [OF assms(1,2) sb] .
  obtain n w' os where bw: "bw_Write bufferSize p 0 w (g_os g) = ((n, w'), os)" by (metis prod.exhaust)
  let ?g = "g\<lparr>g_file := (g_file g)[s := Some (sb\<lparr>y_writer := Some w', y_nbytes := y_nbytes sb + of_nat n\<rparr>)], g_os := os\<rparr>"
  have k: "keeps g (Ok ?g)" using assms w log_inv_file [of g s _ os] by (simp add: has_writer_def)
  show ?thesis
  proof (cases "w_err w'")
    case (Some e)
    have "keeps g (bindR (Ok ?g) (l_exit e))" by (rule keeps_bind [OF k]) (rule l_exit_keeps)
    with Some sb w bw show ?thesis by (simp add: buffer_step_def)
  qed (use sb w bw k in \<open>simp add: buffer_step_def\<close>)
qed

lemma sb_Write_keeps:
  assumes "log_inv g" "s < 4" "g_file g ! s \<noteq> None"
  shows "keeps g (sb_Write cf s p g)"
proof -
  obtain sb where sb: "g_file g ! s = Some sb" using assms(3) by blast
  have "keeps g' (buffer_step s p g')" if "log_inv g'" "opened g' = opened g" for g'
    using that assms by (intro buffer_step_keeps) (auto simp: opened_def)
  with keeps_bind [OF rotate_step_keeps [OF assms(1,2) sb]] sb show ?thesis by (simp add: sb_Write_def)
qed

lemma write_down_keeps:
  assumes "log_inv g" "k \<le> 4" "{..<k} \<subseteq> opened g"
  shows "keeps g (write_down cf data k g)"
  using assms
proof (induction k arbitrary: g)
  case (Suc s)
  then have "s \<in> opened g" by (auto simp: lessThan_Suc)
  with Suc.prems have "keeps g (sb_Write cf s data g)" by (intro sb_Write_keeps) (auto simp: opened_def)
  then show ?case unfolding write_down.simps
  proof (rule keeps_bind)
    fix g'
    assume "log_inv g'" "opened g' = opened g"
    with Suc show "keeps g' (write_down cf data s g')" by (auto simp: lessThan_Suc)
  qed
qed simp

lemma write_present_keeps: "log_inv g \<Longrightarrow> k \<le> 4 \<Longrightarrow> keeps g (write_present cf data k g)"
proof (induction k arbitrary: g)
  case (Suc s)
  then have "keeps g (if g_file g ! s = None then Ok g else sb_Write cf s data g)" by (auto intro: sb_Write_keeps)
  then show ?case unfolding write_present.simps by (rule keeps_bind) (use Suc in auto)
qed simp

section \<open>Creation of the files\<close>

definition log_shape :: "glog \<Rightarrow> bool" where
  "log_shape g \<longleftrightarrow> length (g_file g) = 4 \<and> length (g_stats g) = 3 \<and> pool_ok (g_pool g) \<and>
     (\<forall>s < 4. \<forall>sb. g_file g ! s = Some sb \<longrightarrow> has_writer s sb)"

definition closed_below :: "nat \<Rightarrow> glog \<Rightarrow> bool" where
  "closed_below k g \<longleftrightarrow> (\<forall>s. Suc s < k \<longrightarrow> g_file g ! Suc s \<noteq> None \<longrightarrow> g_file g ! s \<noteq> None)"

lemma log_inv_shape: "log_inv g \<longleftrightarrow> log_shape g \<and> closed_below 4 g"
  by (auto simp: log_inv_def log_shape_def closed_below_def)

lemma closed_below_all:
  assumes "closed_below k g" "s < k" "g_file g ! s \<noteq> None"
  shows "j \<le> s \<Longrightarrow> g_file g ! j \<noteq> None"
  using assms
proof (induction s)
  case (Suc s)
  then show ?case by (cases "j = Suc s") (auto simp: closed_below_def)
qed simp

lemma createFiles_loop_ok:
  assumes "log_shape g" "closed_below k g" "k \<le> 4" "createFiles_loop cf now k g = (err, g')"
  shows "log_shape g' \<and> same_setup g g' \<and> (\<forall>s. k \<le> s \<longrightarrow> g_file g' ! s = g_file g ! s) \<and>
    (err = None \<longrightarrow> {..<k} \<subseteq> opened g')"
  using assms
proof (induction k arbitrary: g)
  case (Suc s)
  show ?case
  proof (cases "g_file g ! s")
    case (Some sb)
    with Suc.prems have "{..<Suc s} \<subseteq> opened g"
      using closed_below_all [OF Suc.prems(2), of s] by (auto simp: opened_def)
    with Some Suc.prems show ?thesis by simp
  next
    case None
    obtain e sb os where r: "rotateFile cf now (new_syncBuffer s) (g_os g) = (e, sb, os)" using prod_cases3 by blast
    show ?thesis
    proof (cases e)
      case (Some x)
      with None r Suc.prems show ?thesis by (auto simp: log_shape_def)
    next
      case no: None
      let ?g = "g\<lparr>g_file := (g_file g)[s := Some sb], g_os := os\<rparr>"
      have "has_writer s sb" using rotateFile_writer [OF r] no by (simp add: new_syncBuffer_def)
      with Suc.prems have "log_shape ?g" "closed_below s ?g"
        by (auto simp: log_shape_def nth_list_update closed_below_def)
      moreover have "createFiles_loop cf now s ?g = (err, g')" using Suc.prems None no r by simp
      ultimately have IH: "log_shape g' \<and> same_setup ?g g' \<and> (\<forall>j. s \<le> j \<longrightarrow> g_file g' ! j = g_file ?g ! j) \<and>
          (err = None \<longrightarrow> {..<s} \<subseteq> opened g')"
        using Suc.IH [of ?g] Suc.prems(3) by simp
      have "g_file ?g ! s = Some sb" using Suc.prems(1,3) by (simp add: log_shape_def)
      with IH have "g_file g' ! s = Some sb" by simp
      with IH Suc.prems(3) show ?thesis
        by (auto simp: opened_def lessThan_Suc intro: same_setup_trans [of g ?g])
    qed
  qed
qed simp

lemma createFiles_ok:
  assumes "log_inv g" "s < 4" "g_file g ! s = None" "createFiles cf s g = (err, g')"
  shows "same_setup g g'" "log_shape g'"
    "err = None \<Longrightarrow> log_inv g' \<and> {..s} \<subseteq> opened g' \<and> opened g \<subseteq> opened g'"
proof -
  obtain now os where t: "time_Now (g_os g) = (now, os)" by fastforce
  have l: "createFiles_loop cf now (Suc s) (g\<lparr>g_os := os\<rparr>) = (err, g')" using assms(4) t by (simp add: createFiles_def)
  have "log_shape (g\<lparr>g_os := os\<rparr>)" "closed_below (Suc s) (g\<lparr>g_os := os\<rparr>)"
    using assms(1,2) by (auto simp: log_inv_shape log_shape_def closed_below_def)
  note ok = createFiles_loop_ok [OF this _ l]
  then show "same_setup g g'" "log_shape g'" using assms(2) by (auto intro: same_setup_trans [of g "g\<lparr>g_os := os\<rparr>"])
  assume "err = None"
  with ok assms(2) have sub: "{..<Suc s} \<subseteq> opened g'" and up: "\<forall>j. Suc s \<le> j \<longrightarrow> g_file g' ! j = g_file g ! j" by auto
  have "closed_below 4 g'"
    unfolding closed_below_def
  proof (intro allI impI)
    fix j
    assume j: "Suc j < 4" "g_file g' ! Suc j \<noteq> None"
    show "g_file g' ! j \<noteq> None"
    proof (cases "j \<le> s")
      case True
      then have "j \<in> opened g'" using sub by auto
      then show ?thesis by (simp add: opened_def)
    next
      case False
      with up j assms(1) show ?thesis by (auto simp: log_inv_def)
    qed
  qed
  moreover have "opened g \<subseteq> opened g'"
  proof
    fix j
    assume "j \<in> opened g"
    show "j \<in> opened g'"
    proof (cases "j \<le> s")
      case True
      with sub show ?thesis by auto
    next
      case False
      with up \<open>j \<in> opened g\<close> show ?thesis by (simp add: opened_def)
    qed
  qed
  ultimately show "log_inv g' \<and> {..s} \<subseteq> opened g' \<and> opened g \<subseteq> opened g'"
    using \<open>log_shape g'\<close> sub by (auto simp: log_inv_shape lessThan_Suc_atMost)
qed

section \<open>\<open>output\<close> on any disk\<close>

text \<open>How \<open>output\<close> may end, for a logger whose \<open>logExitFunc\<close> is not set.\<close>

fun ends_well :: "nat \<Rightarrow> glog \<Rightarrow> res \<Rightarrow> bool" where
  "ends_well s g (Ok g') \<longleftrightarrow> s < 3 \<and> log_inv g' \<and> \<not> g_exitfunc g' \<and> opened g \<subseteq> opened g'"
| "ends_well s g (Exit c g') \<longleftrightarrow> c = 2 \<or> s = 3 \<and> c = (if g_noStacks g then 1 else 255)"
| "ends_well s g (Crash m) \<longleftrightarrow> False"

fun written :: "nat \<Rightarrow> glog \<Rightarrow> res \<Rightarrow> bool" where
  "written s g (Ok g') \<longleftrightarrow> log_inv g' \<and> same_setup g g' \<and> opened g \<subseteq> opened g'"
| "written s g (Exit c g') \<longleftrightarrow> c = 2"
| "written s g (Crash m) \<longleftrightarrow> False"

lemma keeps_written: "keeps g r \<Longrightarrow> written s g r"
  by (cases r) simp_all

lemma to_files_written:
  assumes "log_inv g" "s \<le> 3" "\<not> g_exitfunc g"
  shows "written s g (to_files cf s data also g)"
proof -
  define g0 where "g0 = (if also \<or> g_alsoToStderr g \<or> g_threshold g \<le> int s then stderr data g else g)"
  have g0: "log_inv g0" "opened g0 = opened g" "same_setup g g0" "\<not> g_exitfunc g0" "length (g_file g0) = 4"
    using assms by (auto simp: g0_def log_inv_def)
  have step: "to_files cf s data also g =
      bindR (if g_file g0 ! s = None then
               (case createFiles cf s g0 of (Some err, g) \<Rightarrow> l_exit err (stderr data g) | (None, g) \<Rightarrow> Ok g) else Ok g0)
        (write_down cf data (Suc s))"
    using g0(5) assms(2) by (simp add: to_files_def Let_def flip: g0_def)
  have down: "written s g (write_down cf data (Suc s) g1)"
    if "log_inv g1" "{..s} \<subseteq> opened g1" "same_setup g g1" "opened g \<subseteq> opened g1" for g1
    using write_down_keeps [of g1 "Suc s" cf data] that assms(2)
    by (cases "write_down cf data (Suc s) g1") (auto simp: lessThan_Suc_atMost intro: same_setup_trans)
  show ?thesis
  proof (cases "g_file g0 ! s")
    case (Some sb)
    then have "{..s} \<subseteq> opened g0"
      using closed_below_all [of 4 g0 s] g0(1) assms(2) by (auto simp: opened_def log_inv_shape)
    with down [of g0] g0 Some show ?thesis unfolding step by simp
  next
    case None
    obtain err g1 where c: "createFiles cf s g0 = (err, g1)" by fastforce
    note ok = createFiles_ok [OF g0(1) _ None c]
    show ?thesis
    proof (cases err)
      case err: None
      from ok err assms(2) g0(2) have "log_inv g1" "{..s} \<subseteq> opened g1" "same_setup g0 g1" "opened g \<subseteq> opened g1"
        by auto
      with down [of g1] g0(3) None c err show ?thesis unfolding step by (auto intro: same_setup_trans)
    next
      case (Some e)
      have "\<not> g_exitfunc g1" using ok(1) assms(2) g0(4) by (simp add: same_setup_def)
      with None c Some show ?thesis unfolding step by (simp add: l_exit_def Let_def)
    qed
  qed
qed

lemma fatal_end_exits:
  assumes "log_inv g"
  shows "\<exists>g'. fatal_end cf g = Exit (if g_noStacks g then 1 else 255) g'"
proof (cases "g_noStacks g")
  case False
  define g1 where "g1 = (if \<not> g_toStderr g then stderr (stacks cf False) g else g)\<lparr>g_exitfunc := True\<rparr>"
  have "log_inv g1" "g_exitfunc g1" using assms by (simp_all add: g1_def log_inv_def)
  with write_present_keeps [of g1 4 cf "stacks cf True"] False show ?thesis
    by (cases "write_present cf (stacks cf True) 4 g1") (simp_all add: fatal_end_def Let_def g1_def)
qed (simp add: fatal_end_def)

lemma pool_ok_emit: "log_inv g \<Longrightarrow> length (b_tmp b) = 64 \<Longrightarrow> pool_ok (putBuffer b (g_pool g))"
  by (simp add: log_inv_def pool_ok_put)

lemma l_output_ends_well:
  assumes "log_inv g" "s \<le> 3" "\<not> g_exitfunc g" "length (b_tmp b) = 64"
  shows "ends_well s g (l_output cf s b file line also g)"
proof -
  define b1 where "b1 = (if trace_isSet (g_trace g) \<and> trace_match (g_trace g) file line
    then b\<lparr>b_bytes := b_bytes b @ stacks cf False\<rparr> else b)"
  define r where "r = (if g_toStderr g then Ok (stderr (b_bytes b1) g) else to_files cf s (b_bytes b1) also g)"
  have b1: "length (b_tmp b1) = 64" using assms(4) by (simp add: b1_def)
  have eq: "l_output cf s b file line also g = bindR r (\<lambda>g. if s = 3 then fatal_end cf g
      else Ok (if s < 3 then count s (length (b_bytes b1)) (g\<lparr>g_pool := putBuffer b1 (g_pool g)\<rparr>)
               else g\<lparr>g_pool := putBuffer b1 (g_pool g)\<rparr>))"
    unfolding l_output_def Let_def r_def b1_def ..
  have w: "written s g r" using assms to_files_written [OF assms(1-3)] by (simp add: r_def)
  show ?thesis
  proof (cases r)
    case (Ok g1)
    with w have g1: "log_inv g1" "same_setup g g1" "opened g \<subseteq> opened g1" by simp_all
    show ?thesis
    proof (cases "s = 3")
      case True
      from fatal_end_exits [OF g1(1), of cf] obtain g' where
        "fatal_end cf g1 = Exit (if g_noStacks g1 then 1 else 255) g'" by blast
      with True Ok g1(2) show ?thesis unfolding eq by (simp add: same_setup_def)
    next
      case False
      with assms(2) have s: "s < 3" by simp
      have "log_inv (count s n (g1\<lparr>g_pool := putBuffer b1 (g_pool g1)\<rparr>))" for n
        using g1(1) pool_ok_emit [OF g1(1) b1] by (simp add: log_inv_def count_def Let_def)
      moreover have "opened (count s n (g1\<lparr>g_pool := putBuffer b1 (g_pool g1)\<rparr>)) = opened g1" for n
        by (simp add: count_def opened_def Let_def)
      ultimately show ?thesis unfolding eq using s g1 assms(3) Ok
        by (simp add: same_setup_def) (simp add: count_def Let_def)
    qed
  qed (use w in \<open>simp_all add: eq\<close>)
qed

text \<open>
  C21: logging never panics and never goes on after a fatal message: for every severity, every
  state that the logger reaches and every behaviour of the disk, \<open>output\<close> returns with the
  invariant kept, or the process exits: with 2 when a log file cannot be created or written, and
  after a fatal message with 255, or 1 for the \<open>Exit\<close> functions.
\<close>

theorem output_ends_well:
  assumes "log_inv g" "s \<le> 3" "\<not> g_exitfunc g" "length (b_tmp b) = 64"
  shows "case l_output cf s b file line also g of
      Ok g' \<Rightarrow> s < 3 \<and> log_inv g' \<and> \<not> g_exitfunc g' \<and> opened g \<subseteq> opened g'
    | Exit c g' \<Rightarrow> c = 2 \<or> s = 3 \<and> c = (if g_noStacks g then 1 else 255)
    | Crash m \<Rightarrow> False"
  using l_output_ends_well [OF assms, of cf "file" line "also"]
  by (cases "l_output cf s b file line also g") simp_all

definition start_os :: "(nat \<times> string) option list \<Rightarrow> (nat \<Rightarrow> gtime) \<Rightarrow> osys" where
  "start_os faults now = \<lparr>o_files = (\<lambda>_. None), o_links = (\<lambda>_. None), o_stderr = [], o_faults = faults,
     o_now = now, o_tick = 0, o_timeNow = now, o_calls = 0\<rparr>"

text \<open>The logger after \<open>init\<close>.\<close>

definition start_log :: "osys \<Rightarrow> glog" where
  "start_log os = \<lparr>g_toStderr = False, g_alsoToStderr = False, g_threshold = errorLog, g_pool = [],
     g_file = replicate 4 None, g_trace = ([], 0), g_stats = replicate 3 \<lparr>s_lines = 0, s_bytes = 0\<rparr>,
     g_noStacks = False, g_exitfunc = False, g_os = os\<rparr>"

lemma log_inv_start: "log_inv (start_log os)" "\<not> g_exitfunc (start_log os)" "opened (start_log os) = {}"
  by (auto simp: log_inv_def start_log_def opened_def pool_ok_def nth_Cons')

definition sample_setting :: setting where
  "sample_setting = \<lparr>e_program = ''kd'', e_host = ''h'', e_user = ''u'', e_pid = 42, e_logDir = [], e_tempDir = ''/tmp'',
     e_maxSize = 1000, e_build = ''gc'', e_stacks = (\<lambda>_. ''stack''), e_slow = None\<rparr>"

theorem output_ends_well_witness:
  "case l_output sample_setting 3 (new_buffer\<lparr>b_bytes := ''boom''\<rparr>) ''d.go'' 23 False
     (start_log (start_os [None, Some (0, ''full''), Some (3, ''full'')] (\<lambda>_. sample_time))) of
     Ok _ \<Rightarrow> False | Exit c _ \<Rightarrow> c \<in> {2, 255} | Crash _ \<Rightarrow> False"
proof -
  have b: "length (b_tmp (new_buffer\<lparr>b_bytes := ''boom''\<rparr>)) = 64" by (simp add: new_buffer_def)
  from output_ends_well [OF log_inv_start(1) _ log_inv_start(2) b, of 3
      "start_os [None, Some (0, ''full''), Some (3, ''full'')] (\<lambda>_. sample_time)" sample_setting "''d.go''" 23 False]
  show ?thesis by (auto simp: start_log_def split: res.splits if_splits)
qed

end
