(* ===== verification/GlogComplete.thy ===== *)
theory GlogComplete
  imports GlogSafety
begin

text \<open>
  Nothing is lost: on a disk without faults, whatever is logged is in the files of its severity and
  of all lower ones, in order, across every rotation. The statement needs that no two readings of
  the clock that name files fall into one second; the last section shows why.
\<close>

section \<open>The names of log files\<close>

definition plain_name :: "string \<Rightarrow> bool" where
  "plain_name n \<longleftrightarrow> CHR ''/'' \<notin> set n \<and> 2 < length n"

lemma split_on_snoc: "split_on c (s @ c # t) = split_on c s @ split_on c t"
  by (induction s) (auto split: list.split)

lemma clean_plain: "plain_name n \<Longrightarrow> clean_elem rooted st n = st @ [n]"
  by (auto simp: clean_elem_def plain_name_def)

lemma path_Join_plain: "\<exists>p. \<forall>n. plain_name n \<longrightarrow> path_Join [d, n] = p @ n"
proof (cases "d = []")
  case True
  have "path_Join [d, n] = [] @ n" if "plain_name n" for n
  proof -
    have "n \<noteq> []" "hd n \<noteq> CHR ''/''" using that by (cases n, auto simp: plain_name_def)+
    with that True show ?thesis
      by (simp add: path_Join_def path_Clean_def split_on_free plain_name_def clean_plain [OF that] Let_def)
  qed
  then show ?thesis by blast
next
  case False
  let ?r = "hd d = CHR ''/''"
  let ?st = "foldl (clean_elem ?r) [] (split_on (CHR ''/'') d)"
  let ?p = "(if ?r then ''/'' else []) @ (if ?st = [] then [] else join_with (CHR ''/'') ?st @ ''/'')"
  have "path_Join [d, n] = ?p @ n" if "plain_name n" for n
  proof -
    have n: "n \<noteq> []" "split_on (CHR ''/'') n = [n]" using that by (auto simp: plain_name_def split_on_free)
    have "foldl (clean_elem ?r) [] (split_on (CHR ''/'') (d @ CHR ''/'' # n)) = ?st @ [n]"
      by (simp add: split_on_snoc n clean_plain [OF that])
    moreover have "hd (d @ CHR ''/'' # n) = hd d" using False by simp
    ultimately show ?thesis using False n(1)
      by (auto simp: path_Join_def path_Clean_def Let_def join_with_snoc)
  qed
  then show ?thesis by blast
qed

definition names_ok :: "setting \<Rightarrow> bool" where
  "names_ok cf \<longleftrightarrow> CHR ''/'' \<notin> set (e_program cf @ e_host cf @ e_user cf)"

definition log_path :: "setting \<Rightarrow> nat \<Rightarrow> gtime \<Rightarrow> string" where
  "log_path cf s t = path_Join [hd (createLogDirs cf), fst (logName cf (severityName ! s) t)]"

lemma is_digit_plain: "\<not> is_digit (CHR ''/'')" "\<not> is_digit (CHR ''.'')"
  by (simp_all add: is_digit_def)

lemma zdec_plain: "CHR ''/'' \<notin> set (zdec n d)"
  using nat_dec_digits [of "CHR ''/''" "nat d"] is_digit_plain by (auto simp: zdec_def pad_dec_def)

lemma int_dec_plain: "CHR ''/'' \<notin> set (int_dec i)"
  using nat_dec_digits [of "CHR ''/''"] is_digit_plain by (auto simp: int_dec_def)

lemma severityName_plain:
  "s < 4 \<Longrightarrow> CHR ''/'' \<notin> set (severityName ! s) \<and> CHR ''.'' \<notin> set (severityName ! s)"
proof -
  assume "s < 4"
  then have "severityName ! s \<in> set severityName" by (intro nth_mem) (simp add: severityName_def)
  moreover have "\<forall>n \<in> set severityName. CHR ''/'' \<notin> set n \<and> CHR ''.'' \<notin> set n" by (simp add: severityName_def)
  ultimately show ?thesis by blast
qed

lemma logName_plain: "names_ok cf \<Longrightarrow> s < 4 \<Longrightarrow> plain_name (fst (logName cf (severityName ! s) t))"
  using severityName_plain [of s] zdec_plain int_dec_plain
  by (auto simp: names_ok_def logName_def plain_name_def stamp_def)

lemma takeWhile_dot: "CHR ''.'' \<notin> set a \<Longrightarrow> takeWhile (\<lambda>c. c \<noteq> CHR ''.'') (a @ CHR ''.'' # x) = a"
  by (rule takeWhile_stop) auto

lemma log_path_inj:
  assumes "names_ok cf" "s < 4" "s' < 4" "log_path cf s t = log_path cf s' t'"
  shows "s = s'" "stamp t = stamp t'"
proof -
  obtain p where p: "\<forall>n. plain_name n \<longrightarrow> path_Join [hd (createLogDirs cf), n] = p @ n"
    using path_Join_plain by blast
  have "fst (logName cf (severityName ! s) t) = fst (logName cf (severityName ! s') t')"
    using assms p logName_plain by (simp add: log_path_def)
  then have e: "(severityName ! s) @ CHR ''.'' # (stamp t @ ''.'' @ int_dec (e_pid cf)) =
      (severityName ! s') @ CHR ''.'' # (stamp t' @ ''.'' @ int_dec (e_pid cf))"
    by (simp add: logName_def)
  have n: "severityName ! s = severityName ! s'"
    using arg_cong [OF e, of "takeWhile (\<lambda>c. c \<noteq> CHR ''.'')"]
    unfolding takeWhile_dot [OF severityName_plain [OF assms(2), THEN conjunct2]]
      takeWhile_dot [OF severityName_plain [OF assms(3), THEN conjunct2]] .
  with e show "stamp t = stamp t'" by simp
  have "distinct severityName" "length severityName = 4" by (simp_all add: severityName_def)
  with n assms(2,3) show "s = s'" by (simp add: nth_eq_iff_index_eq)
qed

section \<open>What the files hold\<close>

text \<open>The contents of the files of one severity: each a header and then its share of the stream.\<close>

definition payloads :: "setting \<Rightarrow> string list \<Rightarrow> string \<Rightarrow> bool" where
  "payloads cf cs d \<longleftrightarrow> (\<exists>hps. cs = map (\<lambda>(t, p). file_header cf t @ p) hps \<and> concat (map snd hps) = d)"

lemma payloads_Nil [simp]: "payloads cf [] d \<longleftrightarrow> d = []"
  by (auto simp: payloads_def)

lemma payloads_extend:
  assumes "payloads cf (cs @ [c]) d"
  shows "payloads cf (cs @ [c @ p]) (d @ p)"
proof -
  from assms obtain hps where h: "cs @ [c] = map (\<lambda>(t, p). file_header cf t @ p) hps" "concat (map snd hps) = d"
    by (auto simp: payloads_def)
  then have "hps \<noteq> []" by auto
  then obtain hps' t q where "hps = hps' @ [(t, q)]" by (metis append_butlast_last_id surj_pair)
  with h show ?thesis unfolding payloads_def by (intro exI [of _ "hps' @ [(t, q @ p)]"]) auto
qed

lemma payloads_new:
  assumes "payloads cf cs d"
  shows "payloads cf (cs @ [file_header cf t]) d"
proof -
  from assms obtain hps where "cs = map (\<lambda>(t, p). file_header cf t @ p) hps" "concat (map snd hps) = d"
    by (auto simp: payloads_def)
  then show ?thesis unfolding payloads_def by (intro exI [of _ "hps @ [(t, [])]"]) auto
qed

fun holds :: "setting \<Rightarrow> nat \<Rightarrow> string list \<Rightarrow> syncBuffer option \<Rightarrow> osys \<Rightarrow> string \<Rightarrow> bool" where
  "holds cf s ns None os d \<longleftrightarrow> ns = [] \<and> d = []"
| "holds cf s ns (Some sb) os d \<longleftrightarrow>
     (\<exists>w. y_writer sb = Some w \<and> bw_ok (w, os) \<and> y_hasfile sb \<and> y_sev sb = s \<and> ns \<noteq> [] \<and> w_path w = last ns \<and>
       payloads cf (map (content os) (butlast ns) @ [bw_accepted (w, os)]) d)"

definition named :: "setting \<Rightarrow> nat \<Rightarrow> osys \<Rightarrow> string list \<Rightarrow> bool" where
  "named cf s os ns \<longleftrightarrow> distinct ns \<and> (\<forall>n \<in> set ns. \<exists>k < o_tick os. n = log_path cf s (o_now os k))"

definition logged :: "setting \<Rightarrow> (nat \<Rightarrow> string list) \<Rightarrow> glog \<Rightarrow> (nat \<Rightarrow> string) \<Rightarrow> bool" where
  "logged cf ns g D \<longleftrightarrow> calm (g_os g) \<and> inj (\<lambda>k. stamp (o_now (g_os g) k)) \<and> log_shape g \<and>
     (\<forall>s < 4. holds cf s (ns s) (g_file g ! s) (g_os g) (D s) \<and> named cf s (g_os g) (ns s))"

text \<open>Steps that touch other files.\<close>

lemma content_cong: "o_files os' p = o_files os p \<Longrightarrow> content os' p = content os p"
  by (simp add: content_def)

lemma holds_same:
  assumes "holds cf s ns f os d" "\<forall>q \<in> set ns. o_files os' q = o_files os q" "calm os'"
  shows "holds cf s ns f os' d"
proof (cases f)
  case (Some sb)
  with assms(1) obtain w where w: "y_writer sb = Some w" "bw_ok (w, os)" "y_hasfile sb" "y_sev sb = s" "ns \<noteq> []"
    "w_path w = last ns" "payloads cf (map (content os) (butlast ns) @ [bw_accepted (w, os)]) d" by auto
  note same = assms(2) [rule_format]
  have m: "map (content os') (butlast ns) = map (content os) (butlast ns)"
    using same by (auto intro!: content_cong dest: in_set_butlastD)
  have "bw_accepted (w, os') = bw_accepted (w, os)" "bw_ok (w, os')"
    using same [of "last ns"] w assms(3) content_cong [of os' "last ns" os]
    by (auto simp: bw_accepted_def bw_ok_def)
  with m w Some show ?thesis by (simp del: map_eq_conv)
qed (use assms in simp)

section \<open>One file\<close>

lemma create_calm:
  assumes "calm os" "s < 4"
  shows "\<exists>os'. create cf (severityName ! s) t os = (Inr (log_path cf s t), os') \<and>
    o_files os' = (o_files os)(log_path cf s t \<mapsto> []) \<and> calm os' \<and> o_now os' = o_now os \<and> o_tick os' = o_tick os"
proof -
  obtain d ds where d: "createLogDirs cf = d # ds" by (cases "createLogDirs cf") (auto simp: createLogDirs_def)
  obtain name link where n: "logName cf (severityName ! s) t = (name, link)" by fastforce
  obtain os1 where f: "next_fault os = (None, os1)" "calm os1" "os1 = os\<lparr>o_faults := tl (o_faults os)\<rparr>"
    using calm_fault [OF assms(1)] by blast
  show ?thesis using f d n
    by (auto simp: create_def os_Create_def log_path_def calm_def Let_def)
qed

text \<open>Closing the old file writes down what its buffer still holds.\<close>

lemma close_calm:
  assumes "calm os" "y_sev sb = s" "distinct ns" "holds cf s ns (if y_hasfile sb then Some sb else None) os d"
  shows "\<exists>sb1 os1. close_file sb os = (sb1, os1) \<and> y_sev sb1 = s \<and> calm os1 \<and> o_now os1 = o_now os \<and>
    o_tick os1 = o_tick os \<and> payloads cf (map (content os1) ns) d \<and>
    (\<forall>p. p \<notin> set ns \<longrightarrow> o_files os1 p = o_files os p)"
proof (cases "y_hasfile sb")
  case True
  with assms(4) obtain w where w: "y_writer sb = Some w" "bw_ok (w, os)" "ns \<noteq> []" "w_path w = last ns"
    "payloads cf (map (content os) (butlast ns) @ [bw_accepted (w, os)]) d" by auto
  from bw_Flush_calm [OF w(2)] obtain os1 where f: "bw_Flush w os = (w\<lparr>w_buf := []\<rparr>, os1)" "calm os1"
    "same_but (last ns) os os1" "o_files os1 (last ns) = Some (content os (last ns) @ w_buf w)" using w(4) by auto
  have ns: "ns = butlast ns @ [last ns]" using w(3) by simp
  with assms(3) have last: "last ns \<notin> set (butlast ns)" by (metis distinct_append list.set_intros(1) disjoint_iff)
  have "content os1 n = content os n" if "n \<in> set (butlast ns)" for n
  proof -
    have "n \<noteq> last ns" using that last by metis
    with f(3) show ?thesis by (intro content_cong) (simp add: same_but_def)
  qed
  then have "map (content os1) (butlast ns) = map (content os) (butlast ns)" by simp
  moreover have "content os1 (last ns) = bw_accepted (w, os)"
    using f(4) w(4) by (simp add: content_def [of os1] bw_accepted_def)
  ultimately have m: "map (content os1) ns = map (content os) (butlast ns) @ [bw_accepted (w, os)]"
    by (subst ns) (simp del: append_butlast_last_id)
  have "last ns \<in> set ns" using w(3) by simp
  then have "\<forall>p. p \<notin> set ns \<longrightarrow> o_files os1 p = o_files os p" using f(3) unfolding same_but_def by metis
  moreover have "o_now os1 = o_now os" "o_tick os1 = o_tick os" using f(3) by (simp_all add: same_but_def)
  ultimately show ?thesis using m w(5) f(2) assms(2) True w(1) f(1)
    by (simp add: close_file_def del: map_eq_conv)
next
  case False
  with assms show ?thesis by (simp add: close_file_def)
qed

lemma rotate_calm:
  assumes "calm os" "s < 4" "y_sev sb = s" "log_path cf s t \<notin> set ns" "distinct ns"
    "holds cf s ns (if y_hasfile sb then Some sb else None) os d"
  shows "\<exists>sb' os'. rotateFile cf t sb os = (None, sb', os') \<and> holds cf s (ns @ [log_path cf s t]) (Some sb') os' d \<and>
    (\<forall>q. q \<notin> set ns \<longrightarrow> q \<noteq> log_path cf s t \<longrightarrow> o_files os' q = o_files os q) \<and> calm os' \<and>
    o_now os' = o_now os \<and> o_tick os' = o_tick os \<and> has_writer s sb'"
proof -
  let ?q = "log_path cf s t"
  from close_calm [OF assms(1,3,5,6)] obtain sb1 os1 where c: "close_file sb os = (sb1, os1)" "y_sev sb1 = s" "calm os1"
    "o_now os1 = o_now os" "o_tick os1 = o_tick os" "payloads cf (map (content os1) ns) d"
    "\<forall>p. p \<notin> set ns \<longrightarrow> o_files os1 p = o_files os p" by blast
  from create_calm [OF c(3) assms(2)] obtain os2 where k: "create cf (severityName ! s) t os1 = (Inr ?q, os2)"
    "o_files os2 = (o_files os1)(?q \<mapsto> [])" "calm os2" "o_now os2 = o_now os1" "o_tick os2 = o_tick os1" by blast
  note clm = k(3)
  let ?os = "append_file ?q (file_header cf t) (os2\<lparr>o_faults := tl (o_faults os2)\<rparr>)"
  let ?sb = "sb1\<lparr>y_hasfile := True, y_nbytes := of_nat (length (file_header cf t)), y_writer := Some (new_bufw ?q)\<rparr>"
  have r: "rotateFile cf t sb os = (None, ?sb, ?os)"
    using c(1,2) k(1) file_Write_calm [OF clm] by (simp add: rotateFile_def)
  have cont: "map (content ?os) ns = map (content os1) ns"
  proof -
    have "content ?os n = content os1 n" if "n \<in> set ns" for n
      using that assms(4) k(2) by (auto intro: content_cong)
    then show ?thesis by simp
  qed
  have hd: "content ?os ?q = file_header cf t" using k(2) by (simp add: content_def [of os2])
  have "holds cf s (ns @ [?q]) (Some ?sb) ?os d"
    using payloads_new [OF c(6), of t] cont hd c(2) calm_tl [OF clm] append_file_file [of "os2\<lparr>o_faults := tl (o_faults os2)\<rparr>" ?q] k(2)
    by (simp add: bw_ok_def bw_accepted_def new_bufw_def del: map_eq_conv content_append)
  moreover have "\<forall>q. q \<notin> set ns \<longrightarrow> q \<noteq> ?q \<longrightarrow> o_files ?os q = o_files os q"
    using k(2) c(7) by (simp add: append_file_def)
  moreover have "calm ?os" "o_now ?os = o_now os" "o_tick ?os = o_tick os"
    using calm_tl [OF clm] k(4,5) c(4,5) by simp_all
  moreover have "has_writer s ?sb" using c(2) by (simp add: has_writer_def)
  ultimately show ?thesis using r by blast
qed

section \<open>One call of \<open>sb.Write\<close>\<close>

lemma log_shape_file:
  "log_shape g \<Longrightarrow> s < 4 \<Longrightarrow> has_writer s sb \<Longrightarrow> log_shape (g\<lparr>g_file := (g_file g)[s := Some sb], g_os := os\<rparr>)"
  by (auto simp: log_shape_def nth_list_update)

text \<open>A new file is in no list of names: its reading of the clock is later than theirs.\<close>

lemma fresh_path:
  assumes "names_ok cf" "inj (\<lambda>k. stamp (o_now os k))" "s < 4" "s' < 4" "named cf s' os ns"
  shows "log_path cf s (o_now os (o_tick os)) \<notin> set ns"
proof
  assume "log_path cf s (o_now os (o_tick os)) \<in> set ns"
  with assms(5) obtain k where k: "k < o_tick os" "log_path cf s (o_now os (o_tick os)) = log_path cf s' (o_now os k)"
    by (auto simp: named_def)
  from log_path_inj(2) [OF assms(1,3,4) k(2)] assms(2) have "o_tick os = k" by (auto dest: injD)
  with k(1) show False by simp
qed

lemma named_disjoint:
  assumes "names_ok cf" "s < 4" "s' < 4" "s \<noteq> s'" "named cf s os ns" "named cf s' os ns'"
  shows "set ns \<inter> set ns' = {}"
proof (rule ccontr)
  assume "set ns \<inter> set ns' \<noteq> {}"
  then obtain n where "n \<in> set ns" "n \<in> set ns'" by blast
  with assms(5,6) obtain k k' where "log_path cf s (o_now os k) = log_path cf s' (o_now os k')"
    unfolding named_def by metis
  with log_path_inj(1) [OF assms(1-3)] assms(4) show False by blast
qed

text \<open>What one severity's file does leaves the other severities alone.\<close>

lemma logged_update:
  assumes "logged cf ns g D" "names_ok cf" "s < 4"
    "log_shape g'" "calm (g_os g')" "o_now (g_os g') = o_now (g_os g)" "o_tick (g_os g) \<le> o_tick (g_os g')"
    "g_file g' = (g_file g)[s := Some sb]" "holds cf s ns' (Some sb) (g_os g') d" "named cf s (g_os g') ns'"
    "\<forall>q. q \<notin> set ns' \<longrightarrow> o_files (g_os g') q = o_files (g_os g) q"
  shows "logged cf (ns(s := ns')) g' (D(s := d))"
proof -
  have "holds cf k (ns k) (g_file g ! k) (g_os g') (D k)" "named cf k (g_os g') (ns k)" if k: "k < 4" "k \<noteq> s" for k
  proof -
    have h: "holds cf k (ns k) (g_file g ! k) (g_os g) (D k)" "named cf k (g_os g) (ns k)"
      using assms(1) k(1) by (simp_all add: logged_def)
    show n: "named cf k (g_os g') (ns k)"
      using h(2) assms(6,7) by (auto simp: named_def) (metis order_less_le_trans)
    have "set (ns k) \<inter> set ns' = {}" using named_disjoint [OF assms(2) k(1) assms(3) k(2) n assms(10)] .
    then have same: "\<forall>q \<in> set (ns k). o_files (g_os g') q = o_files (g_os g) q" using assms(11) by blast
    show "holds cf k (ns k) (g_file g ! k) (g_os g') (D k)" using holds_same [OF h(1) same assms(5)] .
  qed
  with assms show ?thesis by (auto simp: logged_def log_shape_def nth_list_update)
qed

lemma rotate_step_logged:
  assumes "logged cf ns g D" "names_ok cf" "s < 4" "g_file g ! s = Some sb"
  shows "\<exists>g' ns'. rotate_step cf s n sb g = Ok g' \<and> logged cf ns' g' D"
proof (cases "e_maxSize cf \<le> y_nbytes sb + of_nat n")
  case True
  let ?t = "o_now (g_os g) (o_tick (g_os g))" and ?os = "(g_os g)\<lparr>o_tick := o_tick (g_os g) + 1\<rparr>"
  let ?q = "log_path cf s ?t"
  have L: "calm (g_os g)" "inj (\<lambda>k. stamp (o_now (g_os g) k))" "log_shape g"
    "holds cf s (ns s) (Some sb) (g_os g) (D s)" "named cf s (g_os g) (ns s)"
    using assms by (auto simp: logged_def)
  have h: "holds cf s (ns s) (Some sb) ?os (D s)"
    by (rule holds_same [OF L(4)]) (use L(1) in \<open>simp_all add: calm_def\<close>)
  then have f: "y_hasfile sb" "y_sev sb = s" by auto
  have fresh: "?q \<notin> set (ns s)" by (rule fresh_path [OF assms(2) L(2) assms(3,3) L(5)])
  have "calm ?os" using L(1) by (simp add: calm_def)
  moreover have "distinct (ns s)" using L(5) by (simp add: named_def)
  moreover have "holds cf s (ns s) (if y_hasfile sb then Some sb else None) ?os (D s)" using h f(1) by simp
  ultimately obtain sb' os' where
    r: "rotateFile cf ?t sb ?os = (None, sb', os')" "holds cf s (ns s @ [?q]) (Some sb') os' (D s)"
    "\<forall>q. q \<notin> set (ns s) \<longrightarrow> q \<noteq> ?q \<longrightarrow> o_files os' q = o_files ?os q" "calm os'" "o_now os' = o_now ?os"
    "o_tick os' = o_tick ?os" "has_writer s sb'" using rotate_calm [OF _ assms(3) f(2) fresh] by blast
  let ?g = "g\<lparr>g_file := (g_file g)[s := Some sb'], g_os := os'\<rparr>"
  have "named cf s os' (ns s @ [?q])"
    using L(5) fresh r(5,6) by (auto simp: named_def) (metis less_Suc_eq)
  moreover have "log_shape ?g" by (rule log_shape_file [OF L(3) assms(3) r(7)])
  ultimately have "logged cf (ns(s := ns s @ [?q])) ?g (D(s := D s))"
    using r by (intro logged_update [OF assms(1-3)]) simp_all
  moreover have "rotate_step cf s n sb g = Ok ?g" using True r(1) by (simp add: rotate_step_def time_Now_def)
  ultimately show ?thesis by auto
qed (use assms in \<open>auto simp: rotate_step_def\<close>)

lemma buffer_step_logged:
  assumes "logged cf ns g D" "names_ok cf" "s < 4" "g_file g ! s \<noteq> None"
  shows "\<exists>g'. buffer_step s p g = Ok g' \<and> logged cf ns g' (D(s := D s @ p))"
proof -
  obtain sb where sb: "g_file g ! s = Some sb" using assms(4) by blast
  have "holds cf s (ns s) (g_file g ! s) (g_os g) (D s)" "named cf s (g_os g) (ns s)"
    using assms(1,3) by (simp_all add: logged_def)
  with sb obtain w where w: "y_writer sb = Some w" "bw_ok (w, g_os g)" "y_hasfile sb" "y_sev sb = s" "ns s \<noteq> []"
    "w_path w = last (ns s)" "payloads cf (map (content (g_os g)) (butlast (ns s)) @ [bw_accepted (w, g_os g)]) (D s)"
    "named cf s (g_os g) (ns s)"
    by auto
  obtain n w' os where b: "bw_Write bufferSize p 0 w (g_os g) = ((n, w'), os)" by (metis prod.exhaust)
  note B = bw_Write_calm [OF w(2) b]
  let ?sb = "sb\<lparr>y_writer := Some w', y_nbytes := y_nbytes sb + of_nat n\<rparr>"
  let ?g = "g\<lparr>g_file := (g_file g)[s := Some ?sb], g_os := os\<rparr>"
  have other: "\<forall>q. q \<noteq> last (ns s) \<longrightarrow> o_files os q = o_files (g_os g) q" "o_now os = o_now (g_os g)"
    "o_tick os = o_tick (g_os g)" using B(3) w(6) by (simp_all add: same_but_def)
  have "last (ns s) \<notin> set (butlast (ns s))"
    using w(5,8) by (metis append_butlast_last_id distinct_append disjoint_iff list.set_intros(1) named_def)
  then have "\<forall>q \<in> set (butlast (ns s)). content os q = content (g_os g) q"
    using other(1) by (metis content_cong)
  then have "map (content os) (butlast (ns s)) = map (content (g_os g)) (butlast (ns s))" by simp
  then have "payloads cf (map (content os) (butlast (ns s)) @ [bw_accepted (w', os)]) (D s @ p)"
    using payloads_extend [OF w(7), of p] B(5) by (simp del: map_eq_conv)
  then have "holds cf s (ns s) (Some ?sb) os (D s @ p)" using w B(2,4) by simp
  moreover have "log_shape ?g"
    using log_shape_file [of g s ?sb os] assms(1,3) w(4) by (simp add: logged_def has_writer_def)
  moreover have "named cf s os (ns s)" using w(8) other by (simp add: named_def)
  moreover have "\<forall>q. q \<notin> set (ns s) \<longrightarrow> o_files os q = o_files (g_os g) q" using other(1) w(5) by (metis last_in_set)
  moreover have "calm os" "w_err w' = None" using B(2) by (simp_all add: bw_ok_def)
  ultimately have "logged cf (ns(s := ns s)) ?g (D(s := D s @ p))"
    using other logged_update [OF assms(1-3), of ?g ?sb "ns s" "D s @ p"] by (simp del: holds.simps)
  moreover have "buffer_step s p g = Ok ?g" using sb w(1) b \<open>w_err w' = None\<close> by (simp add: buffer_step_def)
  ultimately show ?thesis by simp
qed

lemma sb_Write_logged:
  assumes "logged cf ns g D" "names_ok cf" "s < 4" "g_file g ! s \<noteq> None" "log_inv g"
  shows "\<exists>g' ns'. sb_Write cf s p g = Ok g' \<and> logged cf ns' g' (D(s := D s @ p)) \<and> keeps g (Ok g')"
proof -
  obtain sb where sb: "g_file g ! s = Some sb" using assms(4) by blast
  from rotate_step_logged [OF assms(1-3) sb, of "length p"] obtain g1 ns1 where
    r: "rotate_step cf s (length p) sb g = Ok g1" "logged cf ns1 g1 D" by blast
  from rotate_step_keeps [OF assms(5,3) sb, of cf "length p"] r(1) have "opened g1 = opened g" by simp
  then have "g_file g1 ! s \<noteq> None" using assms(3,4) by (auto simp: opened_def)
  from buffer_step_logged [OF r(2) assms(2,3) this, of p] obtain g2 where
    b: "buffer_step s p g1 = Ok g2" "logged cf ns1 g2 (D(s := D s @ p))" by blast
  have "sb_Write cf s p g = Ok g2" using sb r(1) b(1) by (simp add: sb_Write_def)
  with sb_Write_keeps [OF assms(5,3,4), of cf p] b(2) show ?thesis by auto
qed

section \<open>The whole message\<close>

lemma named_later:
  "named cf s os ns \<Longrightarrow> o_now os' = o_now os \<Longrightarrow> o_tick os \<le> o_tick os' \<Longrightarrow> named cf s os' ns"
  unfolding named_def by (metis order_less_le_trans)

text \<open>The stream of each severity after a message: the severities up to that of the message get it.\<close>

definition deliver :: "nat \<Rightarrow> string \<Rightarrow> (nat \<Rightarrow> string) \<Rightarrow> nat \<Rightarrow> string" where
  "deliver s p D = (\<lambda>k. if k \<le> s then D k @ p else D k)"

lemma write_down_logged:
  assumes "logged cf ns g D" "names_ok cf" "k \<le> 4" "{..<k} \<subseteq> opened g" "log_inv g"
  shows "\<exists>g' ns'. write_down cf p k g = Ok g' \<and> logged cf ns' g' (\<lambda>j. if j < k then D j @ p else D j) \<and> keeps g (Ok g')"
  using assms
proof (induction k arbitrary: ns g D)
  case (Suc s)
  then have s: "s < 4" "g_file g ! s \<noteq> None" by (auto simp: opened_def lessThan_Suc)
  from sb_Write_logged [OF Suc.prems(1,2) s Suc.prems(5)] obtain g1 ns1 where
    w: "sb_Write cf s p g = Ok g1" "logged cf ns1 g1 (D(s := D s @ p))" "keeps g (Ok g1)" by blast
  have "{..<s} \<subseteq> opened g1" "log_inv g1" using w(3) Suc.prems(4) by (auto simp: lessThan_Suc)
  from Suc.IH [OF w(2) Suc.prems(2) _ this] Suc.prems(3) obtain g2 ns2 where
    i: "write_down cf p s g1 = Ok g2" "logged cf ns2 g2 (\<lambda>j. if j < s then (D(s := D s @ p)) j @ p else (D(s := D s @ p)) j)"
    "keeps g1 (Ok g2)" by auto
  have "(\<lambda>j. if j < s then (D(s := D s @ p)) j @ p else (D(s := D s @ p)) j) = (\<lambda>j. if j < Suc s then D j @ p else D j)"
    by (auto simp: fun_eq_iff less_Suc_eq)
  with w(1,3) i show ?case by (auto intro: same_setup_trans)
qed auto

lemma createFiles_loop_logged:
  assumes "logged cf ns g D" "names_ok cf" "k \<le> 4" "t = o_now (g_os g) i" "i < o_tick (g_os g)"
    "\<And>s. s < k \<Longrightarrow> log_path cf s t \<notin> set (ns s)"
  shows "\<exists>g' ns'. createFiles_loop cf t k g = (None, g') \<and> logged cf ns' g' D"
  using assms
proof (induction k arbitrary: ns g)
  case (Suc s)
  show ?case
  proof (cases "g_file g ! s")
    case None
    let ?q = "log_path cf s t" and ?sb = "new_syncBuffer s"
    have s: "s < 4" using Suc.prems(3) by simp
    have L: "calm (g_os g)" "log_shape g" "holds cf s (ns s) (g_file g ! s) (g_os g) (D s)" "named cf s (g_os g) (ns s)"
      using Suc.prems(1) s by (simp_all add: logged_def)
    with None have e: "ns s = []" "D s = []" by simp_all
    have "holds cf s (ns s) (if y_hasfile ?sb then Some ?sb else None) (g_os g) (D s)" "y_sev ?sb = s" "distinct (ns s)"
      using e by (simp_all add: new_syncBuffer_def)
    from rotate_calm [OF L(1) s this(2) Suc.prems(6) this(3,1)] obtain sb os where
      r: "rotateFile cf t ?sb (g_os g) = (None, sb, os)" "holds cf s (ns s @ [?q]) (Some sb) os (D s)"
      "\<forall>q. q \<notin> set (ns s) \<longrightarrow> q \<noteq> ?q \<longrightarrow> o_files os q = o_files (g_os g) q" "calm os" "o_now os = o_now (g_os g)"
      "o_tick os = o_tick (g_os g)" "has_writer s sb" by auto
    let ?g = "g\<lparr>g_file := (g_file g)[s := Some sb], g_os := os\<rparr>"
    have "named cf s os (ns s @ [?q])" using e r(5,6) Suc.prems(4,5) by (auto simp: named_def)
    moreover have "log_shape ?g" by (rule log_shape_file [OF L(2) s r(7)])
    ultimately have l: "logged cf (ns(s := ns s @ [?q])) ?g D"
      using r logged_update [OF Suc.prems(1,2) s, of ?g sb "ns s @ [?q]" "D s"] by (simp del: holds.simps)
    have "\<exists>g' ns'. createFiles_loop cf t s ?g = (None, g') \<and> logged cf ns' g' D"
    proof (rule Suc.IH [OF l Suc.prems(2)])
      show "log_path cf k t \<notin> set ((ns(s := ns s @ [?q])) k)" if "k < s" for k
        using that Suc.prems(6) [of k] by simp
    qed (use Suc.prems(3-5) r(5,6) in simp_all)
    with None r(1) show ?thesis by simp
  qed (use Suc.prems in auto)
qed auto

lemma logged_os:
  assumes "logged cf ns g D" "o_files os = o_files (g_os g)" "calm os" "o_now os = o_now (g_os g)"
    "o_tick (g_os g) \<le> o_tick os"
  shows "logged cf ns (g\<lparr>g_os := os\<rparr>) D"
proof -
  have "holds cf k (ns k) (g_file g ! k) os (D k)" "named cf k os (ns k)" if k: "k < 4" for k
  proof -
    have "holds cf k (ns k) (g_file g ! k) (g_os g) (D k)" "named cf k (g_os g) (ns k)"
      using assms(1) k by (simp_all add: logged_def)
    with assms(2-5) show "holds cf k (ns k) (g_file g ! k) os (D k)" "named cf k os (ns k)"
      by (simp_all add: holds_same named_later del: holds.simps)
  qed
  then show ?thesis using assms by (simp add: logged_def log_shape_def)
qed

lemma createFiles_logged:
  assumes "logged cf ns g D" "names_ok cf" "s < 4"
  shows "\<exists>g' ns'. createFiles cf s g = (None, g') \<and> logged cf ns' g' D"
proof -
  let ?t = "o_now (g_os g) (o_tick (g_os g))" and ?os = "(g_os g)\<lparr>o_tick := o_tick (g_os g) + 1\<rparr>"
  have l: "logged cf ns (g\<lparr>g_os := ?os\<rparr>) D"
    using assms(1) by (intro logged_os) (simp_all add: logged_def calm_def)
  have "log_path cf k ?t \<notin> set (ns k)" if "k < Suc s" for k
    using fresh_path [OF assms(2), of "g_os g" k k "ns k"] assms(1,3) that by (simp add: logged_def)
  from createFiles_loop_logged [OF l assms(2), of "Suc s" ?t "o_tick (g_os g)"] this assms(3)
  show ?thesis by (simp add: createFiles_def time_Now_def)
qed

lemma logged_stderr: "logged cf ns g D \<Longrightarrow> logged cf ns (stderr x g) D"
  by (rule logged_os) (simp_all add: logged_def calm_def write_stderr_def)

lemma logged_setup:
  "logged cf ns g D \<Longrightarrow> g_file g' = g_file g \<Longrightarrow> g_os g' = g_os g \<Longrightarrow> log_shape g' \<Longrightarrow> logged cf ns g' D"
  by (simp add: logged_def)

lemma to_files_logged:
  assumes "logged cf ns g D" "names_ok cf" "s < 4" "log_inv g" "\<not> g_exitfunc g"
  shows "\<exists>g' ns'. to_files cf s data also g = Ok g' \<and> logged cf ns' g' (deliver s data D)"
proof -
  define g0 where "g0 = (if also \<or> g_alsoToStderr g \<or> g_threshold g \<le> int s then stderr data g else g)"
  have g0: "logged cf ns g0 D" "log_inv g0" "\<not> g_exitfunc g0"
    using assms logged_stderr by (auto simp: g0_def)
  define r where "r = (if g_file g0 ! s = None then
      (case createFiles cf s g0 of (Some err, g) \<Rightarrow> l_exit err (stderr data g) | (None, g) \<Rightarrow> Ok g) else Ok g0)"
  have eq: "to_files cf s data also g = bindR r (write_down cf data (Suc s))"
    using g0(2) assms(3) by (simp add: to_files_def Let_def log_inv_def r_def flip: g0_def)
  have "\<exists>g1 ns1. r = Ok g1 \<and> logged cf ns1 g1 D \<and> log_inv g1 \<and> {..<Suc s} \<subseteq> opened g1"
  proof (cases "g_file g0 ! s = None")
    case True
    from createFiles_logged [OF g0(1) assms(2,3)] obtain g1 ns1 where
      c: "createFiles cf s g0 = (None, g1)" "logged cf ns1 g1 D" by blast
    from createFiles_ok(3) [OF g0(2) assms(3) True c(1)] c True show ?thesis
      by (auto simp: r_def lessThan_Suc_atMost)
  next
    case False
    have "{..<Suc s} \<subseteq> opened g0"
      using closed_below_all [OF _ assms(3) False] g0(2) assms(3) by (auto simp: opened_def log_inv_shape)
    with False g0 show ?thesis by (auto simp: r_def)
  qed
  then obtain g1 ns1 where r: "r = Ok g1" "logged cf ns1 g1 D" "log_inv g1" "{..<Suc s} \<subseteq> opened g1" by blast
  have "(\<lambda>j. if j < Suc s then D j @ data else D j) = deliver s data D" by (simp add: deliver_def less_Suc_eq_le)
  with write_down_logged [OF r(2) assms(2) _ r(4,3), of data] assms(3) r(1) show ?thesis unfolding eq by auto
qed

section \<open>Logging and flushing\<close>

text \<open>The text of a message: at the line of \<open>-log_backtrace_at\<close> a stack is added.\<close>

definition emitted :: "setting \<Rightarrow> glog \<Rightarrow> buffer \<Rightarrow> string \<Rightarrow> int \<Rightarrow> string" where
  "emitted cf g b file line =
     b_bytes b @ (if trace_isSet (g_trace g) \<and> trace_match (g_trace g) file line then stacks cf False else [])"

definition running :: "glog \<Rightarrow> bool" where
  "running g \<longleftrightarrow> log_inv g \<and> \<not> g_toStderr g \<and> \<not> g_exitfunc g"

lemma l_output_logged:
  assumes "logged cf ns g D" "names_ok cf" "s < 3" "running g" "length (b_tmp b) = 64"
  shows "\<exists>g' ns'. l_output cf s b file line also g = Ok g' \<and> running g' \<and>
    logged cf ns' g' (deliver s (emitted cf g b file line) D)"
proof -
  define b1 where "b1 = (if trace_isSet (g_trace g) \<and> trace_match (g_trace g) file line
    then b\<lparr>b_bytes := b_bytes b @ stacks cf False\<rparr> else b)"
  let ?d = "emitted cf g b file line"
  have b1: "b_bytes b1 = ?d" "length (b_tmp b1) = 64" using assms(5) by (auto simp: b1_def emitted_def)
  have R: "log_inv g" "\<not> g_toStderr g" "\<not> g_exitfunc g" using assms(4) by (simp_all add: running_def)
  from to_files_logged [OF assms(1,2) _ R(1,3), of s ?d "also"] assms(3) obtain g1 ns1 where
    t: "to_files cf s ?d also g = Ok g1" "logged cf ns1 g1 (deliver s ?d D)" by auto
  from to_files_written [OF R(1) _ R(3), of s cf ?d "also"] t(1) assms(3) have
    k: "log_inv g1" "same_setup g g1" by simp_all
  let ?g = "count s (length ?d) (g1\<lparr>g_pool := putBuffer b1 (g_pool g1)\<rparr>)"
  have out: "l_output cf s b file line also g = Ok ?g"
    unfolding l_output_def Let_def b1_def [symmetric] b1(1) using R(2) t(1) assms(3) by simp
  have i: "log_inv ?g" using k(1) pool_ok_emit [OF k(1) b1(2)] by (simp add: log_inv_def count_def Let_def)
  moreover have "\<not> g_toStderr ?g" "\<not> g_exitfunc ?g" using k(2) R(2,3) by (simp_all add: count_def Let_def same_setup_def)
  moreover have "logged cf ns1 ?g (deliver s ?d D)"
    using i by (intro logged_setup [OF t(2)]) (simp_all add: count_def Let_def log_inv_shape)
  ultimately show ?thesis using out by (auto simp: running_def)
qed

definition synced :: "syncBuffer option \<Rightarrow> bool" where
  "synced f \<longleftrightarrow> (\<forall>sb w. f = Some sb \<longrightarrow> y_writer sb = Some w \<longrightarrow> w_buf w = [])"

lemma flush_at_logged:
  assumes "logged cf ns g D" "names_ok cf" "s < 4"
  shows "logged cf ns (flush_at s g) D \<and> synced (g_file (flush_at s g) ! s) \<and>
    (\<forall>k. k \<noteq> s \<longrightarrow> g_file (flush_at s g) ! k = g_file g ! k)"
proof (cases "g_file g ! s")
  case (Some sb)
  have "holds cf s (ns s) (g_file g ! s) (g_os g) (D s)" "named cf s (g_os g) (ns s)" "log_shape g"
    using assms(1,3) by (simp_all add: logged_def)
  with Some obtain w where w: "y_writer sb = Some w" "bw_ok (w, g_os g)" "y_hasfile sb" "y_sev sb = s" "ns s \<noteq> []"
    "w_path w = last (ns s)" "payloads cf (map (content (g_os g)) (butlast (ns s)) @ [bw_accepted (w, g_os g)]) (D s)"
    "named cf s (g_os g) (ns s)" "log_shape g" unfolding Some holds.simps by blast
  from bw_Flush_calm [OF w(2)] obtain os where f: "bw_Flush w (g_os g) = (w\<lparr>w_buf := []\<rparr>, os)" "calm os"
    "same_but (last (ns s)) (g_os g) os" "o_files os (last (ns s)) = Some (content (g_os g) (last (ns s)) @ w_buf w)"
    using w(6) by auto
  let ?sb = "sb\<lparr>y_writer := Some (w\<lparr>w_buf := []\<rparr>)\<rparr>"
  let ?g = "g\<lparr>g_file := (g_file g)[s := Some ?sb], g_os := os\<rparr>"
  have g: "flush_at s g = ?g" using Some w(1) f(1) by (simp add: flush_at_def)
  have "last (ns s) \<notin> set (butlast (ns s))"
    using w(5,8) by (metis append_butlast_last_id distinct_append disjoint_iff list.set_intros(1) named_def)
  moreover have oth: "\<forall>q. q \<noteq> last (ns s) \<longrightarrow> o_files os q = o_files (g_os g) q" using f(3) by (simp add: same_but_def)
  ultimately have "\<forall>q \<in> set (butlast (ns s)). content os q = content (g_os g) q"
    by (metis content_cong)
  then have m: "map (content os) (butlast (ns s)) = map (content (g_os g)) (butlast (ns s))" by simp
  have a: "bw_accepted (w\<lparr>w_buf := []\<rparr>, os) = bw_accepted (w, g_os g)" "bw_ok (w\<lparr>w_buf := []\<rparr>, os)"
    using f(2,4) w(2,6) by (simp_all add: bw_accepted_def bw_ok_def content_def [of os])
  have "holds cf s (ns s) (Some ?sb) os (D s)" using w m a by (simp del: map_eq_conv)
  moreover have "log_shape ?g" using log_shape_file [OF w(9) assms(3)] w(4) by (simp add: has_writer_def)
  moreover have "named cf s os (ns s)" using w(8) f(3) by (simp add: named_def same_but_def)
  moreover have "\<forall>q. q \<notin> set (ns s) \<longrightarrow> o_files os q = o_files (g_os g) q"
    using oth w(5) by (metis last_in_set)
  moreover have "o_now os = o_now (g_os g)" "o_tick os = o_tick (g_os g)" using f(3) by (simp_all add: same_but_def)
  ultimately have "logged cf (ns(s := ns s)) ?g (D(s := D s))"
    using f(2) logged_update [OF assms, of ?g ?sb "ns s" "D s"] by (simp del: holds.simps)
  moreover have "synced (g_file ?g ! s)" using w(9) assms(3) by (simp add: synced_def log_shape_def)
  ultimately show ?thesis unfolding g by simp
qed (use assms in \<open>simp add: flush_at_def synced_def\<close>)

lemma flushAll_logged:
  assumes "logged cf ns g D" "names_ok cf"
  shows "logged cf ns (flushAll g) D \<and> (\<forall>s < 4. synced (g_file (flushAll g) ! s))"
proof -
  note F = flush_at_logged [OF _ assms(2)]
  define g3 g2 g1 where "g3 = flush_at 3 g" and "g2 = flush_at 2 g3" and "g1 = flush_at 1 g2"
  note d = g3_def g2_def g1_def
  have g: "flushAll g = flush_at 0 g1" by (simp add: flushAll_def d)
  have 3: "logged cf ns g3 D" "synced (g_file g3 ! 3)" using F [OF assms(1), of 3] by (simp_all add: d)
  have 2: "logged cf ns g2 D" "synced (g_file g2 ! 2)" "synced (g_file g2 ! 3)"
    using F [OF 3(1), of 2] 3(2) by (simp_all add: d(2))
  have 1: "logged cf ns g1 D" "synced (g_file g1 ! 1)" "synced (g_file g1 ! 2)" "synced (g_file g1 ! 3)"
    using F [OF 2(1), of 1] 2(2,3) by (simp_all add: d(3))
  have "logged cf ns (flushAll g) D" "synced (g_file (flushAll g) ! 0)" "synced (g_file (flushAll g) ! 1)"
    "synced (g_file (flushAll g) ! 2)" "synced (g_file (flushAll g) ! 3)"
    using F [OF 1(1), of 0] 1(2-4) by (simp_all add: g)
  moreover have "s = 0 \<or> s = 1 \<or> s = 2 \<or> s = 3" if "s < 4" for s :: nat using that by arith
  ultimately show ?thesis by blast
qed

lemma flushed_files:
  assumes "logged cf ns g D" "s < 4" "synced (g_file g ! s)"
  shows "payloads cf (map (content (g_os g)) (ns s)) (D s) \<and> named cf s (g_os g) (ns s)"
proof (cases "g_file g ! s")
  case None
  with assms show ?thesis by (auto simp: logged_def)
next
  case (Some sb)
  have "holds cf s (ns s) (g_file g ! s) (g_os g) (D s)" "named cf s (g_os g) (ns s)"
    using assms(1,2) by (simp_all add: logged_def)
  with Some obtain w where w: "y_writer sb = Some w" "ns s \<noteq> []" "w_path w = last (ns s)" "named cf s (g_os g) (ns s)"
    "payloads cf (map (content (g_os g)) (butlast (ns s)) @ [bw_accepted (w, g_os g)]) (D s)" by auto
  have "w_buf w = []" using assms(3) Some w(1) by (simp add: synced_def)
  then have "map (content (g_os g)) (butlast (ns s)) @ [bw_accepted (w, g_os g)] =
      map (content (g_os g)) (butlast (ns s) @ [last (ns s)])" using w(3) by (simp add: bw_accepted_def)
  with w(2,4,5) show ?thesis by simp
qed

end
