(* ===== verification/GlogRun.thy ===== *)
theory GlogRun
  imports GlogComplete
begin

text \<open>
  Runs of the logger: any sequence of messages and flushes, with the headers of concurrent callers
  taken from the pool in between. The properties are about every state a run reaches.
\<close>

section \<open>Runs\<close>

text \<open>
  \<open>logs cf g0 ms g\<close>: from \<open>g0\<close> the logger came to \<open>g\<close> with the messages \<open>ms\<close> put out, each with its
  severity. \<open>logs_header\<close> is the part of a call outside the lock: it reads the clock and takes a
  buffer. \<open>logs_flush\<close> is \<open>Flush\<close>, also that of the flush daemon.
\<close>

inductive logs :: "setting \<Rightarrow> glog \<Rightarrow> (nat \<times> string) list \<Rightarrow> glog \<Rightarrow> bool" for cf g0 where
  logs_start: "logs cf g0 [] g0"
| logs_header: "logs cf g0 ms g \<Longrightarrow> timeNow (g_os g) = (now, os) \<Longrightarrow> getBuffer (g_pool g) = (b, pool) \<Longrightarrow>
    logs cf g0 ms (g\<lparr>g_os := os, g_pool := pool\<rparr>)"
| logs_output: "logs cf g0 ms g \<Longrightarrow> s \<le> 3 \<Longrightarrow> length (b_tmp b) = 64 \<Longrightarrow>
    l_output cf s b file line also g = Ok g' \<Longrightarrow> logs cf g0 (ms @ [(s, emitted cf g b file line)]) g'"
| logs_flush: "logs cf g0 ms g \<Longrightarrow> logs cf g0 ms (flushAll g)"

inductive_simps logs_none: "logs cf g0 [] g"

definition stream :: "nat \<Rightarrow> (nat \<times> string) list \<Rightarrow> string" where
  "stream s ms = concat (map snd (filter (\<lambda>m. s \<le> fst m) ms))"

lemma stream_simps [simp]:
  "stream s [] = []" "stream s (ms @ [m]) = (if s \<le> fst m then stream s ms @ snd m else stream s ms)"
  by (simp_all add: stream_def)

lemma deliver_stream: "deliver s d (\<lambda>k. stream k ms) = (\<lambda>k. stream k (ms @ [(s, d)]))"
  by (auto simp: deliver_def)

lemma log_inv_header:
  assumes "log_inv g" "getBuffer (g_pool g) = (b, pool)"
  shows "log_inv (g\<lparr>g_os := os, g_pool := pool\<rparr>)"
proof -
  have "pool_ok pool" using assms by (cases "g_pool g") (auto simp: getBuffer_def log_inv_def pool_ok_def)
  with assms(1) show ?thesis by (simp add: log_inv_def)
qed

lemma logged_start:
  assumes "calm os" "inj (\<lambda>k. stamp (o_now os k))"
  shows "logged cf (\<lambda>_. []) (start_log os) (\<lambda>_. [])"
  using assms log_inv_start(1) [of os]
  by (auto simp: logged_def named_def log_inv_shape start_log_def nth_Cons')

lemma running_start: "running (start_log os)"
  using log_inv_start [of os] by (simp add: running_def start_log_def)

text \<open>What every state of a run keeps, on a disk without faults.\<close>

lemma logs_keep:
  assumes "logs cf (start_log os) ms g" "names_ok cf" "calm os" "inj (\<lambda>k. stamp (o_now os k))"
  shows "running g \<and> (\<exists>ns. logged cf ns g (\<lambda>s. stream s ms))"
  using assms(1)
proof (induction rule: logs.induct)
  case logs_start
  from logged_start [OF assms(3,4)] running_start show ?case by auto
next
  case (logs_header ms g now os' b pool)
  then obtain ns where l: "logged cf ns g (\<lambda>s. stream s ms)" "running g" by blast
  from l(2) log_inv_header [OF _ logs_header.hyps(3), of os'] have
    r: "running (g\<lparr>g_os := os', g_pool := pool\<rparr>)" by (simp add: running_def)
  have "logged cf ns (g\<lparr>g_os := os'\<rparr>) (\<lambda>s. stream s ms)"
    using l(1) logs_header.hyps(2) by (intro logged_os) (auto simp: logged_def timeNow_def calm_def)
  then have "logged cf ns (g\<lparr>g_os := os', g_pool := pool\<rparr>) (\<lambda>s. stream s ms)"
    using r by (elim logged_setup) (simp_all add: running_def log_inv_shape)
  with r show ?case by blast
next
  case (logs_output ms g s b "file" line "also" g')
  then obtain ns where l: "logged cf ns g (\<lambda>s. stream s ms)" "running g" by blast
  have "s < 3"
    using l_output_ends_well [of g s b cf "file" line "also"] logs_output.hyps l(2) by (auto simp: running_def)
  from l_output_logged [OF l(1) assms(2) this l(2) logs_output.hyps(3), of "file" line "also"] logs_output.hyps(4)
  show ?case by (auto simp: deliver_stream)
next
  case (logs_flush ms g)
  then obtain ns where "logged cf ns g (\<lambda>s. stream s ms)" "running g" by blast
  with flushAll_logged [OF _ assms(2)] flushAll_keeps [of g] show ?case
    by (auto simp: running_def same_setup_def)
qed

section \<open>Nothing is lost\<close>

text \<open>
  C24: nothing that was logged is lost or reordered. On a disk without faults, with a clock that
  never names two files alike, after a flush the files of every severity are, in order, a file header
  each and then the share of that file, and the shares together are exactly the texts of all messages
  of this or a higher severity in the order they were logged: whatever was rotated, whenever it was
  flushed.
\<close>

theorem log_complete:
  assumes "names_ok cf" "calm os" "inj (\<lambda>k. stamp (o_now os k))" "logs cf (start_log os) ms g" "s < 4"
  shows "\<exists>ns hps. distinct ns \<and> (\<forall>n \<in> set ns. \<exists>t. n = log_path cf s t) \<and>
    map (content (g_os (flushAll g))) ns = map (\<lambda>(t, p). file_header cf t @ p) hps \<and>
    concat (map snd hps) = stream s ms"
proof -
  from logs_keep [OF assms(4,1-3)] obtain ns where "logged cf ns g (\<lambda>s. stream s ms)" by blast
  from flushAll_logged [OF this assms(1)] assms(5) flushed_files [of cf ns "flushAll g" "\<lambda>s. stream s ms" s] have
    "payloads cf (map (content (g_os (flushAll g))) (ns s)) (stream s ms)" "named cf s (g_os (flushAll g)) (ns s)"
    by simp_all
  then show ?thesis unfolding payloads_def named_def by blast
qed


definition sample_os :: osys where
  "sample_os = start_os [] (\<lambda>n. sample_time\<lparr>t_year := 2000 + int n\<rparr>)"

lemma sample_log_ok: "names_ok sample_setting" "calm sample_os" "inj (\<lambda>k. stamp (o_now sample_os k))"
proof -
  show "names_ok sample_setting" "calm sample_os"
    by (simp_all add: names_ok_def sample_setting_def calm_def sample_os_def start_os_def)
  show "inj (\<lambda>k. stamp (o_now sample_os k))"
  proof (rule injI)
    fix i j
    assume "stamp (o_now sample_os i) = stamp (o_now sample_os j)"
    then have "zdec 4 (2000 + int i) = zdec 4 (2000 + int j)"
      by (simp add: stamp_def sample_os_def start_os_def)
    then have "dec_val (zdec 4 (2000 + int i)) = dec_val (zdec 4 (2000 + int j))" by simp
    then show "i = j" by (simp add: zdec_def pad_dec_def dec_val_zeros)
  qed
qed

lemma sample_run:
  "\<exists>g. logs sample_setting (start_log sample_os) [(2, ''boom'')] g"
proof -
  let ?b = "new_buffer\<lparr>b_bytes := ''boom''\<rparr>"
  have b: "length (b_tmp ?b) = 64" by (simp add: new_buffer_def)
  from logged_start [OF sample_log_ok(2,3)] obtain ns where
    "logged sample_setting ns (start_log sample_os) (\<lambda>_. [])" by blast
  from l_output_logged [OF this sample_log_ok(1) _ running_start b, of 2 "''d.go''" 23 False] obtain g where
    o: "l_output sample_setting 2 ?b ''d.go'' 23 False (start_log sample_os) = Ok g" by auto
  have "emitted sample_setting (start_log sample_os) ?b ''d.go'' 23 = ''boom''"
    by (simp add: emitted_def start_log_def trace_isSet_def)
  with logs_output [OF logs_start _ b o] show ?thesis by auto
qed

theorem log_complete_witness:
  "\<exists>g ns hps. logs sample_setting (start_log sample_os) [(2, ''boom'')] g \<and>
     map (content (g_os (flushAll g))) ns = map (\<lambda>(t, p). file_header sample_setting t @ p) hps \<and>
     concat (map snd hps) = ''boom''"
proof -
  obtain g where g: "logs sample_setting (start_log sample_os) [(2, ''boom'')] g" using sample_run by blast
  have "stream 1 [(2, ''boom'')] = ''boom''" by (simp add: stream_def)
  with log_complete [OF sample_log_ok g, of 1] g show ?thesis by auto
qed


section \<open>Statistics\<close>

definition bump :: "nat \<Rightarrow> stats \<Rightarrow> stats" where
  "bump n st = \<lparr>s_lines = s_lines st + 1, s_bytes = s_bytes st + of_nat n\<rparr>"

lemma l_output_stats:
  assumes "log_inv g" "s \<le> 3" "\<not> g_exitfunc g" "length (b_tmp b) = 64" "l_output cf s b file line also g = Ok g'"
  shows "s < 3 \<and> log_inv g' \<and> \<not> g_exitfunc g' \<and> g_noStacks g' = g_noStacks g \<and>
    g_stats g' = (g_stats g)[s := bump (length (emitted cf g b file line)) (g_stats g ! s)]"
proof -
  have e: "s < 3" "log_inv g'" "\<not> g_exitfunc g'"
    using l_output_ends_well [OF assms(1-4), of cf "file" line "also"] assms(5) by simp_all
  define b1 where "b1 = (if trace_isSet (g_trace g) \<and> trace_match (g_trace g) file line
    then b\<lparr>b_bytes := b_bytes b @ stacks cf False\<rparr> else b)"
  let ?d = "emitted cf g b file line"
  have d: "b_bytes b1 = ?d" by (auto simp: b1_def emitted_def)
  define r where "r = (if g_toStderr g then Ok (stderr ?d g) else to_files cf s ?d also g)"
  have "l_output cf s b file line also g =
      bindR r (\<lambda>g. Ok (count s (length ?d) (g\<lparr>g_pool := putBuffer b1 (g_pool g)\<rparr>)))"
    unfolding l_output_def Let_def b1_def [symmetric] d r_def using e(1) by simp
  moreover have "written s g r" using to_files_written [OF assms(1-3), of cf ?d "also"] assms(1) by (simp add: r_def)
  ultimately have "g_noStacks g' = g_noStacks g \<and> g_stats g' = (g_stats g)[s := bump (length ?d) (g_stats g ! s)]"
    using assms(5) by (cases r) (auto simp: count_def Let_def same_setup_def bump_def)
  with e show ?thesis by blast
qed

definition counted :: "(nat \<times> string) list \<Rightarrow> glog \<Rightarrow> bool" where
  "counted ms g \<longleftrightarrow> (\<forall>s < 3.
     s_lines (g_stats g ! s) = of_nat (length (filter (\<lambda>m. fst m = s) ms)) \<and>
     s_bytes (g_stats g ! s) = of_nat (length (concat (map snd (filter (\<lambda>m. fst m = s) ms)))))"

text \<open>What every state of a run keeps on any disk.\<close>

lemma logs_inv: "logs cf (start_log os) ms g \<Longrightarrow> log_inv g \<and> \<not> g_exitfunc g \<and> \<not> g_noStacks g \<and> counted ms g"
proof (induction rule: logs.induct)
  case logs_start
  then show ?case using log_inv_start by (auto simp: start_log_def counted_def)
next
  case (logs_output ms g s b "file" line "also" g')
  then have "length (g_stats g) = 3" by (simp add: log_inv_def)
  with logs_output l_output_stats [of g s b cf "file" line "also" g'] show ?case
    by (auto simp: nth_list_update bump_def counted_def)
next
  case (logs_flush ms g)
  with flushAll_keeps [of g] show ?case by (simp add: same_setup_def counted_def)
qed (simp add: log_inv_header counted_def)

text \<open>
  C26: the statistics are exact on every disk: after any run, \<open>Stats\<close> counts for each of the three
  severities the messages of exactly this severity and their bytes, modulo 2 to the 64.
\<close>

theorem stats_exact:
  assumes "logs cf (start_log os) ms g" "s < 3"
  shows "s_lines (g_stats g ! s) = of_nat (length (filter (\<lambda>m. fst m = s) ms)) \<and>
    s_bytes (g_stats g ! s) = of_nat (length (concat (map snd (filter (\<lambda>m. fst m = s) ms))))"
  using logs_inv [OF assms(1)] assms(2) by (simp add: counted_def)

theorem stats_exact_witness:
  "\<exists>g. logs sample_setting (start_log sample_os) [(2, ''boom'')] g \<and> s_lines (g_stats g ! 2) = 1 \<and>
     s_bytes (g_stats g ! 2) = 4"
proof -
  obtain g where g: "logs sample_setting (start_log sample_os) [(2, ''boom'')] g" using sample_run by blast
  with stats_exact [OF g, of 2] show ?thesis by (auto intro!: exI [of _ g])
qed

section \<open>Why the clock must advance\<close>

text \<open>
  The name of a file has the time to the second and \<open>os.Create\<close> truncates: a file that is rotated
  twice within one second is written over.
\<close>

lemma close_file_calm: "calm os \<Longrightarrow> close_file sb os = (sb1, os1) \<Longrightarrow> calm os1 \<and> y_sev sb1 = y_sev sb"
  by (auto simp: close_file_def bw_Flush_def file_Write_def calm_fault calm_append split: if_splits option.splits prod.splits dest: calm_fault)

lemma rotation_within_a_second:
  assumes "calm os" "y_sev sb = s" "s < 4"
  shows "\<exists>sb' os'. rotateFile cf t sb os = (None, sb', os') \<and> content os' (log_path cf s t) = file_header cf t"
proof -
  obtain sb1 os1 where c: "close_file sb os = (sb1, os1)" by fastforce
  have c1: "calm os1" "y_sev sb1 = s" using close_file_calm [OF assms(1) c] assms(2) by auto
  from create_calm [OF c1(1) assms(3), of cf t] obtain os2 where k:
    "create cf (severityName ! s) t os1 = (Inr (log_path cf s t), os2)" "o_files os2 = (o_files os1)(log_path cf s t \<mapsto> [])"
    "calm os2" by blast
  then show ?thesis using c c1(2) file_Write_calm [OF k(3)] by (simp add: rotateFile_def content_def [of os2])
qed

lemma pid_truncated: "nDigits 7 22 12345678 (CHR '' '') (replicate 64 (CHR 0x00)) =
    Inr (replicate 22 (CHR 0x00) @ ''2345678'' @ replicate 35 (CHR 0x00))"
  by code_simp

end
