(* ===== verification/GlogFlags.thy ===== *)
theory GlogFlags
  imports GlogSafety
begin

text \<open>
  The flags of the logger (\<open>glog.go\<close>): \<open>-stderrthreshold\<close>, \<open>-v\<close>, \<open>-vmodule\<close> and
  \<open>-log_backtrace_at\<close> with their \<open>Set\<close> and \<open>String\<close> methods, and the test \<open>V\<close> with its cache of
  call sites. \<open>Level\<close> and \<open>severity\<close> are \<open>int32\<close>.
\<close>

section \<open>\<open>bytes.SplitN\<close>\<close>

fun SplitN :: "nat \<Rightarrow> char \<Rightarrow> string \<Rightarrow> string list" where
  "SplitN 0 c s = []"
| "SplitN (Suc 0) c s = [s]"
| "SplitN (Suc (Suc n)) c s =
     (case find_index c s of None \<Rightarrow> [s] | Some i \<Rightarrow> take i s # SplitN (Suc n) c (drop (Suc i) s))"

datatype flag_error = NumError num_error | SyntaxError string

section \<open>\<open>severity\<close> and \<open>Level\<close>\<close>

definition severityByName :: "string \<Rightarrow> nat option" where
  "severityByName s = find_index (ToUpper s) severityName"

definition int32 :: "int \<Rightarrow> 32 word" where
  "int32 v = word_of_int v"

definition severity_String :: "32 word \<Rightarrow> string" where
  "severity_String s = int_dec (sint s)"

definition severity_Set :: "string \<Rightarrow> glog \<Rightarrow> flag_error option \<times> glog" where
  "severity_Set value g =
     (case severityByName value of
        Some v \<Rightarrow> (None, g\<lparr>g_threshold := int v\<rparr>)
      | None \<Rightarrow>
          (case Atoi value of
             Inl err \<Rightarrow> (Some (NumError err), g)
           | Inr v \<Rightarrow> (None, g\<lparr>g_threshold := sint (int32 v)\<rparr>)))"

definition Level_String :: "32 word \<Rightarrow> string" where
  "Level_String l = int_dec (sint l)"

section \<open>\<open>-vmodule\<close> and \<open>-v\<close>\<close>

record modulePat =
  p_pattern :: string
  p_literal :: bool
  p_level :: "32 word"

text \<open>\<open>v_vmap\<close> is the map \<open>vmap\<close>, \<open>None\<close> while it is nil.\<close>

record vstate =
  v_filter :: "modulePat list"
  v_vmap :: "(nat \<rightharpoonup> 32 word) option"
  v_filterLength :: "32 word"
  v_verbosity :: "32 word"

definition isLiteral :: "string \<Rightarrow> bool" where
  "isLiteral pattern \<longleftrightarrow> \<not> list_ex (\<lambda>c. c \<in> {CHR 0x5C, CHR ''*'', CHR ''?'', CHR ''['', CHR '']''}) pattern"

definition errVmoduleSyntax :: string where
  "errVmoduleSyntax = ''syntax error: expect comma-separated list of filename=N''"

fun vmodule_parse :: "string list \<Rightarrow> modulePat list \<Rightarrow> flag_error + modulePat list" where
  "vmodule_parse [] flt = Inr flt"
| "vmodule_parse (pat # pats) flt =
     (if pat = [] then vmodule_parse pats flt
      else
        (let patLev = split_on (CHR ''='') pat
         in if length patLev \<noteq> 2 \<or> patLev ! 0 = [] \<or> patLev ! 1 = [] then Inl (SyntaxError errVmoduleSyntax)
            else
              (case Atoi (patLev ! 1) of
                 Inl err \<Rightarrow> Inl (SyntaxError errVmoduleSyntax)
               | Inr v \<Rightarrow>
                   if v < 0 then Inl (SyntaxError ''negative value for vmodule level'')
                   else if v = 0 then vmodule_parse pats flt
                   else vmodule_parse pats (flt @
                     [\<lparr>p_pattern = patLev ! 0, p_literal = isLiteral (patLev ! 0), p_level = int32 v\<rparr>]))))"

text \<open>The four stores of \<open>setVState\<close>, in their order.\<close>

definition setVState :: "32 word \<Rightarrow> modulePat list \<Rightarrow> bool \<Rightarrow> vstate \<Rightarrow> vstate" where
  "setVState verbosity flt setFilter v =
     (let v = v\<lparr>v_verbosity := 0\<rparr>;
          v = v\<lparr>v_filterLength := 0\<rparr>;
          v = (if setFilter then v\<lparr>v_filter := flt, v_vmap := Some Map.empty\<rparr> else v);
          v = v\<lparr>v_filterLength := of_nat (length flt)\<rparr>
      in v\<lparr>v_verbosity := verbosity\<rparr>)"

definition moduleSpec_Set :: "string \<Rightarrow> vstate \<Rightarrow> flag_error option \<times> vstate" where
  "moduleSpec_Set value v =
     (case vmodule_parse (split_on (CHR '','') value) [] of
        Inl err \<Rightarrow> (Some err, v)
      | Inr flt \<Rightarrow> (None, setVState (v_verbosity v) flt True v))"

definition moduleSpec_String :: "modulePat list \<Rightarrow> string" where
  "moduleSpec_String flt =
     join_with (CHR '','') (map (\<lambda>f. p_pattern f @ CHR ''='' # int_dec (sint (p_level f))) flt)"

definition Level_Set :: "string \<Rightarrow> vstate \<Rightarrow> flag_error option \<times> vstate" where
  "Level_Set value v =
     (case Atoi value of
        Inl err \<Rightarrow> (Some (NumError err), v)
      | Inr n \<Rightarrow> (None, setVState (int32 n) (v_filter v) False v))"

text \<open>The state after \<open>init\<close>.\<close>

definition v_start :: vstate where
  "v_start = setVState 0 [] False \<lparr>v_filter = [], v_vmap = None, v_filterLength = 0, v_verbosity = 0\<rparr>"

section \<open>\<open>-log_backtrace_at\<close>\<close>

definition errTraceSyntax :: string where
  "errTraceSyntax = ''syntax error: expect file.go:234''"

definition trace_String :: "string \<times> int \<Rightarrow> string" where
  "trace_String t = fst t @ CHR '':'' # int_dec (snd t)"

definition trace_Set :: "string \<Rightarrow> string \<times> int \<Rightarrow> flag_error option \<times> (string \<times> int)" where
  "trace_Set value t =
     (let t = (if value = [] then ([], 0) else t);
          fields = split_on (CHR '':'') value
      in if length fields \<noteq> 2 then (Some (SyntaxError errTraceSyntax), t)
         else if CHR ''.'' \<notin> set (fields ! 0) then (Some (SyntaxError errTraceSyntax), t)
         else
           (case Atoi (fields ! 1) of
              Inl err \<Rightarrow> (Some (SyntaxError errTraceSyntax), t)
            | Inr v \<Rightarrow>
                if v \<le> 0 then (Some (SyntaxError ''negative or zero value for level''), t)
                else (None, (fields ! 0, v))))"

section \<open>\<open>V\<close>\<close>

text \<open>
  \<open>fmatch\<close> is \<open>filepath.Match\<close>, false on a malformed pattern. A call site is its program counter;
  \<open>fileof\<close> is the file \<open>runtime.FuncForPC\<close> knows for it.
\<close>

definition pat_match :: "(string \<Rightarrow> string \<Rightarrow> bool) \<Rightarrow> modulePat \<Rightarrow> string \<Rightarrow> bool" where
  "pat_match fmatch m file = (if p_literal m then file = p_pattern m else fmatch (p_pattern m) file)"

definition module_of :: "string \<Rightarrow> string" where
  "module_of file =
     (let file = (if suffix ''.go'' file then take (length file - 3) file else file)
      in base_name file)"

fun first_level :: "(string \<Rightarrow> string \<Rightarrow> bool) \<Rightarrow> string \<Rightarrow> modulePat list \<Rightarrow> 32 word" where
  "first_level fmatch file [] = 0"
| "first_level fmatch file (m # ms) = (if pat_match fmatch m file then p_level m else first_level fmatch file ms)"

definition setV :: "(string \<Rightarrow> string \<Rightarrow> bool) \<Rightarrow> (nat \<Rightarrow> string) \<Rightarrow> nat \<Rightarrow> vstate \<Rightarrow> (32 word \<times> vstate) go" where
  "setV fmatch fileof pc v =
     (let l = first_level fmatch (module_of (fileof pc)) (v_filter v)
      in case v_vmap v of
           None \<Rightarrow> Inl ''assignment to entry in nil map''
         | Some m \<Rightarrow> Inr (l, v\<lparr>v_vmap := Some (m(pc \<mapsto> l))\<rparr>))"

text \<open>\<open>site\<close> is \<open>None\<close> when \<open>runtime.Callers\<close> finds no frame.\<close>

definition V :: "(string \<Rightarrow> string \<Rightarrow> bool) \<Rightarrow> (nat \<Rightarrow> string) \<Rightarrow> nat option \<Rightarrow> 32 word \<Rightarrow> vstate \<Rightarrow> (bool \<times> vstate) go" where
  "V fmatch fileof site level v =
     (if level <=s v_verbosity v then Inr (True, v)
      else if 0 <s v_filterLength v then
        (case site of
           None \<Rightarrow> Inr (False, v)
         | Some pc \<Rightarrow>
             (case (case v_vmap v of None \<Rightarrow> None | Some m \<Rightarrow> m pc) of
                Some l \<Rightarrow> Inr (level <=s l, v)
              | None \<Rightarrow> bindG (setV fmatch fileof pc v) (\<lambda>(l, v). Inr (level <=s l, v))))
      else Inr (False, v))"

section \<open>The contract of a flag\<close>

text \<open>
  \<open>flag.Value\<close>: what \<open>String\<close> prints, \<open>Set\<close> reads back; a \<open>Set\<close> that returns an error leaves the
  value as it was. The second law is a locale of its own: \<open>-log_backtrace_at\<close> breaks it.
\<close>

fun parse_flags :: "(string \<Rightarrow> 's \<Rightarrow> 'e option \<times> 's) \<Rightarrow> string list \<Rightarrow> 's \<Rightarrow> 'e option \<times> 's" where
  "parse_flags setf [] s = (None, s)"
| "parse_flags setf (x # xs) s =
     (case setf x s of (Some e, s) \<Rightarrow> (Some e, s) | (None, s) \<Rightarrow> parse_flags setf xs s)"

lemma parse_flags_snoc:
  "parse_flags setf xs s = (None, s') \<Longrightarrow> parse_flags setf (xs @ [x]) s = setf x s'"
  by (induction xs arbitrary: s) (auto split: prod.splits option.splits)

locale flag_text =
  fixes get :: "'s \<Rightarrow> 'a" and setf :: "string \<Rightarrow> 's \<Rightarrow> 'e option \<times> 's" and showf :: "'a \<Rightarrow> string" and ok :: "'a \<Rightarrow> bool"
  assumes set_showf: "ok a \<Longrightarrow> fst (setf (showf a) s) = None \<and> get (snd (setf (showf a) s)) = a"
begin

lemma last_wins:
  assumes "ok a" "parse_flags setf xs s = (None, s')"
  shows "\<exists>s''. parse_flags setf (xs @ [showf a]) s = (None, s'') \<and> get s'' = a"
  using set_showf [OF assms(1), of s'] unfolding parse_flags_snoc [OF assms(2)]
  by (cases "setf (showf a) s'") simp

lemma saved_and_restored: "ok (get s) \<Longrightarrow> get (snd (setf (showf (get s)) s0)) = get s"
  using set_showf by blast

end

locale flag_value = flag_text +
  assumes error_keeps: "setf x s = (Some e, s') \<Longrightarrow> get s' = get s"
begin

lemma rejected_line: "parse_flags setf xs s = (Some e, s') \<Longrightarrow>
    \<exists>ys y zs s1. xs = ys @ y # zs \<and> parse_flags setf ys s = (None, s1) \<and> get s' = get s1"
proof (induction xs arbitrary: s)
  case (Cons x xs)
  show ?case
  proof (cases "setf x s")
    case (Pair r s1)
    show ?thesis
    proof (cases r)
      case (Some e')
      with Cons.prems Pair have "get s' = get s" using error_keeps by simp
      then show ?thesis by (intro exI [of _ "[]"] exI [of _ x] exI [of _ xs] exI [of _ s]) simp
    next
      case None
      with Cons.prems Pair have "parse_flags setf xs s1 = (Some e, s')" by simp
      from Cons.IH [OF this] obtain ys y zs s2 where
        "xs = ys @ y # zs" "parse_flags setf ys s1 = (None, s2)" "get s' = get s2" by blast
      then show ?thesis using Pair None
        by (intro exI [of _ "x # ys"] exI [of _ y] exI [of _ zs] exI [of _ s2]) simp
    qed
  qed
qed simp

end

section \<open>Round trips\<close>

lemma Atoi_int_dec: "- 9223372036854775808 \<le> i \<Longrightarrow> i \<le> 9223372036854775807 \<Longrightarrow> Atoi (int_dec i) = Inr i"
  unfolding Atoi_def by (rule ParseInt_int_dec) (simp_all add: width_def)

lemma sint32_bounds: "- 2147483648 \<le> sint (w :: 32 word)" "sint (w :: 32 word) \<le> 2147483647"
  using sint_ge [of w] sint_lt [of w] by simp_all

lemma Atoi_sint32 [simp]: "Atoi (int_dec (sint (w :: 32 word))) = Inr (sint w)"
  using sint32_bounds [of w] by (intro Atoi_int_dec) simp_all

lemma int32_sint [simp]: "int32 (sint w) = w"
  by (simp add: int32_def)

lemma sint_int32: "- 2147483648 \<le> i \<Longrightarrow> i \<le> 2147483647 \<Longrightarrow> sint (int32 i) = i"
  by (simp add: int32_def sint_sbintrunc' signed_take_bit_int_eq_self)

lemma int_dec_free: "c \<notin> insert (CHR ''-'') (Collect is_digit) \<Longrightarrow> c \<notin> set (int_dec i)"
  using nat_dec_digits by (auto simp: int_dec_def)

lemma int_dec_not_Nil [simp]: "int_dec i \<noteq> []"
  by (simp add: int_dec_def)

lemma setVState_simps [simp]:
  "v_filter (setVState n fs b v) = (if b then fs else v_filter v)"
  "v_vmap (setVState n fs b v) = (if b then Some Map.empty else v_vmap v)"
  "v_filterLength (setVState n fs b v) = of_nat (length fs)"
  "v_verbosity (setVState n fs b v) = n"
  by (simp_all add: setVState_def Let_def)

definition pat_ok :: "modulePat \<Rightarrow> bool" where
  "pat_ok m \<longleftrightarrow> p_pattern m \<noteq> [] \<and> CHR '','' \<notin> set (p_pattern m) \<and> CHR ''='' \<notin> set (p_pattern m) \<and>
     p_literal m = isLiteral (p_pattern m) \<and> 0 <s p_level m"

definition show_pat :: "modulePat \<Rightarrow> string" where
  "show_pat f = p_pattern f @ CHR ''='' # int_dec (sint (p_level f))"

lemma separators_free: "CHR '','' \<notin> set (int_dec i)" "CHR ''='' \<notin> set (int_dec i)" "CHR '':'' \<notin> set (int_dec i)"
  by (rule int_dec_free, simp add: is_digit_def)+

lemma vmodule_parse_shown:
  "list_all pat_ok fs \<Longrightarrow> vmodule_parse (map show_pat fs) acc = Inr (acc @ fs)"
proof (induction fs arbitrary: acc)
  case (Cons f fs)
  then have f: "pat_ok f" and fs: "list_all pat_ok fs" by simp_all
  have "split_on (CHR ''='') (show_pat f) = [p_pattern f, int_dec (sint (p_level f))]"
    using f separators_free by (simp add: show_pat_def pat_ok_def split_on_append split_on_free)
  moreover have "0 < sint (p_level f)" using f by (simp add: pat_ok_def word_sless_alt)
  moreover have "\<lparr>p_pattern = p_pattern f, p_literal = isLiteral (p_pattern f), p_level = p_level f\<rparr> = f"
    using f by (simp add: pat_ok_def)
  moreover have "show_pat f \<noteq> []" "p_pattern f \<noteq> []" using f by (simp_all add: show_pat_def pat_ok_def)
  ultimately show ?case using Cons.IH [OF fs, of "acc @ [f]"] by simp
qed simp

lemma moduleSpec_Set_String:
  assumes "list_all pat_ok fs"
  shows "moduleSpec_Set (moduleSpec_String fs) v = (None, setVState (v_verbosity v) fs True v)"
proof (cases "fs = []")
  case False
  have "\<forall>x \<in> set (map show_pat fs). CHR '','' \<notin> set x"
    using assms separators_free by (auto simp: list_all_iff pat_ok_def show_pat_def)
  then have "split_on (CHR '','') (moduleSpec_String fs) = map show_pat fs"
    using False by (simp add: moduleSpec_String_def split_join flip: show_pat_def)
  with vmodule_parse_shown [OF assms, of "[]"] show ?thesis by (simp add: moduleSpec_Set_def)
qed (simp add: moduleSpec_Set_def moduleSpec_String_def)

lemma trace_Set_String:
  assumes "CHR '':'' \<notin> set f" "CHR ''.'' \<in> set f" "0 < n" "n \<le> 9223372036854775807"
  shows "trace_Set (trace_String (f, n)) t = (None, (f, n))"
proof -
  have "split_on (CHR '':'') (f @ CHR '':'' # int_dec n) = [f, int_dec n]"
    using assms(1) separators_free by (simp add: split_on_append split_on_free)
  with assms Atoi_int_dec [of n] show ?thesis by (simp add: trace_Set_def trace_String_def Let_def)
qed

lemma severity_Set_String:
  "severity_Set (severity_String w) g = (None, g\<lparr>g_threshold := sint w\<rparr>)"
proof -
  have "\<forall>c \<in> set (ToUpper (int_dec (sint w))). is_digit c \<or> c = CHR ''-''"
  proof
    fix c
    assume "c \<in> set (ToUpper (int_dec (sint w)))"
    then obtain d where d: "d \<in> set (int_dec (sint w))" "c = upper_char d" by (auto simp: ToUpper_def)
    then have "is_digit d \<or> d = CHR ''-''" using int_dec_free [of d "sint w"] by auto
    then show "is_digit c \<or> c = CHR ''-''" using d(2) by (auto simp: upper_char_def is_digit_def Let_def)
  qed
  moreover have "\<forall>n \<in> set severityName. \<exists>c \<in> set n. \<not> (is_digit c \<or> c = CHR ''-'')"
    by (simp add: severityName_def is_digit_def)
  ultimately have "ToUpper (int_dec (sint w)) \<notin> set severityName" by blast
  then show ?thesis by (simp add: severity_Set_def severity_String_def severityByName_def)
qed

interpretation sev: flag_value "\<lambda>g. int32 (g_threshold g)" severity_Set severity_String "\<lambda>w. True"
proof (unfold_locales, goal_cases)
  case (2 x s e s')
  then show ?case by (auto simp: severity_Set_def split: option.splits sum.splits)
qed (simp add: severity_Set_String)

interpretation lev: flag_value v_verbosity Level_Set Level_String "\<lambda>w. True"
  by unfold_locales (auto simp: Level_Set_def Level_String_def split: sum.splits)

interpretation vmod: flag_value v_filter moduleSpec_Set moduleSpec_String "list_all pat_ok"
proof (unfold_locales, goal_cases)
  case (2 x s e s')
  then show ?case by (auto simp: moduleSpec_Set_def split: sum.splits)
qed (simp add: moduleSpec_Set_String)

interpretation trc: flag_text "\<lambda>t. t" trace_Set trace_String
  "\<lambda>(f, n). CHR '':'' \<notin> set f \<and> CHR ''.'' \<in> set f \<and> 0 < n \<and> n \<le> 9223372036854775807"
  by unfold_locales (auto simp: trace_Set_String)

text \<open>
  C30: what a flag prints it reads back, whatever was set before: the text of any \<open>-vmodule\<close> filter
  with positive levels sets exactly this filter (and clears the cache of call sites), the text of a
  level or of a severity sets this value, and the text of a backtrace location sets this location.
\<close>

theorem flags_roundtrip:
  assumes "list_all pat_ok fs" "CHR '':'' \<notin> set f" "CHR ''.'' \<in> set f" "0 < n" "n \<le> 9223372036854775807"
  shows "moduleSpec_Set (moduleSpec_String fs) v = (None, setVState (v_verbosity v) fs True v) \<and>
    Level_Set (Level_String l) v = (None, setVState l (v_filter v) False v) \<and>
    severity_Set (severity_String w) g = (None, g\<lparr>g_threshold := sint w\<rparr>) \<and>
    trace_Set (trace_String (f, n)) t = (None, (f, n))"
  using moduleSpec_Set_String [OF assms(1)] severity_Set_String trace_Set_String [OF assms(2-5)]
  by (simp add: Level_Set_def Level_String_def)

definition sample_filter :: "modulePat list" where
  "sample_filter = [\<lparr>p_pattern = ''recordio'', p_literal = True, p_level = 2\<rparr>,
     \<lparr>p_pattern = ''gfs*'', p_literal = False, p_level = 3\<rparr>]"

lemma sample_filter_ok: "list_all pat_ok sample_filter"
  by (simp add: sample_filter_def pat_ok_def isLiteral_def word_sless_alt)

lemma sample_filter_text: "moduleSpec_String sample_filter = ''recordio=2,gfs*=3''"
  by code_simp

theorem flags_roundtrip_witness:
  "v_filter (snd (moduleSpec_Set ''recordio=2,gfs*=3'' v_start)) = sample_filter \<and>
    snd (trace_Set (trace_String (''d.go'', 234)) ([], 0)) = (''d.go'', 234)"
  using flags_roundtrip [OF sample_filter_ok, of "''d.go''" 234 v_start 1 2 "start_log (start_os [] (\<lambda>_. sample_time))" "([], 0)"]
  by (simp add: sample_filter_text)

text \<open>The unsetting of \<open>-log_backtrace_at\<close> happens, but reports an error.\<close>

lemma trace_unset_reports_error: "trace_Set [] t = (Some (SyntaxError errTraceSyntax), ([], 0))"
  by (simp add: trace_Set_def Let_def)

text \<open>A level beyond \<open>int32\<close> is accepted and wraps around.\<close>

lemma vmodule_level_wraps:
  "map (\<lambda>m. sint (p_level m)) (v_filter (snd (moduleSpec_Set (''a='' @ int_dec 2147483648) v_start))) = [- 2147483648]"
proof -
  have "Atoi (int_dec 2147483648) = Inr 2147483648" by (rule Atoi_int_dec) simp_all
  moreover have "split_on (CHR ''='') (''a='' @ int_dec 2147483648) = [''a'', int_dec 2147483648]"
    "split_on (CHR '','') (''a='' @ int_dec 2147483648) = [''a='' @ int_dec 2147483648]"
    using separators_free by (simp_all add: split_on_free)
  moreover have "sint (int32 2147483648) = - 2147483648" by (simp add: int32_def)
  ultimately show ?thesis by (simp add: moduleSpec_Set_def)
qed

section \<open>\<open>V\<close> and its cache\<close>

text \<open>The states of a program that sets its flags and tests levels in any order.\<close>

inductive v_reach :: "(string \<Rightarrow> string \<Rightarrow> bool) \<Rightarrow> (nat \<Rightarrow> string) \<Rightarrow> vstate \<Rightarrow> bool" for fmatch fileof where
  v_init: "v_reach fmatch fileof v_start"
| v_level: "v_reach fmatch fileof v \<Longrightarrow> v_reach fmatch fileof (snd (Level_Set value v))"
| v_module: "v_reach fmatch fileof v \<Longrightarrow> v_reach fmatch fileof (snd (moduleSpec_Set value v))"
| v_call: "v_reach fmatch fileof v \<Longrightarrow> V fmatch fileof site level v = Inr (r, v') \<Longrightarrow> v_reach fmatch fileof v'"

definition v_inv :: "(string \<Rightarrow> string \<Rightarrow> bool) \<Rightarrow> (nat \<Rightarrow> string) \<Rightarrow> vstate \<Rightarrow> bool" where
  "v_inv fmatch fileof v \<longleftrightarrow> v_filterLength v = of_nat (length (v_filter v)) \<and>
     (case v_vmap v of
        None \<Rightarrow> v_filter v = []
      | Some m \<Rightarrow> \<forall>pc l. m pc = Some l \<longrightarrow> l = first_level fmatch (module_of (fileof pc)) (v_filter v))"

lemma v_inv_Set:
  assumes "v_inv fmatch fileof v"
  shows "v_inv fmatch fileof (snd (Level_Set value v))" "v_inv fmatch fileof (snd (moduleSpec_Set value v))"
  using assms by (auto simp: v_inv_def Level_Set_def moduleSpec_Set_def split: sum.splits option.splits)

definition enabled :: "(string \<Rightarrow> string \<Rightarrow> bool) \<Rightarrow> (nat \<Rightarrow> string) \<Rightarrow> nat option \<Rightarrow> 32 word \<Rightarrow> vstate \<Rightarrow> bool" where
  "enabled fmatch fileof site level v \<longleftrightarrow>
     level <=s v_verbosity v \<or>
     0 <s (of_nat (length (v_filter v)) :: 32 word) \<and>
       (\<exists>pc. site = Some pc \<and> level <=s first_level fmatch (module_of (fileof pc)) (v_filter v))"

lemma V_inv:
  assumes "v_inv fmatch fileof v"
  shows "\<exists>v'. V fmatch fileof site level v = Inr (enabled fmatch fileof site level v, v') \<and>
    v_inv fmatch fileof v' \<and> v_filter v' = v_filter v \<and> v_verbosity v' = v_verbosity v"
proof (cases "\<not> level <=s v_verbosity v \<and> 0 <s v_filterLength v \<and> site \<noteq> None")
  case True
  then obtain pc where pc: "site = Some pc" by auto
  from True assms obtain m where m: "v_vmap v = Some m" by (cases "v_vmap v") (auto simp: v_inv_def)
  show ?thesis
  proof (cases "m pc")
    case None
    with True assms m pc show ?thesis
      by (auto simp: V_def setV_def enabled_def v_inv_def Let_def)
  next
    case (Some l)
    with True assms m pc show ?thesis by (auto simp: V_def enabled_def v_inv_def)
  qed
next
  case False
  with assms show ?thesis by (auto simp: V_def enabled_def v_inv_def split: option.split)
qed

lemma v_reach_inv: "v_reach fmatch fileof v \<Longrightarrow> v_inv fmatch fileof v"
proof (induction rule: v_reach.induct)
  case v_init
  show ?case by (simp add: v_inv_def v_start_def setVState_def)
next
  case (v_call v site level r v')
  with V_inv [of fmatch fileof v site level] show ?case by auto
qed (simp_all add: v_inv_Set)

lemma filterLength_positive:
  assumes "n < 2 ^ 31"
  shows "0 <s (of_nat n :: 32 word) \<longleftrightarrow> 0 < n"
proof -
  have "sint (of_nat n :: 32 word) = int n"
    using assms sint_int32 [of "int n"] by (simp add: int32_def)
  then show ?thesis by (simp add: word_sless_alt)
qed



end
