(* ===== verification/GlogApi.thy ===== *)
theory GlogApi
  imports GlogRun GlogFlags
begin

text \<open>
  The functions that the program calls (\<open>glog.go\<close>: \<open>Info\<close> to \<open>Exitf\<close>, those of \<open>Verbose\<close>) and the
  bridge from Go's package \<open>log\<close>. A function takes the stack of its caller, whose frame comes first,
  pushes its own frame, and passes the text that \<open>fmt\<close> made of its arguments.
\<close>

section \<open>The functions\<close>

type_synonym api = "setting \<Rightarrow> frames \<Rightarrow> string \<Rightarrow> glog \<Rightarrow> res"

definition Info :: api where "Info cf st args g = l_print cf 0 (own # st) args g"
definition InfoDepth :: "nat \<Rightarrow> api" where "InfoDepth depth cf st args g = l_printDepth cf 0 depth (own # st) args g"
definition Infoln :: api where "Infoln cf st args g = l_println cf 0 (own # st) args g"
definition Infof :: api where "Infof cf st args g = l_printf cf 0 (own # st) args g"
definition Warning :: api where "Warning cf st args g = l_print cf 1 (own # st) args g"
definition WarningDepth :: "nat \<Rightarrow> api" where "WarningDepth depth cf st args g = l_printDepth cf 1 depth (own # st) args g"
definition Warningln :: api where "Warningln cf st args g = l_println cf 1 (own # st) args g"
definition Warningf :: api where "Warningf cf st args g = l_printf cf 1 (own # st) args g"
definition Error :: api where "Error cf st args g = l_print cf 2 (own # st) args g"
definition ErrorDepth :: "nat \<Rightarrow> api" where "ErrorDepth depth cf st args g = l_printDepth cf 2 depth (own # st) args g"
definition Errorln :: api where "Errorln cf st args g = l_println cf 2 (own # st) args g"
definition Errorf :: api where "Errorf cf st args g = l_printf cf 2 (own # st) args g"
definition Fatal :: api where "Fatal cf st args g = l_print cf 3 (own # st) args g"
definition FatalDepth :: "nat \<Rightarrow> api" where "FatalDepth depth cf st args g = l_printDepth cf 3 depth (own # st) args g"
definition Fatalln :: api where "Fatalln cf st args g = l_println cf 3 (own # st) args g"
definition Fatalf :: api where "Fatalf cf st args g = l_printf cf 3 (own # st) args g"

text \<open>The functions of \<open>Exit\<close> set \<open>fatalNoStacks\<close> first.\<close>

definition ExitLog :: api where
  "ExitLog cf st args g = l_print cf 3 (own # st) args (g\<lparr>g_noStacks := True\<rparr>)"
definition ExitDepth :: "nat \<Rightarrow> api" where
  "ExitDepth depth cf st args g = l_printDepth cf 3 depth (own # st) args (g\<lparr>g_noStacks := True\<rparr>)"
definition Exitln :: api where
  "Exitln cf st args g = l_println cf 3 (own # st) args (g\<lparr>g_noStacks := True\<rparr>)"
definition Exitf :: api where
  "Exitf cf st args g = l_printf cf 3 (own # st) args (g\<lparr>g_noStacks := True\<rparr>)"

definition Verbose_Info :: "bool \<Rightarrow> api" where
  "Verbose_Info v cf st args g = (if v then l_print cf 0 (own # st) args g else Ok g)"
definition Verbose_Infoln :: "bool \<Rightarrow> api" where
  "Verbose_Infoln v cf st args g = (if v then l_println cf 0 (own # st) args g else Ok g)"
definition Verbose_Infof :: "bool \<Rightarrow> api" where
  "Verbose_Infof v cf st args g = (if v then l_printf cf 0 (own # st) args g else Ok g)"

lemmas api_defs = Info_def InfoDepth_def Infoln_def Infof_def Warning_def WarningDepth_def Warningln_def Warningf_def
  Error_def ErrorDepth_def Errorln_def Errorf_def Fatal_def FatalDepth_def Fatalln_def Fatalf_def
  ExitLog_def ExitDepth_def Exitln_def Exitf_def Verbose_Info_def Verbose_Infoln_def Verbose_Infof_def

lemmas print_defs = l_print_def l_printDepth_def l_println_def l_printf_def

section \<open>The bridge from package \<open>log\<close>\<close>

definition logBridge_Write :: "setting \<Rightarrow> nat \<Rightarrow> string \<Rightarrow> glog \<Rightarrow> nat \<times> res" where
  "logBridge_Write cf lb b g =
     (let parts = SplitN 3 (CHR '':'') b;
          (file, line, txt) =
            (if length parts \<noteq> 3 \<or> length (parts ! 0) < 1 \<or> length (parts ! 2) < 1
             then (''???'', 1, ''bad log format: '' @ b)
             else
               (case Atoi (parts ! 1) of
                  Inl err \<Rightarrow> (parts ! 0, 1, ''bad line number: '' @ b)
                | Inr n \<Rightarrow> (parts ! 0, n, drop 1 (parts ! 2))))
      in (length b, printWithFileLine cf lb file line True txt g))"

text \<open>Package \<open>log\<close>: its flags and the writer it prints to; \<open>quote\<close> is the verb \<open>%q\<close> of \<open>fmt\<close>.\<close>

datatype log_flags = LstdFlags | Lshortfile

datatype log_out = LogStderr | LogBridge nat

definition CopyStandardLogTo :: "(string \<Rightarrow> string) \<Rightarrow> string \<Rightarrow> log_flags \<times> log_out \<Rightarrow> (log_flags \<times> log_out) go" where
  "CopyStandardLogTo quote name std =
     (case severityByName name of
        None \<Rightarrow> Inl (''log.CopyStandardLogTo('' @ quote name @ ''): unrecognized severity name'')
      | Some sev \<Rightarrow> Inr (Lshortfile, LogBridge sev))"

section \<open>What a call puts out\<close>

definition line_end :: "string \<Rightarrow> string" where
  "line_end t = (if t \<noteq> [] \<and> last t = CHR 0x0A then t else t @ [CHR 0x0A])"

text \<open>The line of a message; nothing more unless \<open>-log_backtrace_at\<close> is set.\<close>

definition log_text :: "setting \<Rightarrow> glog \<Rightarrow> nat \<Rightarrow> (string \<times> int) option \<Rightarrow> string \<Rightarrow> string" where
  "log_text cf g s place t =
     header_text (o_timeNow (g_os g) (o_calls (g_os g))) (e_pid cf) (int s) (fst (caller_place place)) (snd (caller_place place)) @ t"

definition call_ok :: "setting \<Rightarrow> glog \<Rightarrow> (string \<times> int) option \<Rightarrow> bool" where
  "call_ok cf g place \<longleftrightarrow> clock_ok (o_timeNow (g_os g) (o_calls (g_os g))) \<and> 0 < e_pid cf \<and> e_pid cf < 10000000 \<and>
     \<not> trace_isSet (g_trace g) \<and> 0 \<le> snd (caller_place place) \<and> snd (caller_place place) < 9223372036854775808"

lemma end_line_header: "end_line (header_text now pid s file line @ t) = header_text now pid s file line @ line_end t"
  by (simp add: end_line_def line_end_def header_text_def)

lemma formatted_logs:
  assumes "logs cf (start_log os) ms g" "s \<le> 3" "call_ok cf g place"
    "formatHeader (o_timeNow (g_os g) (o_calls (g_os g))) (e_pid cf) (int s) (fst (caller_place place))
       (snd (caller_place place)) (g_pool g) = Inr (b, pool)"
    "l_output cf s (b\<lparr>b_bytes := f (b_bytes b)\<rparr>) file line also (g\<lparr>g_os := snd (timeNow (g_os g)), g_pool := pool\<rparr>) = Ok g'"
    "\<And>h. h = log_text cf g s place [] \<Longrightarrow> f h = h @ t"
  shows "logs cf (start_log os) (ms @ [(s, log_text cf g s place t)]) g'"
proof -
  let ?now = "o_timeNow (g_os g) (o_calls (g_os g))"
  have pool: "pool_ok (g_pool g)" using logs_inv [OF assms(1)] by (simp add: log_inv_def)
  have h: "b_bytes b = log_text cf g s place []" "length (b_tmp b) = 64" "pool = snd (getBuffer (g_pool g))"
    using formatHeader_text [of ?now "e_pid cf" "int s" "snd (caller_place place)" "g_pool g" "fst (caller_place place)"]
      assms(2-4) pool by (simp_all add: returns_def call_ok_def log_text_def)
  let ?g = "g\<lparr>g_os := snd (timeNow (g_os g)), g_pool := pool\<rparr>"
  have "logs cf (start_log os) ms ?g"
    using h(3) by (intro logs_header [OF assms(1), of ?now _ "fst (getBuffer (g_pool g))"]) (simp_all add: timeNow_def)
  moreover have "emitted cf ?g (b\<lparr>b_bytes := f (b_bytes b)\<rparr>) file line = log_text cf g s place t"
    using assms(3,6) h(1) by (simp add: emitted_def call_ok_def log_text_def)
  ultimately show ?thesis using logs_output [OF _ assms(2) _ assms(5)] h(2) by simp
qed

lemma with_header_logs:
  assumes "logs cf (start_log os) ms g" "s \<le> 3" "call_ok cf g (Caller (3 + depth) (own # st))"
    "with_header cf s depth st f g = Ok g'" "\<And>h. h = log_text cf g s (Caller (3 + depth) (own # st)) [] \<Longrightarrow> f h = h @ t"
  shows "logs cf (start_log os) (ms @ [(s, log_text cf g s (Caller (3 + depth) (own # st)) t)]) g'"
proof -
  let ?p = "Caller (3 + depth) (own # st)"
  from assms(4) obtain b pool where
    "formatHeader (o_timeNow (g_os g) (o_calls (g_os g))) (e_pid cf) (int s) (fst (caller_place ?p))
       (snd (caller_place ?p)) (g_pool g) = Inr (b, pool)"
    "l_output cf s (b\<lparr>b_bytes := f (b_bytes b)\<rparr>) (fst (caller_place ?p)) (snd (caller_place ?p)) False
       (g\<lparr>g_os := snd (timeNow (g_os g)), g_pool := pool\<rparr>) = Ok g'"
    by (auto simp: with_header_def timeNow_def header_def Let_def mapG_def split: prod.splits sum.splits)
  from formatted_logs [OF assms(1-3) this assms(5)] show ?thesis .
qed

text \<open>The four ways to print, each at the depth of its own frames.\<close>

lemma Caller_skip: "Caller (Suc k) (f # st) = Caller k st" "Caller (3 + d) (f1 # f2 # f3 # st) = Caller d st"
  by (simp_all add: Caller_def)

lemma text_ends: "h = log_text cf g s place [] \<Longrightarrow> end_line (h @ t) = h @ line_end t"
  by (simp add: log_text_def end_line_header)

lemma l_printDepth_logs:
  assumes "logs cf (start_log os) ms g" "s \<le> 3" "call_ok cf g (Caller depth st)"
    "l_printDepth cf s depth (own # st) msg g = Ok g'"
  shows "logs cf (start_log os) (ms @ [(s, log_text cf g s (Caller depth st) (line_end msg))]) g'"
  using with_header_logs [OF assms(1,2), of depth "own # own # st" "\<lambda>h. end_line (h @ msg)" g' "line_end msg"] assms(3,4)
  by (simp add: l_printDepth_def Caller_skip text_ends)

lemma l_print_logs:
  assumes "logs cf (start_log os) ms g" "s \<le> 3" "call_ok cf g (Caller 0 st)" "l_print cf s (own # st) msg g = Ok g'"
  shows "logs cf (start_log os) (ms @ [(s, log_text cf g s (Caller 0 st) (line_end msg))]) g'"
  using l_printDepth_logs [OF assms(1,2), of 1 "own # st" msg g'] assms(3,4)
  by (simp add: l_print_def Caller_skip)

lemma l_println_logs:
  assumes "logs cf (start_log os) ms g" "s \<le> 3" "call_ok cf g (Caller 0 st)" "l_println cf s (own # st) msg g = Ok g'"
  shows "logs cf (start_log os) (ms @ [(s, log_text cf g s (Caller 0 st) (msg @ [CHR 0x0A]))]) g'"
  using with_header_logs [OF assms(1,2), of 0 "own # own # st" "\<lambda>h. h @ msg @ [CHR 0x0A]" g' "msg @ [CHR 0x0A]"] assms(3,4)
    Caller_skip(2) [of 0 own own own st]
  by (simp add: l_println_def)

lemma l_printf_logs:
  assumes "logs cf (start_log os) ms g" "s \<le> 3" "call_ok cf g (Caller 0 st)" "l_printf cf s (own # st) msg g = Ok g'"
  shows "logs cf (start_log os) (ms @ [(s, log_text cf g s (Caller 0 st) (line_end msg))]) g'"
  using with_header_logs [OF assms(1,2), of 0 "own # own # st" "\<lambda>h. end_line (h @ msg)" g' "line_end msg"] assms(3,4)
    Caller_skip(2) [of 0 own own own st]
  by (simp add: l_printf_def text_ends)

lemmas print_logs = l_print_logs l_printDepth_logs l_println_logs l_printf_logs

text \<open>Each function with its severity, the number of frames it skips and the shape of its text.\<close>

definition api_table :: "nat \<Rightarrow> (nat \<times> nat \<times> (string \<Rightarrow> string) \<times> api) list" where
  "api_table d =
     [(0, 0, line_end, Info), (0, d, line_end, InfoDepth d), (0, 0, \<lambda>t. t @ [CHR 0x0A], Infoln), (0, 0, line_end, Infof),
      (1, 0, line_end, Warning), (1, d, line_end, WarningDepth d), (1, 0, \<lambda>t. t @ [CHR 0x0A], Warningln), (1, 0, line_end, Warningf),
      (2, 0, line_end, Error), (2, d, line_end, ErrorDepth d), (2, 0, \<lambda>t. t @ [CHR 0x0A], Errorln), (2, 0, line_end, Errorf),
      (0, 0, line_end, Verbose_Info True), (0, 0, \<lambda>t. t @ [CHR 0x0A], Verbose_Infoln True), (0, 0, line_end, Verbose_Infof True)]"

text \<open>
  C27: every message is attributed to the place that logged it. Whichever of the functions is called,
  after any run on any disk, when it returns, exactly one message was put out, with the severity of
  the function: the header with the file and the line of the caller (of the frame \<open>depth\<close> above it
  for the \<open>Depth\<close> functions, \<open>???:1\<close> when there is none), then the text, ended by one newline.
\<close>

theorem messages_attributed:
  assumes "logs cf (start_log os) ms g" "(s, k, shape, call) \<in> set (api_table d)" "call_ok cf g (Caller k st)"
    "call cf st msg g = Ok g'"
  shows "logs cf (start_log os) (ms @ [(s, log_text cf g s (Caller k st) (shape msg))]) g'"
  using assms(2-4) unfolding api_table_def
  by (auto simp: api_defs intro: print_logs [OF assms(1)])

text \<open>The functions that end the process.\<close>

lemma with_header_ends:
  assumes "log_inv g" "\<not> g_exitfunc g" "s \<le> 3" "call_ok cf g (Caller (3 + depth) (own # st))"
  shows "\<exists>g1. g_noStacks g1 = g_noStacks g \<and> ends_well s g1 (with_header cf s depth st f g)"
proof -
  let ?p = "Caller (3 + depth) (own # st)" and ?now = "o_timeNow (g_os g) (o_calls (g_os g))"
  have pool: "pool_ok (g_pool g)" using assms(1) by (simp add: log_inv_def)
  then obtain b pool where h: "formatHeader ?now (e_pid cf) (int s) (fst (caller_place ?p)) (snd (caller_place ?p)) (g_pool g) =
      Inr (b, pool)" "length (b_tmp b) = 64" "pool = snd (getBuffer (g_pool g))"
    using formatHeader_text [of ?now "e_pid cf" "int s" "snd (caller_place ?p)" "g_pool g" "fst (caller_place ?p)"] assms(3,4)
    by (auto simp: returns_def call_ok_def)
  let ?g = "g\<lparr>g_os := snd (timeNow (g_os g)), g_pool := pool\<rparr>"
  have "log_inv ?g" using log_inv_header [OF assms(1), of _ pool] h(3) by (metis prod.collapse)
  then have "ends_well s ?g (l_output cf s (b\<lparr>b_bytes := f (b_bytes b)\<rparr>) (fst (caller_place ?p)) (snd (caller_place ?p)) False ?g)"
    using assms(2,3) h(2) by (intro l_output_ends_well) simp_all
  moreover have "with_header cf s depth st f g =
      l_output cf s (b\<lparr>b_bytes := f (b_bytes b)\<rparr>) (fst (caller_place ?p)) (snd (caller_place ?p)) False ?g"
    using h(1) by (cases "caller_place ?p") (simp add: with_header_def header_def timeNow_def)
  ultimately show ?thesis by (intro exI [of _ ?g]) simp
qed

lemma print_ends:
  assumes "log_inv g" "\<not> g_exitfunc g" "s \<le> 3"
  shows
    "call_ok cf g (Caller 0 st) \<Longrightarrow> \<exists>g1. g_noStacks g1 = g_noStacks g \<and> ends_well s g1 (l_print cf s (own # st) msg g)"
    "call_ok cf g (Caller d st) \<Longrightarrow> \<exists>g1. g_noStacks g1 = g_noStacks g \<and> ends_well s g1 (l_printDepth cf s d (own # st) msg g)"
    "call_ok cf g (Caller 0 st) \<Longrightarrow> \<exists>g1. g_noStacks g1 = g_noStacks g \<and> ends_well s g1 (l_println cf s (own # st) msg g)"
    "call_ok cf g (Caller 0 st) \<Longrightarrow> \<exists>g1. g_noStacks g1 = g_noStacks g \<and> ends_well s g1 (l_printf cf s (own # st) msg g)"
  using with_header_ends [OF assms, of cf 1 "own # own # own # st" "\<lambda>h. end_line (h @ msg)"]
    with_header_ends [OF assms, of cf d "own # own # st" "\<lambda>h. end_line (h @ msg)"]
    with_header_ends [OF assms, of cf 0 "own # own # st" "\<lambda>h. end_line (h @ msg)"]
    with_header_ends [OF assms, of cf 0 "own # own # st" "\<lambda>h. h @ msg @ [CHR 0x0A]"] Caller_skip(2) [of 0 own own own st]
    Caller_skip(2) [of 1 own own own "own # st"] Caller_skip(1) [of 0 own st]
  by (simp_all add: print_defs Caller_skip)

definition exits :: "int \<Rightarrow> res \<Rightarrow> bool" where
  "exits code r \<longleftrightarrow> (\<exists>c g'. r = Exit c g' \<and> (c = code \<or> c = 2))"

definition fatal_calls :: "nat \<Rightarrow> (nat \<times> int \<times> api) list" where
  "fatal_calls d = [(0, 255, Fatal), (d, 255, FatalDepth d), (0, 255, Fatalln), (0, 255, Fatalf),
     (0, 1, ExitLog), (d, 1, ExitDepth d), (0, 1, Exitln), (0, 1, Exitf)]"

text \<open>
  C28: the functions of \<open>Fatal\<close> and \<open>Exit\<close> never return and never panic, after any run and on any
  disk: the process exits with 255, with 1 for the \<open>Exit\<close> functions, or with 2 when the log cannot
  be written.
\<close>

theorem fatal_never_returns:
  assumes "logs cf (start_log os) ms g" "(k, code, call) \<in> set (fatal_calls d)" "call_ok cf g (Caller k st)"
  shows "\<exists>c g'. call cf st msg g = Exit c g' \<and> (c = code \<or> c = 2)"
proof -
  have g: "log_inv g" "\<not> g_exitfunc g" "\<not> g_noStacks g" using logs_inv [OF assms(1)] by simp_all
  let ?g = "g\<lparr>g_noStacks := True\<rparr>"
  have g': "log_inv ?g" "\<not> g_exitfunc ?g" "g_noStacks ?g" using g by (simp_all add: log_inv_def)
  have c: "call_ok cf ?g p = call_ok cf g p" for p by (simp add: call_ok_def)
  have f: "exits 255 r" if "\<exists>g1. g_noStacks g1 = g_noStacks g \<and> ends_well 3 g1 r" for r
    using that g(3) by (cases r) (auto simp: exits_def)
  have e: "exits 1 r" if "\<exists>g1. g_noStacks g1 = g_noStacks ?g \<and> ends_well 3 g1 r" for r
    using that by (cases r) (auto simp: exits_def)
  note F = print_ends [OF g(1,2), of 3, THEN f] and E = print_ends [OF g'(1,2), of 3 cf, unfolded c, THEN e]
  have "exits code (call cf st msg g)" using assms(2,3) unfolding fatal_calls_def
    by (auto simp: api_defs c intro: F E)
  then show ?thesis by (simp add: exits_def)
qed

section \<open>A message of the bridge\<close>

lemma SplitN_three:
  "c \<notin> set a \<Longrightarrow> c \<notin> set b \<Longrightarrow> SplitN 3 c (a @ c # b @ c # r) = [a, b, r]"
proof -
  have i: "find_index c (x @ c # y) = Some (length x)" if "c \<notin> set x" for x y
    using that by (induction x) auto
  assume "c \<notin> set a" "c \<notin> set b"
  then show ?thesis by (simp add: eval_nat_numeral i)
qed

text \<open>
  What goes through Go's package \<open>log\<close> arrives in the right shape: of a line
  \<open>file:line: message\<close> that the bridge is given, with a file name without path, the message is put
  out once, with the severity of the bridge, under this file and this line; the bridge reports all
  bytes as written.
\<close>

theorem std_log_bridged:
  assumes "logs cf (start_log os) ms g" "s \<le> 3" "call_ok cf g (Some (file, n))" "file \<noteq> []"
    "CHR '':'' \<notin> set file" "CHR ''/'' \<notin> set file" "0 \<le> n"
    "logBridge_Write cf s (file @ '':'' @ int_dec n @ '': '' @ msg) g = (w, Ok g')"
  shows "w = length file + length (int_dec n) + length msg + 3 \<and>
    logs cf (start_log os) (ms @ [(s, log_text cf g s (Some (file, n)) (line_end msg))]) g'"
proof -
  let ?b = "file @ '':'' @ int_dec n @ '': '' @ msg"
  have "SplitN 3 (CHR '':'') ?b = [file, int_dec n, CHR '' '' # msg]"
    using SplitN_three [OF assms(5) separators_free(3), of n "CHR '' '' # msg"] by simp
  moreover have place: "caller_place (Some (file, n)) = (file, n)"
  proof -
    have "base_name file = file"
      unfolding base_name_def using assms(6) by (subst takeWhile_eq_all_conv [THEN iffD2]) auto
    then show ?thesis by (simp add: caller_place_def)
  qed
  moreover have "Atoi (int_dec n) = Inr n"
    using assms(3,7) place by (intro Atoi_int_dec) (simp_all add: call_ok_def)
  ultimately have p: "printWithFileLine cf s file n True msg g = Ok g'" "w = length ?b"
    using assms(4,8) by (auto simp: logBridge_Write_def Let_def)
  obtain b pool where h: "formatHeader (o_timeNow (g_os g) (o_calls (g_os g))) (e_pid cf) (int s) file n (g_pool g) = Inr (b, pool)"
    "l_output cf s (b\<lparr>b_bytes := end_line (b_bytes b @ msg)\<rparr>) file n True
       (g\<lparr>g_os := snd (timeNow (g_os g)), g_pool := pool\<rparr>) = Ok g'"
    using p(1) by (auto simp: printWithFileLine_def timeNow_def split: sum.splits)
  have "logs cf (start_log os) (ms @ [(s, log_text cf g s (Some (file, n)) (line_end msg))]) g'"
    by (rule formatted_logs [OF assms(1-3), where f = "\<lambda>h. end_line (h @ msg)"])
      (use h place text_ends in simp_all)
  with p(2) show ?thesis by simp
qed

section \<open>Instances\<close>

lemma calm_call:
  assumes "names_ok cf" "calm os" "inj (\<lambda>k. stamp (o_now os k))" "logs cf (start_log os) ms g" "s < 3" "call_ok cf g place"
  shows "\<exists>b pool. formatHeader (o_timeNow (g_os g) (o_calls (g_os g))) (e_pid cf) (int s) (fst (caller_place place))
       (snd (caller_place place)) (g_pool g) = Inr (b, pool) \<and>
     (\<forall>t file line also. \<exists>g'. l_output cf s (b\<lparr>b_bytes := t\<rparr>) file line also
       (g\<lparr>g_os := snd (timeNow (g_os g)), g_pool := pool\<rparr>) = Ok g')"
proof -
  let ?now = "o_timeNow (g_os g) (o_calls (g_os g))"
  have pool: "pool_ok (g_pool g)" using logs_inv [OF assms(4)] by (simp add: log_inv_def)
  then obtain b pool where h: "formatHeader ?now (e_pid cf) (int s) (fst (caller_place place)) (snd (caller_place place)) (g_pool g) =
      Inr (b, pool)" "length (b_tmp b) = 64" "pool = snd (getBuffer (g_pool g))"
    using formatHeader_text [of ?now "e_pid cf" "int s" "snd (caller_place place)" "g_pool g" "fst (caller_place place)"]
      assms(5,6) by (auto simp: returns_def call_ok_def)
  let ?g = "g\<lparr>g_os := snd (timeNow (g_os g)), g_pool := pool\<rparr>"
  have "logs cf (start_log os) ms ?g"
    using h(3) by (intro logs_header [OF assms(4), of ?now _ "fst (getBuffer (g_pool g))"]) (simp_all add: timeNow_def)
  from logs_keep [OF this assms(1-3)] obtain ns where l: "logged cf ns ?g (\<lambda>s. stream s ms)" "running ?g" by blast
  have "\<exists>g'. l_output cf s (b\<lparr>b_bytes := t\<rparr>) file line also ?g = Ok g'" for t "file" line "also"
    using l_output_logged [OF l(1) assms(1,5) l(2), of "b\<lparr>b_bytes := t\<rparr>" "file" line "also"] h(2) by auto
  with h(1) show ?thesis by blast
qed

lemma sample_call_ok:
  "call_ok sample_setting (start_log sample_os) (Some (''d.go'', 23))"
  "call_ok sample_setting (start_log sample_os) (Caller 0 [(''/src/d.go'', 23)])"
  by (simp_all add: call_ok_def sample_setting_def start_log_def sample_os_def start_os_def clock_ok_def sample_time_def
      trace_isSet_def caller_place_def Caller_def)

lemmas sample_call = calm_call [OF sample_log_ok logs_start]

theorem messages_attributed_witness:
  "\<exists>g'. Error sample_setting [(''/src/d.go'', 23)] ''boom'' (start_log sample_os) = Ok g' \<and>
     logs sample_setting (start_log sample_os)
       [(2, ''E0704 09:05:59.001234      42 d.go:23] boom'' @ [CHR 0x0A])] g'"
proof -
  have c: "Caller 4 (own # own # own # own # p) = Caller 0 p" for p by (simp add: Caller_def)
  obtain f n where p: "caller_place (Caller 0 [(''/src/d.go'', 23)]) = (f, n)" by fastforce
  from sample_call [OF _ sample_call_ok(2), of 2] obtain g' where
    g: "Error sample_setting [(''/src/d.go'', 23)] ''boom'' (start_log sample_os) = Ok g'"
    by (clarsimp simp: Error_def print_defs with_header_def header_def timeNow_def c p) blast
  have t: "(2, 0, line_end, Error) \<in> set (api_table 0)" by (simp add: api_table_def)
  have "log_text sample_setting (start_log sample_os) 2 (Caller 0 [(''/src/d.go'', 23)]) (line_end ''boom'') =
      header_text (sample_time\<lparr>t_year := 2000\<rparr>) 42 2 ''d.go'' 23 @ ''boom'' @ [CHR 0x0A]"
    by (simp add: log_text_def line_end_def sample_setting_def start_log_def sample_os_def start_os_def caller_place_def
        Caller_def base_name_def)
  also have "\<dots> = header_text sample_time 42 2 ''d.go'' 23 @ ''boom'' @ [CHR 0x0A]"
    by (simp add: header_text_def)
  finally show ?thesis
    using messages_attributed [OF logs_start t sample_call_ok(2) g] g by (simp add: sample_header)
qed

theorem fatal_never_returns_witness:
  "\<exists>c g'. Exitf sample_setting [(''/src/d.go'', 23)] ''bye'' (start_log sample_os) = Exit c g' \<and> c \<in> {1, 2}"
  using fatal_never_returns [OF logs_start _ sample_call_ok(2), of 1 Exitf 0 "''bye''"]
  by (auto simp: fatal_calls_def)

theorem std_log_bridged_witness:
  "\<exists>g'. logBridge_Write sample_setting 1 (''d.go'' @ '':'' @ int_dec 23 @ '': '' @ ''hello'') (start_log sample_os) = (14, Ok g')"
proof -
  let ?b = "''d.go'' @ '':'' @ int_dec 23 @ '': '' @ ''hello''"
  have n: "int_dec 23 = ''23''" by code_simp
  have "Atoi ''23'' = Inr 23" by code_simp
  moreover have "SplitN 3 (CHR '':'') (''d.go'' @ '':'' @ ''23'' @ '': '' @ ''hello'') = [''d.go'', ''23'', '' hello'']"
    using SplitN_three [of "CHR '':''" "''d.go''" "''23''" "'' hello''"] by simp
  ultimately obtain g' where g: "logBridge_Write sample_setting 1 ?b (start_log sample_os) = (length ?b, Ok g')"
    using sample_call [OF _ sample_call_ok(1), of 1]
    by (clarsimp simp: logBridge_Write_def printWithFileLine_def timeNow_def n caller_place_def base_name_def Let_def) blast
  from std_log_bridged [OF logs_start _ sample_call_ok(1) _ _ _ _ g] g show ?thesis by (auto simp: n)
qed

end
