(* ===== verification/NetContext.thy ===== *)
theory NetContext
  imports GoStrings
begin

text \<open>
  \<open>golang.org/x/net/context\<close>, the contexts that carry cancelation and request-scoped values (gin's
  \<open>Context\<close> is one of its implementations). A context's immutable part is a value of the datatype
  \<open>cxt\<close>; what changes, its error, its channel and its children, is in a store that its address
  points into. A call holds the locks it needs until it is done: calls are steps.
\<close>

section \<open>Contexts and their store\<close>

type_synonym addr = nat

text \<open>
  \<open>Other k\<close> is a context of another package. \<open>CancelCtx a p\<close> and \<open>TimerCtx a d p\<close> are pointers: the
  address, the deadline and the parent (the embedded \<open>Context\<close>). The pointer \<open>&c.cancelCtx\<close> to the
  inside of \<open>TimerCtx a d p\<close> is \<open>CancelCtx a p\<close>, a different interface value.
\<close>

datatype 'v cxt =
    Background
  | TODO
  | Other nat
  | CancelCtx addr "'v cxt"
  | TimerCtx addr int "'v cxt"
  | ValueCtx "'v cxt" string 'v

datatype ctx_err = Canceled | DeadlineExceeded | OtherErr nat

text \<open>
  \<open>k_self\<close> is the object itself, \<open>k_closed\<close> says that its channel \<open>done\<close> is closed, \<open>k_timer\<close> that its
  timer runs. The map \<open>children\<close> is the list of its keys.
\<close>

record 'v core =
  k_self :: "'v cxt"
  k_err :: "ctx_err option"
  k_closed :: bool
  k_children :: "'v cxt list"
  k_timer :: bool

text \<open>
  What the program knows of a context of another package: \<open>None\<close> when its \<open>Done()\<close> is nil, otherwise
  its \<open>Err()\<close>; its deadline and its values are in \<open>x_deadline\<close> and \<open>x_value\<close>.
\<close>

record 'v store =
  x_cores :: "'v core list"
  x_others :: "nat \<Rightarrow> ctx_err option option"
  x_deadline :: "nat \<Rightarrow> int option"
  x_value :: "nat \<Rightarrow> string \<Rightarrow> 'v option"
  x_watchers :: "('v cxt \<times> 'v cxt) list"
  x_now :: int

abbreviation core_at :: "'v store \<Rightarrow> addr \<Rightarrow> 'v core" where
  "core_at st a \<equiv> x_cores st ! a"

abbreviation set_core :: "addr \<Rightarrow> 'v core \<Rightarrow> 'v store \<Rightarrow> 'v store" where
  "set_core a k st \<equiv> st\<lparr>x_cores := (x_cores st)[a := k]\<rparr>"

section \<open>The methods of a context\<close>

datatype chan = OwnChan addr | OtherChan nat

fun Done :: "'v store \<Rightarrow> 'v cxt \<Rightarrow> chan option" where
  "Done st Background = None"
| "Done st TODO = None"
| "Done st (Other k) = (if x_others st k = None then None else Some (OtherChan k))"
| "Done st (CancelCtx a p) = Some (OwnChan a)"
| "Done st (TimerCtx a d p) = Some (OwnChan a)"
| "Done st (ValueCtx p key val) = Done st p"

fun Err :: "'v store \<Rightarrow> 'v cxt \<Rightarrow> ctx_err option" where
  "Err st Background = None"
| "Err st TODO = None"
| "Err st (Other k) = (case x_others st k of None \<Rightarrow> None | Some e \<Rightarrow> e)"
| "Err st (CancelCtx a p) = k_err (core_at st a)"
| "Err st (TimerCtx a d p) = k_err (core_at st a)"
| "Err st (ValueCtx p key val) = Err st p"

fun Deadline :: "'v store \<Rightarrow> 'v cxt \<Rightarrow> int option" where
  "Deadline st Background = None"
| "Deadline st TODO = None"
| "Deadline st (Other k) = x_deadline st k"
| "Deadline st (CancelCtx a p) = Deadline st p"
| "Deadline st (TimerCtx a d p) = Some d"
| "Deadline st (ValueCtx p key val) = Deadline st p"

fun Value :: "'v store \<Rightarrow> 'v cxt \<Rightarrow> string \<Rightarrow> 'v option" where
  "Value st Background key = None"
| "Value st TODO key = None"
| "Value st (Other k) key = x_value st k key"
| "Value st (CancelCtx a p) key = Value st p key"
| "Value st (TimerCtx a d p) key = Value st p key"
| "Value st (ValueCtx p k v) key = (if k = key then Some v else Value st p key)"

text \<open>\<open>String\<close>; the verbs of \<open>fmt\<close> for times, values and other contexts are parameters.\<close>

fun ctx_String :: "(int \<Rightarrow> string) \<Rightarrow> ('v \<Rightarrow> string) \<Rightarrow> (nat \<Rightarrow> string) \<Rightarrow> 'v store \<Rightarrow> 'v cxt \<Rightarrow> string" where
  "ctx_String ft fv fo st Background = ''context.Background''"
| "ctx_String ft fv fo st TODO = ''context.TODO''"
| "ctx_String ft fv fo st (Other k) = fo k"
| "ctx_String ft fv fo st (CancelCtx a p) = ctx_String ft fv fo st p @ ''.WithCancel''"
| "ctx_String ft fv fo st (TimerCtx a d p) =
     ctx_String ft fv fo st p @ ''.WithDeadline('' @ ft d @ '' ['' @ ft (d - x_now st) @ ''])''"
| "ctx_String ft fv fo st (ValueCtx p k v) =
     ctx_String ft fv fo st p @ ''.WithValue('' @ k @ '', '' @ fv v @ '')''"

text \<open>The nearest cancelable context of this package, itself or above.\<close>

fun parentCancelCtx :: "'v cxt \<Rightarrow> addr option" where
  "parentCancelCtx (CancelCtx a p) = Some a"
| "parentCancelCtx (TimerCtx a d p) = Some a"
| "parentCancelCtx (ValueCtx p key val) = parentCancelCtx p"
| "parentCancelCtx _ = None"

section \<open>Cancelation\<close>

text \<open>
  The body of \<open>cancelCtx.cancel\<close> for the object at \<open>a\<close> with parent \<open>p\<close>; \<open>sub\<close> cancels a child. The
  order in which Go visits the children is not specified: it is the parameter \<open>ord\<close>.
\<close>

fun each_child :: "('v cxt \<Rightarrow> 'v store \<Rightarrow> 'v store go) \<Rightarrow> 'v cxt list \<Rightarrow> 'v store \<Rightarrow> 'v store go" where
  "each_child sub [] st = Inr st"
| "each_child sub (c # cs) st = bindG (sub c st) (each_child sub cs)"

definition remove_child :: "addr \<Rightarrow> 'v cxt \<Rightarrow> 'v store \<Rightarrow> 'v store" where
  "remove_child a p st =
     (case parentCancelCtx p of
        None \<Rightarrow> st
      | Some b \<Rightarrow>
          set_core b ((core_at st b)\<lparr>k_children := filter (\<lambda>c. c \<noteq> CancelCtx a p) (k_children (core_at st b))\<rparr>) st)"

definition cancelCtx_cancel :: "('v cxt \<Rightarrow> 'v store \<Rightarrow> 'v store go) \<Rightarrow> ('v cxt list \<Rightarrow> 'v cxt list) \<Rightarrow>
    addr \<Rightarrow> 'v cxt \<Rightarrow> bool \<Rightarrow> ctx_err option \<Rightarrow> 'v store \<Rightarrow> 'v store go" where
  "cancelCtx_cancel sub ord a p removeFromParent err st =
     (if err = None then Inl ''context: internal error: missing cancel error''
      else if k_err (core_at st a) \<noteq> None then Inr st
      else if k_closed (core_at st a) then Inl ''close of closed channel''
      else
        bindG (each_child sub (ord (k_children (core_at st a)))
                (set_core a ((core_at st a)\<lparr>k_err := err, k_closed := True\<rparr>) st)) (\<lambda>st.
        let st = set_core a ((core_at st a)\<lparr>k_children := []\<rparr>) st
        in Inr (if removeFromParent then remove_child a p st else st)))"

definition stop_timer :: "addr \<Rightarrow> 'v store \<Rightarrow> 'v store" where
  "stop_timer a st = set_core a ((core_at st a)\<lparr>k_timer := False\<rparr>) st"

text \<open>The method \<open>cancel\<close> of a canceler, with a bound on the depth of the recursion.\<close>

fun cancel_within :: "nat \<Rightarrow> ('v cxt list \<Rightarrow> 'v cxt list) \<Rightarrow> 'v cxt \<Rightarrow> bool \<Rightarrow> ctx_err option \<Rightarrow>
    'v store \<Rightarrow> 'v store go" where
  "cancel_within 0 ord c rm err st = Inl ''stack overflow''"
| "cancel_within (Suc n) ord c rm err st =
     (let sub = (\<lambda>child. cancel_within n ord child False err)
      in case c of
           CancelCtx a p \<Rightarrow> cancelCtx_cancel sub ord a p rm err st
         | TimerCtx a d p \<Rightarrow> mapG (stop_timer a) (cancelCtx_cancel sub ord a p rm err st)
         | _ \<Rightarrow> Inr st)"

text \<open>The depth is bounded by the number of objects.\<close>

definition cancel :: "('v cxt list \<Rightarrow> 'v cxt list) \<Rightarrow> 'v cxt \<Rightarrow> bool \<Rightarrow> ctx_err option \<Rightarrow>
    'v store \<Rightarrow> 'v store go" where
  "cancel ord c rm err st = cancel_within (Suc (length (x_cores st))) ord c rm err st"

section \<open>Derived contexts\<close>

definition propagateCancel :: "('v cxt list \<Rightarrow> 'v cxt list) \<Rightarrow> 'v cxt \<Rightarrow> 'v cxt \<Rightarrow>
    'v store \<Rightarrow> 'v store go" where
  "propagateCancel ord parent child st =
     (if Done st parent = None then Inr st
      else case parentCancelCtx parent of
        Some a \<Rightarrow>
          (if k_err (core_at st a) \<noteq> None then cancel ord child False (k_err (core_at st a)) st
           else Inr (set_core a ((core_at st a)\<lparr>k_children := List.insert child (k_children (core_at st a))\<rparr>) st))
      | None \<Rightarrow> Inr (st\<lparr>x_watchers := (parent, child) # x_watchers st\<rparr>))"

definition newCancelCtx :: "'v cxt \<Rightarrow> 'v core" where
  "newCancelCtx self = \<lparr>k_self = self, k_err = None, k_closed = False, k_children = [], k_timer = False\<rparr>"

definition alloc :: "'v cxt \<Rightarrow> 'v store \<Rightarrow> 'v store" where
  "alloc self st = st\<lparr>x_cores := x_cores st @ [newCancelCtx self]\<rparr>"

definition WithCancel :: "('v cxt list \<Rightarrow> 'v cxt list) \<Rightarrow> 'v cxt \<Rightarrow> 'v store \<Rightarrow> ('v cxt \<times> 'v store) go" where
  "WithCancel ord parent st =
     (let c = CancelCtx (length (x_cores st)) parent
      in mapG (Pair c) (propagateCancel ord parent c (alloc c st)))"

text \<open>The function that \<open>WithCancel\<close> and \<open>WithDeadline\<close> return with the context.\<close>

definition CancelFunc :: "('v cxt list \<Rightarrow> 'v cxt list) \<Rightarrow> 'v cxt \<Rightarrow> 'v store \<Rightarrow> 'v store go" where
  "CancelFunc ord c st = cancel ord c True (Some Canceled) st"

definition start_timer :: "addr \<Rightarrow> 'v store \<Rightarrow> 'v store" where
  "start_timer a st =
     (if k_err (core_at st a) = None then set_core a ((core_at st a)\<lparr>k_timer := True\<rparr>) st else st)"

definition WithDeadline :: "('v cxt list \<Rightarrow> 'v cxt list) \<Rightarrow> 'v cxt \<Rightarrow> int \<Rightarrow>
    'v store \<Rightarrow> ('v cxt \<times> 'v store) go" where
  "WithDeadline ord parent deadline st =
     (if (case Deadline st parent of Some cur \<Rightarrow> cur < deadline | None \<Rightarrow> False) then WithCancel ord parent st
      else
        let a = length (x_cores st);
            c = TimerCtx a deadline parent
        in bindG (propagateCancel ord parent c (alloc c st)) (\<lambda>st.
           let d = deadline - x_now st
           in if d \<le> 0 then mapG (Pair c) (cancel ord c True (Some DeadlineExceeded) st)
              else Inr (c, start_timer a st)))"

definition WithTimeout :: "('v cxt list \<Rightarrow> 'v cxt list) \<Rightarrow> 'v cxt \<Rightarrow> int \<Rightarrow>
    'v store \<Rightarrow> ('v cxt \<times> 'v store) go" where
  "WithTimeout ord parent timeout st = WithDeadline ord parent (x_now st + timeout) st"

definition WithValue :: "'v cxt \<Rightarrow> string \<Rightarrow> 'v \<Rightarrow> 'v cxt" where
  "WithValue parent key val = ValueCtx parent key val"

text \<open>What happens without a call: a timer fires; a goroutine of \<open>propagateCancel\<close> wakes up.\<close>

definition timer_fires :: "('v cxt list \<Rightarrow> 'v cxt list) \<Rightarrow> addr \<Rightarrow> 'v store \<Rightarrow> 'v store go" where
  "timer_fires ord a st = cancel ord (k_self (core_at st a)) True (Some DeadlineExceeded) st"

definition watcher_wakes :: "('v cxt list \<Rightarrow> 'v cxt list) \<Rightarrow> 'v cxt \<times> 'v cxt \<Rightarrow> 'v store \<Rightarrow> 'v store go" where
  "watcher_wakes ord w st =
     (let st' = st\<lparr>x_watchers := remove1 w (x_watchers st)\<rparr>
      in if Err st (fst w) \<noteq> None then cancel ord (snd w) False (Err st (fst w)) st' else Inr st')"

end
