(* ===== verification/Cancelation.thy ===== *)
theory Cancelation
  imports NetContext
begin

text \<open>
  What \<open>cancel\<close> does to the tree of contexts: exactly the contexts below the canceled one that are
  not yet canceled get its error, in whatever order the children are visited. From this the invariant
  of the tree and the safety of every operation follow.
\<close>

section \<open>The tree of contexts\<close>

fun parent_of :: "'v cxt \<Rightarrow> 'v cxt" where
  "parent_of (CancelCtx a p) = p"
| "parent_of (TimerCtx a d p) = p"
| "parent_of (ValueCtx p key val) = p"
| "parent_of c = c"

fun own_addr :: "'v cxt \<Rightarrow> addr option" where
  "own_addr (CancelCtx a p) = Some a"
| "own_addr (TimerCtx a d p) = Some a"
| "own_addr c = None"

definition is_object :: "'v store \<Rightarrow> addr \<Rightarrow> 'v cxt \<Rightarrow> bool" where
  "is_object st a c \<longleftrightarrow> a < length (x_cores st) \<and> k_self (core_at st a) = c"

text \<open>A context that the program can hold: its objects are in the store.\<close>

fun wf_cxt :: "'v store \<Rightarrow> 'v cxt \<Rightarrow> bool" where
  "wf_cxt st (CancelCtx a p) \<longleftrightarrow> is_object st a (CancelCtx a p) \<and> wf_cxt st p"
| "wf_cxt st (TimerCtx a d p) \<longleftrightarrow> is_object st a (TimerCtx a d p) \<and> wf_cxt st p"
| "wf_cxt st (ValueCtx p key val) \<longleftrightarrow> wf_cxt st p"
| "wf_cxt st _ \<longleftrightarrow> True"

definition par :: "'v store \<Rightarrow> addr \<Rightarrow> addr option" where
  "par st x = parentCancelCtx (parent_of (k_self (core_at st x)))"

inductive below :: "'v store \<Rightarrow> addr \<Rightarrow> addr \<Rightarrow> bool" for st b where
  below_self: "below st b b"
| below_par: "par st x = Some y \<Longrightarrow> below st b y \<Longrightarrow> below st b x"

inductive_cases below_cases: "below st b x"

definition live :: "'v store \<Rightarrow> addr \<Rightarrow> bool" where
  "live st a \<longleftrightarrow> k_err (core_at st a) = None"

definition self_ok :: "'v store \<Rightarrow> addr \<Rightarrow> bool" where
  "self_ok st a \<longleftrightarrow> own_addr (k_self (core_at st a)) = Some a \<and> wf_cxt st (k_self (core_at st a)) \<and>
     (\<forall>b. par st a = Some b \<longrightarrow> b < a)"

definition core_ok :: "'v store \<Rightarrow> addr \<Rightarrow> bool" where
  "core_ok st a \<longleftrightarrow> (case core_at st a of k \<Rightarrow>
     k_closed k = (k_err k \<noteq> None) \<and> (k_err k \<noteq> None \<longrightarrow> k_children k = [] \<and> \<not> k_timer k) \<and>
     (k_timer k \<longrightarrow> (\<exists>d p. k_self k = TimerCtx a d p)) \<and>
     (\<forall>c \<in> set (k_children k). \<exists>x. is_object st x c \<and> par st x = Some a))"

definition link_ok :: "'v store \<Rightarrow> addr \<Rightarrow> bool" where
  "link_ok st x \<longleftrightarrow> (\<forall>a. par st x = Some a \<longrightarrow>
     (\<not> live st a \<longrightarrow> \<not> live st x) \<and>
     (live st a \<and> live st x \<longrightarrow> k_self (core_at st x) \<in> set (k_children (core_at st a))))"

definition selfs_ok :: "'v store \<Rightarrow> bool" where
  "selfs_ok st \<longleftrightarrow> (\<forall>a < length (x_cores st). self_ok st a)"

definition tree_ok :: "'v store \<Rightarrow> bool" where
  "tree_ok st \<longleftrightarrow> selfs_ok st \<and> (\<forall>a < length (x_cores st). core_ok st a \<and> link_ok st a)"

lemma parentCancelCtx_wf: "wf_cxt st c \<Longrightarrow> parentCancelCtx c = Some b \<Longrightarrow> b < length (x_cores st)"
  by (induction c) (auto simp: is_object_def)

lemma par_less:
  assumes "selfs_ok st" "a < length (x_cores st)" "par st a = Some b"
  shows "b < a"
  using assms by (simp add: selfs_ok_def self_ok_def)

lemma below_less:
  assumes "selfs_ok st" "below st b x" "x < length (x_cores st)"
  shows "b \<le> x"
  using assms(2,3)
proof (induction rule: below.induct)
  case (below_par x y)
  with par_less [OF assms(1), of x y] show ?case by simp
qed simp

lemma below_trans: "below st b x \<Longrightarrow> below st a b \<Longrightarrow> below st a x"
  by (induction rule: below.induct) (auto intro: below.intros)

text \<open>Who is below whom does not change.\<close>

definition same_selfs :: "'v store \<Rightarrow> 'v store \<Rightarrow> bool" where
  "same_selfs st st' \<longleftrightarrow> length (x_cores st') = length (x_cores st) \<and>
     (\<forall>a. k_self (core_at st' a) = k_self (core_at st a))"

lemma same_selfs_simps:
  assumes "same_selfs st st'"
  shows "par st' = par st" "is_object st' = is_object st" "wf_cxt st' = wf_cxt st" "below st' = below st"
    "selfs_ok st' = selfs_ok st"
proof -
  have p: "par st' = par st" using assms by (auto simp: fun_eq_iff par_def same_selfs_def)
  have i: "is_object st' = is_object st" using assms by (auto simp: fun_eq_iff is_object_def same_selfs_def)
  have w: "wf_cxt st' c = wf_cxt st c" for c by (induction c) (simp_all add: i)
  have "below st' b x \<longleftrightarrow> below st b x" for b x
  proof
    show "below st' b x \<Longrightarrow> below st b x" by (induction rule: below.induct) (auto intro: below.intros simp: p)
    show "below st b x \<Longrightarrow> below st' b x" by (induction rule: below.induct) (auto intro: below.intros simp flip: p)
  qed
  then show "below st' = below st" by blast
  show "par st' = par st" "is_object st' = is_object st" "wf_cxt st' = wf_cxt st" using p i w by auto
  with assms show "selfs_ok st' = selfs_ok st" by (simp add: selfs_ok_def self_ok_def same_selfs_def)
qed

section \<open>The effect of \<open>cancel\<close>\<close>

definition mark :: "ctx_err \<Rightarrow> 'v core \<Rightarrow> 'v core" where
  "mark e k = k\<lparr>k_err := Some e, k_closed := True, k_children := [], k_timer := False\<rparr>"

text \<open>All live objects of a set are canceled.\<close>

definition cancel_set :: "ctx_err \<Rightarrow> addr set \<Rightarrow> 'v store \<Rightarrow> 'v store" where
  "cancel_set e X st = st\<lparr>x_cores := map (\<lambda>x. if x \<in> X \<and> live st x then mark e (core_at st x) else core_at st x)
     [0..<length (x_cores st)]\<rparr>"

lemma cancel_set_simps [simp]:
  "length (x_cores (cancel_set e X st)) = length (x_cores st)"
  "x < length (x_cores st) \<Longrightarrow>
    core_at (cancel_set e X st) x = (if x \<in> X \<and> live st x then mark e (core_at st x) else core_at st x)"
  "x_others (cancel_set e X st) = x_others st" "x_watchers (cancel_set e X st) = x_watchers st"
  "x_now (cancel_set e X st) = x_now st" "x_deadline (cancel_set e X st) = x_deadline st"
  "x_value (cancel_set e X st) = x_value st"
  by (simp_all add: cancel_set_def)

lemma nth_beyond: "length xs \<le> n \<Longrightarrow> xs ! n = [] ! (n - length xs)"
proof (induction xs arbitrary: n)
  case (Cons x xs)
  then show ?case by (cases n) simp_all
qed simp

lemma same_selfs_map:
  assumes "length (x_cores st') = length (x_cores st)"
    "\<And>a. a < length (x_cores st) \<Longrightarrow> k_self (core_at st' a) = k_self (core_at st a)"
  shows "same_selfs st st'"
proof -
  have "k_self (core_at st' a) = k_self (core_at st a)" for a
  proof (cases "a < length (x_cores st)")
    case False
    then show ?thesis using assms(1) nth_beyond [of "x_cores st" a] nth_beyond [of "x_cores st'" a] by simp
  qed (rule assms(2))
  with assms(1) show ?thesis by (simp add: same_selfs_def)
qed

lemma same_selfs_cancel_set: "same_selfs st (cancel_set e X st)"
  by (rule same_selfs_map) (simp_all add: mark_def)

lemma same_selfs_set_core: "k_self k = k_self (core_at st a) \<Longrightarrow> same_selfs st (set_core a k st)"
  by (cases "a < length (x_cores st)") (auto intro!: same_selfs_map simp: nth_list_update)

lemma same_selfs_trans: "same_selfs a b \<Longrightarrow> same_selfs b c \<Longrightarrow> same_selfs a c"
  by (simp add: same_selfs_def)

lemma live_cancel_set:
  "x < length (x_cores st) \<Longrightarrow> live (cancel_set e X st) x \<longleftrightarrow> live st x \<and> x \<notin> X"
  by (auto simp: live_def mark_def)

lemma cancel_set_twice:
  "cancel_set e Y (cancel_set e X st) = cancel_set e (X \<union> Y) st"
proof -
  have "x_cores (cancel_set e Y (cancel_set e X st)) = x_cores (cancel_set e (X \<union> Y) st)"
    by (rule nth_equalityI) (auto simp: live_cancel_set)
  then show ?thesis by (simp add: cancel_set_def)
qed

lemma cancel_set_empty [simp]: "cancel_set e {} st = st"
proof -
  have "x_cores (cancel_set e {} st) = x_cores st" by (rule nth_equalityI) auto
  then show ?thesis by (simp add: cancel_set_def)
qed

lemma cancel_set_dead: "(\<And>x. x < length (x_cores st) \<Longrightarrow> x \<in> X \<Longrightarrow> \<not> live st x) \<Longrightarrow> cancel_set e X st = st"
proof -
  assume "\<And>x. x < length (x_cores st) \<Longrightarrow> x \<in> X \<Longrightarrow> \<not> live st x"
  then have "x_cores (cancel_set e X st) = x_cores st" by (intro nth_equalityI) auto
  then show ?thesis by (simp add: cancel_set_def)
qed

text \<open>What the recursion relies on below the context that it cancels.\<close>

definition subtree_ok :: "'v store \<Rightarrow> addr \<Rightarrow> bool" where
  "subtree_ok st b \<longleftrightarrow> selfs_ok st \<and> b < length (x_cores st) \<and>
     (\<forall>x < length (x_cores st). below st b x \<longrightarrow> core_ok st x \<and> (x \<noteq> b \<longrightarrow> link_ok st x))"

lemma below_live:
  assumes "subtree_ok st b" "below st b x" "x < length (x_cores st)" "live st x"
  shows "live st b"
  using assms(2-4)
proof (induction rule: below.induct)
  case (below_par x y)
  have "y < x" using assms(1) below_par.hyps(1) below_par.prems(1) par_less by (auto simp: subtree_ok_def)
  show ?case
  proof (cases "x = b")
    case False
    with assms(1) below_par have "link_ok st x" by (auto simp: subtree_ok_def intro: below.below_par)
    with below_par \<open>y < x\<close> show ?thesis by (auto simp: link_ok_def)
  qed (use below_par in simp)
qed simp

text \<open>A live context below a live one is below one of its registered children.\<close>

lemma below_child:
  assumes "subtree_ok st b" "below st b x" "x < length (x_cores st)" "live st x" "x \<noteq> b"
  shows "\<exists>y. below st y x \<and> par st y = Some b \<and> y < length (x_cores st) \<and>
    k_self (core_at st y) \<in> set (k_children (core_at st b))"
  using assms(2-5)
proof (induction rule: below.induct)
  case (below_par x y)
  have y: "y < x" using assms(1) below_par.hyps(1) below_par.prems(1) par_less by (auto simp: subtree_ok_def)
  have link: "link_ok st x"
    using assms(1) below_par by (auto simp: subtree_ok_def intro: below.below_par)
  then have "live st y" using below_par by (auto simp: link_ok_def)
  show ?case
  proof (cases "y = b")
    case True
    with link below_par \<open>live st y\<close> show ?thesis by (intro exI [of _ x]) (auto simp: link_ok_def intro: below_self)
  next
    case False
    from below_par.IH [OF _ \<open>live st y\<close> this] y below_par.prems(1) obtain z where
      "below st z y" "par st z = Some b" "z < length (x_cores st)" "k_self (core_at st z) \<in> set (k_children (core_at st b))"
      by auto
    with below_par.hyps(1) show ?thesis by (intro exI [of _ z]) (auto intro: below.below_par)
  qed
qed simp

definition fair :: "('v cxt list \<Rightarrow> 'v cxt list) \<Rightarrow> bool" where
  "fair ord \<longleftrightarrow> (\<forall>cs. set (ord cs) = set cs)"

lemma core_ok_cong:
  "same_selfs st st' \<Longrightarrow> core_at st' a = core_at st a \<Longrightarrow> core_ok st' a = core_ok st a"
  by (simp add: core_ok_def same_selfs_simps)

lemma core_ok_mark: "core_at st a = mark e k \<Longrightarrow> core_ok st a"
  by (simp add: core_ok_def mark_def)

lemma subtree_ok_cancel_set:
  assumes "subtree_ok st x" "\<And>y z. z \<in> X \<Longrightarrow> par st y = Some z \<Longrightarrow> y \<in> X"
  shows "subtree_ok (cancel_set e X st) x"
proof -
  let ?st = "cancel_set e X st"
  note same = same_selfs_cancel_set [of st e X]
  note simps = same_selfs_simps [OF same]
  have core: "core_ok ?st y" if "y < length (x_cores st)" "core_ok st y" for y
    using that core_ok_cong [OF same, of y] core_ok_mark [of ?st y] by (cases "y \<in> X \<and> live st y") auto
  have link: "link_ok ?st y" if y: "y < length (x_cores st)" "link_ok st y" for y
    unfolding link_ok_def
  proof (intro allI impI)
    fix a
    assume a: "par ?st y = Some a"
    then have "a < y" "par st y = Some a" using assms(1) y(1) par_less by (auto simp: subtree_ok_def simps)
    with y assms(2) show "(\<not> live ?st a \<longrightarrow> \<not> live ?st y) \<and>
        (live ?st a \<and> live ?st y \<longrightarrow> k_self (core_at ?st y) \<in> set (k_children (core_at ?st a)))"
      by (auto simp: live_cancel_set link_ok_def)
  qed
  show ?thesis using assms(1) core link by (auto simp: subtree_ok_def simps)
qed

lemma reached_Cons:
  assumes x: "x < length (x_cores st)" "k_self (core_at st x) = c"
    and only: "\<And>x'. x' < length (x_cores st) \<Longrightarrow> k_self (core_at st x') = c \<Longrightarrow> x' = x"
  shows "{y. below st x y} \<union> {y. \<exists>x. x < length (x_cores st) \<and> k_self (core_at st x) \<in> set cs \<and> below st x y} =
    {y. \<exists>x. x < length (x_cores st) \<and> k_self (core_at st x) \<in> set (c # cs) \<and> below st x y}"
proof (intro set_eqI iffI)
  fix y
  assume "y \<in> {y. below st x y} \<union> {y. \<exists>x. x < length (x_cores st) \<and> k_self (core_at st x) \<in> set cs \<and> below st x y}"
  then show "y \<in> {y. \<exists>x. x < length (x_cores st) \<and> k_self (core_at st x) \<in> set (c # cs) \<and> below st x y}"
    using x by (elim UnE CollectE) (auto intro: exI [of _ x])
next
  fix y
  assume "y \<in> {y. \<exists>x. x < length (x_cores st) \<and> k_self (core_at st x) \<in> set (c # cs) \<and> below st x y}"
  then obtain x' where "x' < length (x_cores st)" "k_self (core_at st x') \<in> set (c # cs)" "below st x' y" by blast
  then show "y \<in> {y. below st x y} \<union> {y. \<exists>x. x < length (x_cores st) \<and> k_self (core_at st x) \<in> set cs \<and> below st x y}"
    using only by auto
qed

lemma each_child_effect:
  assumes "\<And>x st'. subtree_ok st' x \<Longrightarrow> same_selfs st st' \<Longrightarrow> length (x_cores st') \<le> n + x \<Longrightarrow>
      sub (k_self (core_at st' x)) st' = Inr (cancel_set e {y. below st' x y} st')"
    "\<And>x. x < length (x_cores st) \<Longrightarrow> par st x = Some b \<Longrightarrow> subtree_ok st x \<and> length (x_cores st) \<le> n + x"
    "\<forall>c \<in> set cs. \<exists>x. is_object st x c \<and> par st x = Some b"
    "\<And>y z. z \<in> X \<Longrightarrow> par st y = Some z \<Longrightarrow> y \<in> X"
  shows "each_child sub cs (cancel_set e X st) =
    Inr (cancel_set e (X \<union> {y. \<exists>x. x < length (x_cores st) \<and> k_self (core_at st x) \<in> set cs \<and> below st x y}) st)"
  using assms(3,4)
proof (induction cs arbitrary: X)
  case (Cons c cs)
  let ?st = "cancel_set e X st"
  note same = same_selfs_cancel_set [of st e X]
  from Cons.prems(1) obtain x where x: "x < length (x_cores st)" "k_self (core_at st x) = c" "par st x = Some b"
    by (auto simp: is_object_def)
  have sx: "subtree_ok st x" "length (x_cores st) \<le> n + x" using assms(2) [OF x(1,3)] by auto
  have "subtree_ok ?st x" by (rule subtree_ok_cancel_set [OF sx(1) Cons.prems(2)])
  then have "sub c ?st = Inr (cancel_set e {y. below ?st x y} ?st)"
    using assms(1) [of ?st x] sx(2) same x(2) by (simp add: same_selfs_def)
  then have 1: "sub c ?st = Inr (cancel_set e (X \<union> {y. below st x y}) st)"
    by (simp add: cancel_set_twice same_selfs_simps [OF same])
  have closed: "z \<in> X \<union> {y. below st x y} \<Longrightarrow> par st y = Some z \<Longrightarrow> y \<in> X \<union> {y. below st x y}" for y z
    using Cons.prems(2) by (auto intro: below_par)
  have only: "x' = x" if "x' < length (x_cores st)" "k_self (core_at st x') = c" for x'
  proof -
    have "own_addr c = Some x'" "own_addr c = Some x"
      using sx(1) that x(1,2) by (auto simp: subtree_ok_def selfs_ok_def self_ok_def)
    then show ?thesis by simp
  qed
  have "each_child sub (c # cs) ?st = each_child sub cs (cancel_set e (X \<union> {y. below st x y}) st)"
    unfolding each_child.simps 1 bindG_simps ..
  also have "\<dots> = Inr (cancel_set e (X \<union> {y. below st x y} \<union>
      {y. \<exists>x. x < length (x_cores st) \<and> k_self (core_at st x) \<in> set cs \<and> below st x y}) st)"
    by (rule Cons.IH [OF _ closed]) (use Cons.prems(1) in auto)
  finally show ?case using reached_Cons [OF x(1,2) only, of cs] by (simp only: Un_assoc)
qed simp

lemma subtree_ok_cong:
  assumes "subtree_ok st x" "same_selfs st st'" "\<And>y. y < length (x_cores st) \<Longrightarrow> below st x y \<Longrightarrow> core_at st' y = core_at st y"
  shows "subtree_ok st' x"
proof -
  note simps = same_selfs_simps [OF assms(2)]
  have len: "length (x_cores st') = length (x_cores st)" using assms(2) by (simp add: same_selfs_def)
  have core: "core_ok st' y" if y: "y < length (x_cores st)" "below st x y" for y
    using core_ok_cong [OF assms(2) assms(3) [OF y]] assms(1) y by (simp add: subtree_ok_def)
  have link: "link_ok st' y" if y: "y < length (x_cores st)" "below st x y" "y \<noteq> x" for y
    unfolding link_ok_def
  proof (intro allI impI)
    fix a
    assume "par st' y = Some a"
    then have a: "par st y = Some a" by (simp add: simps)
    have "below st x a" using y(2) by (rule below_cases) (use a y(3) in simp_all)
    moreover have "a < y" using par_less [OF _ y(1) a] assms(1) by (simp add: subtree_ok_def)
    ultimately have "core_at st' a = core_at st a" using y(1) by (intro assms(3)) simp_all
    moreover have "core_at st' y = core_at st y" by (rule assms(3) [OF y(1,2)])
    moreover have "link_ok st y" using assms(1) y by (simp add: subtree_ok_def)
    ultimately show "(\<not> live st' a \<longrightarrow> \<not> live st' y) \<and>
        (live st' a \<and> live st' y \<longrightarrow> k_self (core_at st' y) \<in> set (k_children (core_at st' a)))"
      using a by (simp add: link_ok_def live_def)
  qed
  show ?thesis using assms(1) core link unfolding subtree_ok_def simps len by blast
qed

lemma objects_distinct:
  assumes "selfs_ok st" "x < length (x_cores st)" "y < length (x_cores st)" "k_self (core_at st x) = k_self (core_at st y)"
  shows "x = y"
proof -
  have "own_addr (k_self (core_at st x)) = Some x" "own_addr (k_self (core_at st y)) = Some y"
    using assms(1-3) by (simp_all add: selfs_ok_def self_ok_def)
  with assms(4) show ?thesis by (metis option.inject)
qed

lemma object_cases:
  assumes "selfs_ok st" "b < length (x_cores st)"
  obtains p where "k_self (core_at st b) = CancelCtx b p" | d p where "k_self (core_at st b) = TimerCtx b d p"
  using assms by (cases "k_self (core_at st b)") (auto simp: selfs_ok_def self_ok_def)

text \<open>The children that a live context has registered are what is live below it.\<close>

lemma cancel_children:
  assumes "subtree_ok st b" "live st b" "set cs = set (k_children (core_at st b))"
  shows "set_core b (mark e (core_at st b))
      (cancel_set e {y. \<exists>x. x < length (x_cores st) \<and> k_self (core_at st x) \<in> set cs \<and> below st x y} (set_core b k st)) =
    cancel_set e {y. below st b y} st"
proof -
  let ?W = "{y. \<exists>x. x < length (x_cores st) \<and> k_self (core_at st x) \<in> set cs \<and> below st x y}"
  have b: "b < length (x_cores st)" "selfs_ok st" "core_ok st b" using assms(1) by (auto simp: subtree_ok_def intro: below_self)
  have W: "y \<in> ?W \<and> live st y \<longleftrightarrow> below st b y \<and> live st y" if y: "y < length (x_cores st)" "y \<noteq> b" for y
  proof
    assume "y \<in> ?W \<and> live st y"
    then obtain x where x: "x < length (x_cores st)" "k_self (core_at st x) \<in> set cs" "below st x y" "live st y" by blast
    with b(3) assms(3) obtain x' where x': "is_object st x' (k_self (core_at st x))" "par st x' = Some b"
      by (auto simp: core_ok_def)
    then have "x' = x" using objects_distinct [OF b(2) _ x(1)] by (simp add: is_object_def)
    with x'(2) have "par st x = Some b" by simp
    from below_trans [OF x(3) below_par [OF this below_self]] x(4) show "below st b y \<and> live st y" by blast
  next
    assume "below st b y \<and> live st y"
    with below_child [OF assms(1), of y] y assms(3) show "y \<in> ?W \<and> live st y" by blast
  qed
  let ?s = "set_core b k st"
  have core: "core_at (cancel_set e ?W ?s) y = (if below st b y \<and> live st y then mark e (core_at st y) else core_at st y)"
    if "y < length (x_cores st)" "y \<noteq> b" for y
    using that W [OF that] by (simp add: live_def)
  have "x_cores (set_core b (mark e (core_at st b)) (cancel_set e ?W ?s)) = x_cores (cancel_set e {y. below st b y} st)"
  proof (rule nth_equalityI)
    fix y
    assume y: "y < length (x_cores (set_core b (mark e (core_at st b)) (cancel_set e ?W ?s)))"
    show "core_at (set_core b (mark e (core_at st b)) (cancel_set e ?W ?s)) y = core_at (cancel_set e {y. below st b y} st) y"
    proof (cases "y = b")
      case True
      with b(1) assms(2) show ?thesis by (simp add: below_self)
    next
      case False
      with y core [of y] show ?thesis by simp
    qed
  qed simp
  then show ?thesis by (simp add: cancel_set_def)
qed

text \<open>The recursion: whatever the order of the children, all that is live below is canceled.\<close>

text \<open>A child of a live context, once the context is marked, is the root of a subtree that can be canceled.\<close>

lemma subtree_ok_child:
  assumes st: "subtree_ok st b" "length (x_cores st) \<le> Suc n + b" and same: "same_selfs st st'"
    and other: "\<And>y. b < y \<Longrightarrow> core_at st' y = core_at st y" and x: "x < length (x_cores st')" "par st' x = Some b"
  shows "subtree_ok st' x \<and> length (x_cores st') \<le> n + x"
proof -
  have b: "selfs_ok st" using st(1) by (auto simp: subtree_ok_def)
  note simps = same_selfs_simps [OF same]
  have len: "length (x_cores st') = length (x_cores st)" using same by (simp add: same_selfs_def)
  have x': "x < length (x_cores st)" "par st x = Some b" using x by (simp_all add: simps len)
  have "b < x" by (rule par_less [OF b x'])
  have "subtree_ok st x"
    using st(1) x' below_trans [of st x _ b] below_par [OF x'(2) below_self] \<open>b < x\<close> below_less [OF b, of x]
    unfolding subtree_ok_def by (metis leD)
  then have "subtree_ok st' x"
  proof (rule subtree_ok_cong [OF _ same])
    fix y
    assume "y < length (x_cores st)" "below st x y"
    with below_less [OF b] \<open>b < x\<close> have "b < y" by (metis order_less_le_trans)
    then show "core_at st' y = core_at st y" by (rule other)
  qed
  with \<open>b < x\<close> st(2) show ?thesis by (simp add: len)
qed

text \<open>The effect of \<open>cancelCtx.cancel\<close> on a live context, when canceling a child has the effect on its subtree.\<close>

lemma cancelCtx_live:
  fixes st e b
  defines "s \<equiv> set_core b ((core_at st b)\<lparr>k_err := Some e, k_closed := True\<rparr>) st"
  assumes fair: "fair ord" and st: "subtree_ok st b" "length (x_cores st) \<le> Suc n + b" and live: "live st b"
    and sub: "\<And>x st'. subtree_ok st' x \<Longrightarrow> length (x_cores st') \<le> n + x \<Longrightarrow>
      sub (k_self (core_at st' x)) st' = Inr (cancel_set e {y. below st' x y} st')"
  shows "cancelCtx_cancel sub ord b p False (Some e) st =
    Inr (set_core b ((core_at st b)\<lparr>k_err := Some e, k_closed := True, k_children := []\<rparr>)
      (cancel_set e {y. \<exists>x. x < length (x_cores st) \<and> k_self (core_at st x) \<in> set (ord (k_children (core_at st b))) \<and> below st x y} s))"
proof -
  let ?cs = "ord (k_children (core_at st b))"
  let ?W = "{y. \<exists>x. x < length (x_cores st) \<and> k_self (core_at st x) \<in> set ?cs \<and> below st x y}"
  have b: "b < length (x_cores st)" "core_ok st b" using st(1) by (auto simp: subtree_ok_def intro: below_self)
  have same: "same_selfs st s" unfolding s_def by (rule same_selfs_set_core) simp
  note simps = same_selfs_simps [OF same]
  have ok: "subtree_ok s x \<and> length (x_cores s) \<le> n + x" if "x < length (x_cores s)" "par s x = Some b" for x
    by (rule subtree_ok_child [OF st same _ that]) (simp add: s_def)
  have cs: "\<forall>c \<in> set ?cs. \<exists>x. is_object s x c \<and> par s x = Some b"
    using b(2) fair by (auto simp: core_ok_def fair_def simps)
  have "each_child sub ?cs (cancel_set e {} s) =
      Inr (cancel_set e ({} \<union> {y. \<exists>x. x < length (x_cores s) \<and> k_self (core_at s x) \<in> set ?cs \<and> below s x y}) s)"
    by (rule each_child_effect [where n = n and b = b]) (use sub ok cs in auto)
  moreover have "k_self (core_at s x) = k_self (core_at st x)" for x using same by (simp add: same_selfs_def)
  moreover have "length (x_cores s) = length (x_cores st)" using same by (simp add: same_selfs_def)
  ultimately have each: "each_child sub ?cs s = Inr (cancel_set e ?W s)" by (simp add: simps)
  have "core_at (cancel_set e ?W s) b = (core_at st b)\<lparr>k_err := Some e, k_closed := True\<rparr>"
    using b(1) by (simp add: live_def s_def)
  then show ?thesis
    using live b(2) each by (simp add: cancelCtx_cancel_def live_def core_ok_def Let_def s_def)
qed

lemma cancel_within_effect:
  assumes "fair ord"
  shows "subtree_ok st b \<Longrightarrow> length (x_cores st) \<le> n + b \<Longrightarrow>
    cancel_within n ord (k_self (core_at st b)) False (Some e) st = Inr (cancel_set e {y. below st b y} st)"
proof (induction n arbitrary: st b)
  case 0
  then show ?case by (simp add: subtree_ok_def)
next
  case (Suc n)
  let ?k = "core_at st b"
  have b: "b < length (x_cores st)" "selfs_ok st" "core_ok st b"
    using Suc.prems(1) by (auto simp: subtree_ok_def intro: below_self)
  show ?case
  proof (cases "live st b")
    case False
    have "cancel_set e {y. below st b y} st = st"
      using False below_live [OF Suc.prems(1)] by (intro cancel_set_dead) auto
    moreover have "\<not> k_timer ?k" using False b(3) by (simp add: core_ok_def live_def)
    then have "?k\<lparr>k_timer := False\<rparr> = ?k" by (cases ?k) simp
    then have "stop_timer b st = st" by (simp add: stop_timer_def)
    ultimately show ?thesis using False
      by (cases rule: object_cases [OF b(2,1)]) (simp_all add: cancelCtx_cancel_def live_def Let_def)
  next
    case True
    have set: "set (ord (k_children ?k)) = set (k_children ?k)" using assms by (simp add: fair_def)
    note eff = cancel_children [OF Suc.prems(1) True set, of e]
    note body = cancelCtx_live [OF assms Suc.prems True, where e = e and sub = "\<lambda>child. cancel_within n ord child False (Some e)", OF Suc.IH]
    show ?thesis
    proof (cases rule: object_cases [OF b(2,1)])
      case (1 p)
      then have "\<not> k_timer ?k" using b(3) by (auto simp: core_ok_def)
      then have "?k\<lparr>k_err := Some e, k_closed := True, k_children := []\<rparr> = mark e ?k" by (cases ?k) (simp add: mark_def)
      with 1 body eff show ?thesis by (simp add: Let_def)
    next
      case (2 d p)
      have "stop_timer b (set_core b (?k\<lparr>k_err := Some e, k_closed := True, k_children := []\<rparr>) s) = set_core b (mark e ?k) s"
        if "b < length (x_cores s)" for s
        using that by (simp add: stop_timer_def mark_def)
      with 2 body eff b(1) show ?thesis by (simp add: Let_def)
    qed
  qed
qed

text \<open>\<open>removeFromParent\<close> comes last.\<close>

definition detach :: "bool \<Rightarrow> addr \<Rightarrow> 'v store \<Rightarrow> 'v store \<Rightarrow> 'v store" where
  "detach rm b st st' = (if rm \<and> live st b then remove_child b (parent_of (k_self (core_at st b))) st' else st')"

lemma stop_timer_remove_child:
  assumes "\<And>a. parentCancelCtx p = Some a \<Longrightarrow> a \<noteq> b"
  shows "stop_timer b (remove_child b p st) = remove_child b p (stop_timer b st)"
  using assms by (auto simp: stop_timer_def remove_child_def list_update_swap split: option.split)

lemma cancel_within_remove:
  assumes "selfs_ok st" "b < length (x_cores st)"
  shows "cancel_within n ord (k_self (core_at st b)) rm err st =
    mapG (detach rm b st) (cancel_within n ord (k_self (core_at st b)) False err st)"
proof (cases n)
  case (Suc m)
  have body: "cancelCtx_cancel sub ord b p rm err st =
      mapG (\<lambda>st'. if rm \<and> live st b then remove_child b p st' else st') (cancelCtx_cancel sub ord b p False err st)" for sub p
    by (auto simp: cancelCtx_cancel_def live_def Let_def bindG_def mapG_def split: sum.split)
  show ?thesis
  proof (cases rule: object_cases [OF assms])
    case (1 p)
    then show ?thesis using Suc by (simp add: body [of _ p] detach_def [abs_def] cong: if_cong)
  next
    case (2 d p)
    have "parentCancelCtx p = Some a \<Longrightarrow> a \<noteq> b" for a
      using par_less [OF assms(1,2), of a] 2 by (auto simp: par_def)
    from stop_timer_remove_child [OF this] show ?thesis
      unfolding Suc cancel_within.simps Let_def 2 cxt.case body [of _ p]
      by (auto simp: mapG_def detach_def 2 split: sum.split)
  qed
qed simp

lemma cancel_effect:
  assumes "fair ord" "subtree_ok st b"
  shows "cancel ord (k_self (core_at st b)) rm (Some e) st = Inr (detach rm b st (cancel_set e {y. below st b y} st))"
proof -
  have b: "selfs_ok st" "b < length (x_cores st)" using assms(2) by (simp_all add: subtree_ok_def)
  show ?thesis unfolding cancel_def
    by (subst cancel_within_remove [OF b], subst cancel_within_effect [OF assms]) simp_all
qed

end
