(* ===== verification/ContextTree.thy ===== *)
theory ContextTree
  imports Cancelation
begin

text \<open>
  The programs that use contexts: every sequence of derivations, cancelations, timers and goroutines
  that wake up. The tree stays well-formed, no operation panics, and a context is canceled with the
  contexts above it.
\<close>

section \<open>Steps keep the tree\<close>

definition tree_but :: "addr \<Rightarrow> 'v store \<Rightarrow> bool" where
  "tree_but b st \<longleftrightarrow> selfs_ok st \<and> b < length (x_cores st) \<and>
     (\<forall>a < length (x_cores st). core_ok st a \<and> (a \<noteq> b \<longrightarrow> link_ok st a))"

lemma tree_but_tree: "tree_ok st \<Longrightarrow> b < length (x_cores st) \<Longrightarrow> tree_but b st"
  by (simp add: tree_ok_def tree_but_def)

lemma tree_but_subtree: "tree_but b st \<Longrightarrow> subtree_ok st b"
  by (simp add: tree_but_def subtree_ok_def)

lemma tree_cancel_set:
  assumes "tree_but b st"
  shows "tree_ok (cancel_set e {y. below st b y} st)"
proof -
  let ?X = "{y. below st b y}" and ?st = "cancel_set e {y. below st b y} st"
  note same = same_selfs_cancel_set [of st e ?X]
  note simps = same_selfs_simps [OF same]
  have S: "selfs_ok st" using assms by (simp add: tree_but_def)
  have core: "core_ok ?st y" if y: "y < length (x_cores st)" for y
  proof (cases "y \<in> ?X \<and> live st y")
    case True
    with y have "core_at ?st y = mark e (core_at st y)" by simp
    then show ?thesis by (rule core_ok_mark)
  next
    case False
    with y have "core_at ?st y = core_at st y" by auto
    with core_ok_cong [OF same] y assms show ?thesis by (simp add: tree_but_def)
  qed
  have link: "link_ok ?st y" if y: "y < length (x_cores st)" for y
    unfolding link_ok_def
  proof (intro allI impI)
    fix a
    assume "par ?st y = Some a"
    then have a: "par st y = Some a" by (simp add: simps)
    have ay: "a < y" by (rule par_less [OF S y a])
    have la: "live ?st a \<longleftrightarrow> live st a \<and> \<not> below st b a" and ly: "live ?st y \<longleftrightarrow> live st y \<and> \<not> below st b y"
      using y ay by (simp_all add: live_cancel_set)
    have down: "below st b a \<Longrightarrow> below st b y" by (rule below_par [OF a])
    have lk: "y \<noteq> b \<Longrightarrow> link_ok st y" using assms y by (simp add: tree_but_def)
    have self: "below st b b" by (rule below_self)
    show "(\<not> live ?st a \<longrightarrow> \<not> live ?st y) \<and>
        (live ?st a \<and> live ?st y \<longrightarrow> k_self (core_at ?st y) \<in> set (k_children (core_at ?st a)))"
    proof (cases "y = b")
      case True
      then show ?thesis using ly self by blast
    next
      case False
      with lk a have l: "\<not> live st a \<longrightarrow> \<not> live st y"
        "live st a \<and> live st y \<longrightarrow> k_self (core_at st y) \<in> set (k_children (core_at st a))"
        by (simp_all add: link_ok_def)
      have "live ?st a \<Longrightarrow> core_at ?st a = core_at st a" using la ay y by simp
      moreover have "live ?st y \<Longrightarrow> core_at ?st y = core_at st y" using ly y by simp
      ultimately show ?thesis using l la ly down by metis
    qed
  qed
  from S core link show ?thesis by (simp add: tree_ok_def simps)
qed

text \<open>An update of the children of one object that keeps what is live.\<close>

lemma tree_children:
  assumes "selfs_ok st" "\<And>x. x < length (x_cores st) \<Longrightarrow> core_ok st x" "a < length (x_cores st)"
    "\<forall>c \<in> set cs. \<exists>x. is_object st x c \<and> par st x = Some a" "\<not> live st a \<Longrightarrow> cs = []"
    "\<And>x. x < length (x_cores st) \<Longrightarrow> par st x \<noteq> Some a \<Longrightarrow> link_ok st x"
    "\<And>x. x < length (x_cores st) \<Longrightarrow> par st x = Some a \<Longrightarrow>
      (\<not> live st a \<longrightarrow> \<not> live st x) \<and> (live st a \<and> live st x \<longrightarrow> k_self (core_at st x) \<in> set cs)"
  shows "tree_ok (set_core a ((core_at st a)\<lparr>k_children := cs\<rparr>) st)"
proof -
  let ?st = "set_core a ((core_at st a)\<lparr>k_children := cs\<rparr>) st"
  have same: "same_selfs st ?st" by (rule same_selfs_set_core) simp
  note simps = same_selfs_simps [OF same]
  have live: "live ?st x = live st x" for x using assms(3) by (cases "x = a") (simp_all add: live_def)
  have self: "k_self (core_at ?st x) = k_self (core_at st x)" for x using same by (simp add: same_selfs_def)
  have "core_ok ?st x" if x: "x < length (x_cores st)" for x
  proof (cases "x = a")
    case True
    with assms(2) [OF assms(3)] assms(3-5) show ?thesis by (auto simp: core_ok_def simps live_def)
  next
    case False
    with core_ok_cong [OF same, of x] assms(2) [OF x] show ?thesis by simp
  qed
  moreover have "link_ok ?st x" if x: "x < length (x_cores st)" for x
  proof (cases "par st x = Some a")
    case True
    with assms(7) [OF x True] assms(3) show ?thesis unfolding link_ok_def live self simps by simp
  next
    case False
    with assms(6) [OF x False] show ?thesis unfolding link_ok_def live self simps by auto
  qed
  ultimately show ?thesis using assms(1) by (simp add: tree_ok_def simps)
qed

text \<open>A child that is canceled is taken out of its parent.\<close>

lemma tree_detach:
  assumes "tree_ok st'" "same_selfs st st'" "selfs_ok st" "b < length (x_cores st)" "\<not> live st' b"
  shows "tree_ok (detach rm b st st')"
proof -
  note simps = same_selfs_simps [OF assms(2)]
  let ?p = "parent_of (k_self (core_at st b))"
  have "tree_ok (remove_child b ?p st')"
  proof (cases "parentCancelCtx ?p")
    case (Some a)
    then have a: "par st b = Some a" by (simp add: par_def)
    have len: "length (x_cores st') = length (x_cores st)" using assms(2) by (simp add: same_selfs_def)
    have ab: "a < b" by (rule par_less [OF assms(3,4) a])
    let ?cs = "filter (\<lambda>c. c \<noteq> CancelCtx b ?p) (k_children (core_at st' a))"
    have core: "core_ok st' a" using assms(1,4) ab len by (simp add: tree_ok_def)
    have "tree_ok (set_core a ((core_at st' a)\<lparr>k_children := ?cs\<rparr>) st')"
    proof (rule tree_children)
      show "\<forall>c \<in> set ?cs. \<exists>x. is_object st' x c \<and> par st' x = Some a" using core by (auto simp: core_ok_def)
      show "\<not> live st' a \<Longrightarrow> ?cs = []" using core by (simp add: core_ok_def live_def)
    next
      fix x
      assume x: "x < length (x_cores st')" "par st' x = Some a"
      have lk: "link_ok st' x" using assms(1) x(1) by (simp add: tree_ok_def)
      have "k_self (core_at st' x) \<noteq> CancelCtx b ?p" if "live st' x"
      proof
        assume "k_self (core_at st' x) = CancelCtx b ?p"
        moreover have "self_ok st' x" using assms(1) x(1) by (simp add: tree_ok_def selfs_ok_def)
        ultimately have "x = b" by (simp add: self_ok_def)
        with that assms(5) show False by simp
      qed
      with lk x(2) show "(\<not> live st' a \<longrightarrow> \<not> live st' x) \<and>
          (live st' a \<and> live st' x \<longrightarrow> k_self (core_at st' x) \<in> set ?cs)" by (simp add: link_ok_def)
    qed (use assms(1,4) ab len in \<open>simp_all add: tree_ok_def\<close>)
    with Some show ?thesis by (simp add: remove_child_def)
  qed (use assms(1) in \<open>simp add: remove_child_def\<close>)
  with assms(1) show ?thesis by (simp add: detach_def)
qed

section \<open>What a step leaves alone\<close>

text \<open>Objects and errors stay.\<close>

definition grows :: "'v store \<Rightarrow> 'v store \<Rightarrow> bool" where
  "grows st st' \<longleftrightarrow> length (x_cores st) \<le> length (x_cores st') \<and>
     (\<forall>a < length (x_cores st). k_self (core_at st' a) = k_self (core_at st a) \<and>
        (k_err (core_at st a) \<noteq> None \<longrightarrow> k_err (core_at st' a) = k_err (core_at st a))) \<and>
     (\<forall>k. (x_others st' k = None) = (x_others st k = None) \<and>
        (\<forall>e. x_others st k = Some (Some e) \<longrightarrow> x_others st' k = Some (Some e)))"

lemma grows_refl [simp]: "grows st st"
  by (simp add: grows_def)

lemma grows_trans:
  assumes "grows a b" "grows b c"
  shows "grows a c"
proof -
  have l: "length (x_cores a) \<le> length (x_cores b)" "length (x_cores b) \<le> length (x_cores c)"
    using assms by (simp_all add: grows_def)
  have "k_self (core_at c x) = k_self (core_at a x) \<and> (k_err (core_at a x) \<noteq> None \<longrightarrow> k_err (core_at c x) = k_err (core_at a x))"
    if x: "x < length (x_cores a)" for x
  proof -
    have "x < length (x_cores b)" using x l by simp
    with assms(2) have "k_self (core_at c x) = k_self (core_at b x)"
      "k_err (core_at b x) \<noteq> None \<longrightarrow> k_err (core_at c x) = k_err (core_at b x)" by (simp_all add: grows_def)
    moreover have "k_self (core_at b x) = k_self (core_at a x)"
      "k_err (core_at a x) \<noteq> None \<longrightarrow> k_err (core_at b x) = k_err (core_at a x)" using x assms(1) by (simp_all add: grows_def)
    ultimately show ?thesis by auto
  qed
  with l assms show ?thesis by (simp add: grows_def)
qed

lemma grows_wf: "grows st st' \<Longrightarrow> wf_cxt st c \<Longrightarrow> wf_cxt st' c"
  by (induction c) (auto simp: is_object_def grows_def)

lemma grows_core: "grows st st' \<Longrightarrow> a < length (x_cores st) \<Longrightarrow> k_err (core_at st a) = Some e \<Longrightarrow> k_err (core_at st' a) = Some e"
  unfolding grows_def by (metis option.distinct(1))

lemma grows_other: "grows st st' \<Longrightarrow> x_others st k = Some (Some e) \<Longrightarrow> x_others st' k = Some (Some e)"
  by (simp add: grows_def)

lemma grows_Err: "grows st st' \<Longrightarrow> wf_cxt st c \<Longrightarrow> Err st c = Some e \<Longrightarrow> Err st' c = Some e"
  by (induction c) (auto simp: is_object_def split: option.splits dest: grows_core grows_other)

lemma grows_cancel_set: "grows st (cancel_set e X st)"
  by (simp add: grows_def live_def mark_def)

lemma remove_child_cores:
  "length (x_cores (remove_child b p st)) = length (x_cores st)"
  "k_self (core_at (remove_child b p st) a) = k_self (core_at st a)"
  "k_err (core_at (remove_child b p st) a) = k_err (core_at st a)"
  "k_closed (core_at (remove_child b p st) a) = k_closed (core_at st a)"
  "x_others (remove_child b p st) = x_others st" "x_watchers (remove_child b p st) = x_watchers st"
  "x_now (remove_child b p st) = x_now st" "x_deadline (remove_child b p st) = x_deadline st"
proof -
  have u: "f ((x_cores st)[i := (core_at st i)\<lparr>k_children := cs\<rparr>] ! a) = f (core_at st a)"
    if "\<And>k cs. f (k\<lparr>k_children := cs\<rparr>) = f k" for f :: "'a core \<Rightarrow> 'c" and i cs
  proof (cases "i < length (x_cores st)")
    case True
    then show ?thesis using that by (cases "i = a") simp_all
  next
    case False
    then show ?thesis by (simp add: list_update_beyond)
  qed
  show "length (x_cores (remove_child b p st)) = length (x_cores st)"
    "k_self (core_at (remove_child b p st) a) = k_self (core_at st a)"
    "k_err (core_at (remove_child b p st) a) = k_err (core_at st a)"
    "k_closed (core_at (remove_child b p st) a) = k_closed (core_at st a)"
    "x_others (remove_child b p st) = x_others st" "x_watchers (remove_child b p st) = x_watchers st"
    "x_now (remove_child b p st) = x_now st" "x_deadline (remove_child b p st) = x_deadline st"
    by (simp_all add: remove_child_def u [of k_self] u [of k_err] u [of k_closed] split: option.split)
qed

lemma detach_cores:
  "length (x_cores (detach rm b st st')) = length (x_cores st')"
  "k_self (core_at (detach rm b st st') a) = k_self (core_at st' a)"
  "k_err (core_at (detach rm b st st') a) = k_err (core_at st' a)"
  "k_closed (core_at (detach rm b st st') a) = k_closed (core_at st' a)"
  "x_others (detach rm b st st') = x_others st'" "x_watchers (detach rm b st st') = x_watchers st'"
  "x_now (detach rm b st st') = x_now st'" "x_deadline (detach rm b st st') = x_deadline st'"
  by (simp_all add: detach_def remove_child_cores)

text \<open>One call of \<open>cancel\<close>, on a tree where only the object itself may be out of step with its parent.\<close>

lemma cancel_ok:
  assumes "fair ord" "tree_but b st"
  shows "\<exists>st'. cancel ord (k_self (core_at st b)) rm (Some e) st = Inr st' \<and> tree_ok st' \<and> grows st st' \<and>
    length (x_cores st') = length (x_cores st) \<and>
    (\<forall>a < length (x_cores st). k_err (core_at st' a) =
       (if below st b a \<and> live st a then Some e else k_err (core_at st a))) \<and>
    x_others st' = x_others st \<and> x_watchers st' = x_watchers st \<and> x_now st' = x_now st \<and> x_deadline st' = x_deadline st"
proof -
  let ?X = "{y. below st b y}"
  let ?st = "detach rm b st (cancel_set e ?X st)"
  have b: "selfs_ok st" "b < length (x_cores st)" using assms(2) by (simp_all add: tree_but_def)
  have "cancel ord (k_self (core_at st b)) rm (Some e) st = Inr ?st"
    by (rule cancel_effect [OF assms(1) tree_but_subtree [OF assms(2)]])
  moreover have "tree_ok ?st"
    using tree_detach [OF tree_cancel_set [OF assms(2)] same_selfs_cancel_set b] b(2)
    by (simp add: live_cancel_set below_self)
  moreover have "grows st ?st" using grows_cancel_set [of st e ?X] by (simp add: grows_def detach_cores)
  ultimately show ?thesis by (simp add: detach_cores mark_def)
qed

section \<open>A new context\<close>

definition new_object :: "'v store \<Rightarrow> 'v cxt \<Rightarrow> 'v cxt \<Rightarrow> bool" where
  "new_object st p c \<longleftrightarrow> c = CancelCtx (length (x_cores st)) p \<or> (\<exists>d. c = TimerCtx (length (x_cores st)) d p)"

lemma alloc_simps [simp]:
  "length (x_cores (alloc c st)) = Suc (length (x_cores st))"
  "core_at (alloc c st) (length (x_cores st)) = newCancelCtx c"
  "a < length (x_cores st) \<Longrightarrow> core_at (alloc c st) a = core_at st a"
  "x_others (alloc c st) = x_others st" "x_watchers (alloc c st) = x_watchers st"
  "x_now (alloc c st) = x_now st" "x_deadline (alloc c st) = x_deadline st"
  by (simp_all add: alloc_def nth_append)

lemma grows_alloc: "grows st (alloc c st)"
  by (simp add: grows_def)

lemma alloc_ok:
  assumes "tree_ok st" "wf_cxt st p" "new_object st p c"
  shows "tree_but (length (x_cores st)) (alloc c st)" "par (alloc c st) (length (x_cores st)) = parentCancelCtx p"
    "wf_cxt (alloc c st) c" "x \<le> length (x_cores st) \<Longrightarrow> below (alloc c st) (length (x_cores st)) x \<Longrightarrow> x = length (x_cores st)"
proof -
  let ?n = "length (x_cores st)" and ?st = "alloc c st"
  have S: "selfs_ok st" using assms(1) by (simp add: tree_ok_def)
  have old: "par ?st x = par st x" if "x < ?n" for x using that by (simp add: par_def)
  show new: "par ?st ?n = parentCancelCtx p" using assms(3) by (auto simp: par_def newCancelCtx_def new_object_def)
  note mono = grows_wf [OF grows_alloc [of st c]]
  show wf: "wf_cxt ?st c" using assms(3) mono [OF assms(2)]
    by (auto simp: new_object_def is_object_def newCancelCtx_def)
  have self: "self_ok ?st x" if x: "x < Suc ?n" for x
  proof (cases "x = ?n")
    case True
    with wf new assms(3) parentCancelCtx_wf [OF assms(2)] show ?thesis
      by (auto simp: self_ok_def newCancelCtx_def new_object_def)
  next
    case False
    with x have x': "x < ?n" by simp
    with S have "self_ok st x" by (simp add: selfs_ok_def)
    with x' mono show ?thesis by (simp add: self_ok_def old)
  qed
  then have S': "selfs_ok ?st" by (simp add: selfs_ok_def)
  have core: "core_ok ?st x" if x: "x < Suc ?n" for x
  proof (cases "x = ?n")
    case False
    with x have x': "x < ?n" by simp
    with assms(1) have ok: "core_ok st x" by (simp add: tree_ok_def)
    have "\<exists>y. is_object ?st y c' \<and> par ?st y = Some x" if "c' \<in> set (k_children (core_at st x))" for c'
    proof -
      obtain y where "is_object st y c'" "par st y = Some x" using ok \<open>c' \<in> _\<close> by (auto simp: core_ok_def)
      then have "is_object ?st y c' \<and> par ?st y = Some x" by (simp add: is_object_def old)
      then show ?thesis ..
    qed
    with ok x' show ?thesis by (simp add: core_ok_def)
  qed (simp add: core_ok_def newCancelCtx_def)
  have link: "link_ok ?st x" if x: "x < ?n" for x
  proof -
    have lk: "link_ok st x" using assms(1) x by (simp add: tree_ok_def)
    have "z < ?n" if "par st x = Some z" for z using par_less [OF S x that] x by simp
    with lk x show ?thesis by (simp add: link_ok_def old live_def)
  qed
  show "tree_but ?n ?st" using S' core link by (simp add: tree_but_def)
  show "x = ?n" if "x \<le> ?n" "below ?st ?n x"
    using below_less [OF S' that(2)] that(1) by simp
qed

lemma Done_parent: "wf_cxt st p \<Longrightarrow> parentCancelCtx p = Some a \<Longrightarrow> Done st' p \<noteq> None"
  by (induction p) auto

text \<open>Whatever the parent is, the new context joins the tree, canceled if its parent is.\<close>

text \<open>The three cases of \<open>propagateCancel\<close>: no parent with a core, a canceled one, one that takes the child.\<close>

definition propagated :: "'v store \<Rightarrow> 'v cxt \<Rightarrow> 'v cxt \<Rightarrow> 'v store \<Rightarrow> bool" where
  "propagated st p c st' \<longleftrightarrow> tree_ok st' \<and> grows st st' \<and> wf_cxt st' c \<and>
     length (x_cores st') = Suc (length (x_cores st)) \<and>
     k_err (core_at st' (length (x_cores st))) =
       (case parentCancelCtx p of None \<Rightarrow> None | Some a \<Rightarrow> k_err (core_at st a)) \<and>
     (\<forall>a < length (x_cores st). k_err (core_at st' a) = k_err (core_at st a)) \<and>
     k_self (core_at st' (length (x_cores st))) = c \<and>
     x_others st' = x_others st \<and> x_now st' = x_now st \<and> x_deadline st' = x_deadline st \<and>
     set (x_watchers st') \<subseteq> insert (p, c) (set (x_watchers st))"

lemma propagate_watched:
  assumes "tree_ok st" "wf_cxt st p" "new_object st p c" and None: "parentCancelCtx p = None"
  shows "\<exists>st'. propagateCancel ord p c (alloc c st) = Inr st' \<and> propagated st p c st'"
proof -
  let ?st = "alloc c st"
  let ?w = "?st\<lparr>x_watchers := (p, c) # x_watchers ?st\<rparr>"
  note A = alloc_ok [OF assms(1-3)]
  have plain: "tree_ok ?st"
    using A(1,2) None by (auto simp: tree_but_def tree_ok_def link_ok_def less_Suc_eq)
  have same: "same_selfs ?st ?w" by (rule same_selfs_map) simp_all
  have "tree_ok ?w"
    using plain core_ok_cong [OF same] same_selfs_simps [OF same] by (simp add: tree_ok_def link_ok_def live_def)
  moreover have "grows st ?w" using grows_alloc [of st c] by (simp add: grows_def)
  moreover have "wf_cxt ?w c" using A(3) same_selfs_simps(3) [OF same] by simp
  ultimately show ?thesis
    using None plain grows_alloc [of st c] A(3) by (auto simp: propagateCancel_def propagated_def newCancelCtx_def)
qed

lemma propagate_dead:
  assumes "fair ord" "tree_ok st" "wf_cxt st p" "new_object st p c" and Some: "parentCancelCtx p = Some a" "\<not> live st a"
  shows "\<exists>st'. propagateCancel ord p c (alloc c st) = Inr st' \<and> propagated st p c st'"
proof -
  let ?n = "length (x_cores st)" and ?st = "alloc c st"
  note A = alloc_ok [OF assms(2-4)]
  have g: "grows st ?st" by (rule grows_alloc)
  have c: "k_self (core_at ?st ?n) = c" and e: "k_err (core_at ?st ?n) = None" by (simp_all add: newCancelCtx_def)
  have a: "a < ?n" and dn: "Done ?st p \<noteq> None" using parentCancelCtx_wf Done_parent assms(3) Some(1) by blast+
  obtain e' where e': "k_err (core_at st a) = Some e'" using Some(2) by (auto simp: live_def)
  from cancel_ok [OF assms(1) A(1), of False e'] obtain st' where st':
    "cancel ord c False (Some e') ?st = Inr st'" "tree_ok st'" "grows ?st st'" "length (x_cores st') = Suc ?n"
    "\<forall>x < Suc ?n. k_err (core_at st' x) = (if below ?st ?n x \<and> live ?st x then Some e' else k_err (core_at ?st x))"
    "x_others st' = x_others st" "x_watchers st' = x_watchers st" "x_now st' = x_now st" "x_deadline st' = x_deadline st"
    unfolding c by auto
  have "propagateCancel ord p c ?st = Inr st'" using dn Some e' a st'(1) by (auto simp: propagateCancel_def)
  moreover have "k_err (core_at st' ?n) = Some e'" using st'(5) e by (simp add: below_self live_def)
  moreover have "k_err (core_at st' x) = k_err (core_at st x)" if "x < ?n" for x
    using st'(5) that A(4) [of x] by auto
  moreover have "k_self (core_at st' ?n) = c" using st'(3) c by (simp add: grows_def)
  ultimately show ?thesis
    using st' grows_trans [OF g st'(3)] grows_wf [OF st'(3) A(3)] Some e' by (auto simp: propagated_def)
qed

lemma tree_new_child:
  assumes "tree_ok st" "wf_cxt st p" "new_object st p c" and Some: "parentCancelCtx p = Some a" "live st a"
  defines "st1 \<equiv> alloc c st"
  shows "tree_ok (set_core a ((core_at st1 a)\<lparr>k_children := List.insert c (k_children (core_at st1 a))\<rparr>) st1)"
proof -
  let ?n = "length (x_cores st)" and ?cs = "List.insert c (k_children (core_at st1 a))"
  note A = alloc_ok [OF assms(1-3), folded st1_def]
  have c: "k_self (core_at st1 ?n) = c" by (simp add: newCancelCtx_def st1_def)
  have a: "a < ?n" by (rule parentCancelCtx_wf [OF assms(2) Some(1)])
  have lv: "live st1 a" using Some(2) a by (simp add: live_def st1_def)
  have ch: "\<forall>c' \<in> set ?cs. \<exists>x. is_object st1 x c' \<and> par st1 x = Some a"
  proof
    fix c'
    assume "c' \<in> set ?cs"
    then consider "c' = c" | "c' \<in> set (k_children (core_at st1 a))" by auto
    then show "\<exists>x. is_object st1 x c' \<and> par st1 x = Some a"
    proof cases
      case 1
      with A(2) Some c show ?thesis by (intro exI [of _ ?n]) (simp add: is_object_def st1_def)
    next
      case 2
      with A(1) a show ?thesis by (simp add: tree_but_def core_ok_def st1_def)
    qed
  qed
  show ?thesis
  proof (rule tree_children [OF _ _ _ ch])
    fix x
    assume x: "x < length (x_cores st1)"
    show "par st1 x \<noteq> Some a \<Longrightarrow> link_ok st1 x"
      using A(1,2) Some x by (cases "x = ?n") (simp_all add: tree_but_def st1_def)
    show "(\<not> live st1 a \<longrightarrow> \<not> live st1 x) \<and> (live st1 a \<and> live st1 x \<longrightarrow> k_self (core_at st1 x) \<in> set ?cs)"
      if "par st1 x = Some a"
    proof (cases "x = ?n")
      case False
      with A(1) x have "link_ok st1 x" by (simp add: tree_but_def)
      with that lv show ?thesis by (simp add: link_ok_def)
    qed (use c lv in simp)
  qed (use A(1) a lv in \<open>simp_all add: tree_but_def st1_def\<close>)
qed

lemma propagate_live:
  assumes "tree_ok st" "wf_cxt st p" "new_object st p c" and Some: "parentCancelCtx p = Some a" "live st a"
  shows "\<exists>st'. propagateCancel ord p c (alloc c st) = Inr st' \<and> propagated st p c st'"
proof -
  let ?st = "alloc c st"
  let ?k = "(core_at ?st a)\<lparr>k_children := List.insert c (k_children (core_at ?st a))\<rparr>"
  note A = alloc_ok [OF assms(1-3)]
  have a: "a < length (x_cores st)" and dn: "Done ?st p \<noteq> None"
    using parentCancelCtx_wf Done_parent assms(2) Some(1) by blast+
  have "propagateCancel ord p c ?st = Inr (set_core a ?k ?st)"
    using dn Some a by (auto simp: propagateCancel_def live_def)
  moreover have "grows st (set_core a ?k ?st)" using a by (auto simp: grows_def nth_list_update)
  moreover have "wf_cxt (set_core a ?k ?st) c"
    using A(3) same_selfs_simps(3) [OF same_selfs_set_core [of ?k ?st a]] by simp
  ultimately show ?thesis
    using tree_new_child [OF assms] a Some
    by (auto simp: propagated_def nth_list_update live_def newCancelCtx_def)
qed

lemma propagate_ok:
  assumes "fair ord" "tree_ok st" "wf_cxt st p" "new_object st p c"
  shows "\<exists>st'. propagateCancel ord p c (alloc c st) = Inr st' \<and> propagated st p c st'"
  using propagate_watched [OF assms(2-4)] propagate_dead [OF assms] propagate_live [OF assms(2-4)]
  by (cases "parentCancelCtx p") blast+

section \<open>The operations\<close>

definition sys_ok :: "'v store \<Rightarrow> bool" where
  "sys_ok st \<longleftrightarrow> tree_ok st \<and>
     (\<forall>(p, c) \<in> set (x_watchers st). wf_cxt st p \<and> wf_cxt st c \<and> own_addr c \<noteq> None)"

definition parent_err :: "'v store \<Rightarrow> 'v cxt \<Rightarrow> ctx_err option" where
  "parent_err st p = (case parentCancelCtx p of None \<Rightarrow> None | Some a \<Rightarrow> k_err (core_at st a))"

lemma wf_object: "wf_cxt st c \<Longrightarrow> own_addr c = Some b \<Longrightarrow> b < length (x_cores st) \<and> k_self (core_at st b) = c"
  by (cases c) (auto simp: is_object_def)

lemma Deadline_cong: "x_deadline st' = x_deadline st \<Longrightarrow> Deadline st' c = Deadline st c"
  by (induction c) simp_all

lemma watchers_grow:
  assumes "sys_ok st" "grows st st'" "set (x_watchers st') \<subseteq> set (x_watchers st)" "tree_ok st'"
  shows "sys_ok st'"
  using assms grows_wf [OF assms(2)] by (fastforce simp: sys_ok_def)

lemma watchers_join:
  assumes "sys_ok st" "grows st st'" "set (x_watchers st') \<subseteq> insert (p, c) (set (x_watchers st))" "tree_ok st'"
    "wf_cxt st p" "wf_cxt st' c" "new_object st p c"
  shows "sys_ok st'"
proof -
  have "wf_cxt st' q \<and> wf_cxt st' d \<and> own_addr d \<noteq> None" if "(q, d) \<in> set (x_watchers st')" for q d
  proof (cases "(q, d) = (p, c)")
    case True
    with grows_wf [OF assms(2,5)] assms(6,7) show ?thesis by (auto simp: new_object_def)
  next
    case False
    with that assms(3) have "(q, d) \<in> set (x_watchers st)" by auto
    with assms(1) grows_wf [OF assms(2)] show ?thesis by (auto simp: sys_ok_def)
  qed
  with assms(4) show ?thesis by (auto simp: sys_ok_def)
qed

lemma WithCancel_ok:
  assumes "fair ord" "sys_ok st" "wf_cxt st p"
  shows "\<exists>st'. WithCancel ord p st = Inr (CancelCtx (length (x_cores st)) p, st') \<and> sys_ok st' \<and> grows st st' \<and>
    wf_cxt st' (CancelCtx (length (x_cores st)) p) \<and> k_err (core_at st' (length (x_cores st))) = parent_err st p \<and>
    x_deadline st' = x_deadline st"
proof -
  let ?c = "CancelCtx (length (x_cores st)) p"
  have n: "new_object st p ?c" and t: "tree_ok st" using assms(2) by (simp_all add: new_object_def sys_ok_def)
  from propagate_ok [OF assms(1) t assms(3) n] obtain st' where
    "propagateCancel ord p ?c (alloc ?c st) = Inr st'" "tree_ok st'" "grows st st'" "wf_cxt st' ?c"
    "k_err (core_at st' (length (x_cores st))) = parent_err st p" "x_deadline st' = x_deadline st"
    "set (x_watchers st') \<subseteq> insert (p, ?c) (set (x_watchers st))"
    unfolding parent_err_def propagated_def by blast
  with watchers_join [OF assms(2) _ _ _ assms(3) _ n] show ?thesis by (simp add: WithCancel_def Let_def)
qed

lemma start_timer_ok:
  assumes "tree_ok st" "a < length (x_cores st)" "k_self (core_at st a) = TimerCtx a d p"
  shows "tree_ok (start_timer a st)" "grows st (start_timer a st)" "wf_cxt (start_timer a st) c = wf_cxt st c"
    "k_err (core_at (start_timer a st) b) = k_err (core_at st b)" "x_watchers (start_timer a st) = x_watchers st"
    "x_deadline (start_timer a st) = x_deadline st"
proof -
  let ?st = "set_core a ((core_at st a)\<lparr>k_timer := True\<rparr>) st"
  have same: "same_selfs st ?st" by (rule same_selfs_set_core) simp
  note simps = same_selfs_simps [OF same]
  have core: "core_ok ?st x" if "x < length (x_cores st)" "live st a" for x
  proof (cases "x = a")
    case True
    have "core_ok st a" using assms(1,2) by (simp add: tree_ok_def)
    with True that assms(2,3) show ?thesis by (auto simp: core_ok_def simps live_def)
  next
    case False
    with core_ok_cong [OF same, of x] that(1) assms(1) show ?thesis by (simp add: tree_ok_def)
  qed
  have eq: "k_err (core_at ?st x) = k_err (core_at st x)" "k_children (core_at ?st x) = k_children (core_at st x)"
    "k_self (core_at ?st x) = k_self (core_at st x)" for x
    using assms(2) by (cases "x = a", simp_all)+
  have link: "link_ok ?st x = link_ok st x" for x
    unfolding link_ok_def live_def eq simps by simp
  show "tree_ok (start_timer a st)" using assms(1) core link
    by (auto simp: start_timer_def tree_ok_def simps live_def)
  show "grows st (start_timer a st)" using eq by (simp add: start_timer_def grows_def)
  show "wf_cxt (start_timer a st) c = wf_cxt st c" by (simp add: start_timer_def simps)
  show "k_err (core_at (start_timer a st) b) = k_err (core_at st b)" using eq by (simp add: start_timer_def)
  show "x_watchers (start_timer a st) = x_watchers st" "x_deadline (start_timer a st) = x_deadline st"
    by (simp_all add: start_timer_def)
qed

lemma WithDeadline_ok:
  assumes "fair ord" "sys_ok st" "wf_cxt st p"
  shows "\<exists>c st'. WithDeadline ord p d st = Inr (c, st') \<and> sys_ok st' \<and> grows st st' \<and> wf_cxt st' c \<and> parent_of c = p \<and>
    own_addr c = Some (length (x_cores st)) \<and>
    Deadline st' c = Some (case Deadline st p of None \<Rightarrow> d | Some cur \<Rightarrow> min cur d) \<and>
    Err st' c = (case parent_err st p of Some e \<Rightarrow> Some e | None \<Rightarrow>
      if (case Deadline st p of Some cur \<Rightarrow> d \<le> cur | None \<Rightarrow> True) \<and> d \<le> x_now st then Some DeadlineExceeded else None)"
proof (cases "case Deadline st p of Some cur \<Rightarrow> cur < d | None \<Rightarrow> False")
  case True
  then obtain cur where cur: "Deadline st p = Some cur" "cur < d" by (auto split: option.splits)
  from WithCancel_ok [OF assms] obtain st' where
    "WithCancel ord p st = Inr (CancelCtx (length (x_cores st)) p, st')" "sys_ok st'" "grows st st'"
    "wf_cxt st' (CancelCtx (length (x_cores st)) p)" "k_err (core_at st' (length (x_cores st))) = parent_err st p"
    "x_deadline st' = x_deadline st" by blast
  with cur Deadline_cong [of st' st p] show ?thesis by (auto simp: WithDeadline_def split: option.split)
next
  case False
  let ?n = "length (x_cores st)"
  let ?c = "TimerCtx ?n d p"
  have dl: "(case Deadline st p of None \<Rightarrow> d | Some cur \<Rightarrow> min cur d) = d"
    "case Deadline st p of Some cur \<Rightarrow> d \<le> cur | None \<Rightarrow> True" using False by (auto split: option.splits)
  have n: "new_object st p ?c" and t: "tree_ok st" using assms(2) by (simp_all add: new_object_def sys_ok_def)
  from propagate_ok [OF assms(1) t assms(3) n] obtain st1 where s1:
    "propagateCancel ord p ?c (alloc ?c st) = Inr st1" "tree_ok st1" "grows st st1" "wf_cxt st1 ?c" "length (x_cores st1) = Suc ?n"
    "k_err (core_at st1 ?n) = parent_err st p" "k_self (core_at st1 ?n) = ?c"
    "x_now st1 = x_now st" "x_deadline st1 = x_deadline st" "set (x_watchers st1) \<subseteq> insert (p, ?c) (set (x_watchers st))"
    unfolding parent_err_def propagated_def by blast
  have ok1: "sys_ok st1" by (rule watchers_join [OF assms(2) s1(3,10,2) assms(3) s1(4) n])
  show ?thesis
  proof (cases "d \<le> x_now st")
    case True
    from cancel_ok [OF assms(1) tree_but_tree [OF s1(2)], of ?n True DeadlineExceeded] s1(5) obtain st2 where s2:
      "cancel ord ?c True (Some DeadlineExceeded) st1 = Inr st2" "tree_ok st2" "grows st1 st2"
      "k_err (core_at st2 ?n) = (if live st1 ?n then Some DeadlineExceeded else k_err (core_at st1 ?n))"
      "x_watchers st2 = x_watchers st1" "x_deadline st2 = x_deadline st1"
      unfolding s1(7) by (auto simp: below_self)
    have "sys_ok st2" by (rule watchers_grow [OF ok1 s2(3) _ s2(2)]) (simp add: s2(5))
    moreover have "Err st2 ?c = (case parent_err st p of Some e \<Rightarrow> Some e | None \<Rightarrow> Some DeadlineExceeded)"
      using s2(4) s1(6) by (auto simp: live_def split: option.split)
    ultimately show ?thesis
      using False True s1(1,8) s2(1,3) dl grows_trans [OF s1(3) s2(3)] grows_wf [OF s2(3) s1(4)]
      by (auto simp: WithDeadline_def Let_def split: option.splits)
  next
    case late: False
    note T = start_timer_ok [OF s1(2) _ s1(7), simplified s1(5), simplified]
    have "sys_ok (start_timer ?n st1)" by (rule watchers_grow [OF ok1 T(2) _ T(1)]) (simp add: T(5))
    moreover have "Err (start_timer ?n st1) ?c = parent_err st p" using T(4) s1(6) by simp
    ultimately show ?thesis
      using False late s1(1,8) dl grows_trans [OF s1(3) T(2)] T(3) s1(4)
      by (auto simp: WithDeadline_def Let_def split: option.splits)
  qed
qed

lemma cancel_sys:
  assumes "fair ord" "sys_ok st" "wf_cxt st c" "own_addr c = Some b"
  shows "\<exists>st'. cancel ord c rm (Some e) st = Inr st' \<and> sys_ok st' \<and> grows st st' \<and>
    (\<forall>a < length (x_cores st). k_err (core_at st' a) =
       (if below st b a \<and> live st a then Some e else k_err (core_at st a))) \<and> x_others st' = x_others st"
proof -
  have b: "b < length (x_cores st)" "k_self (core_at st b) = c" using wf_object [OF assms(3,4)] by auto
  have t: "tree_ok st" using assms(2) by (simp add: sys_ok_def)
  from cancel_ok [OF assms(1) tree_but_tree [OF t b(1)], of rm e] obtain st' where
    "cancel ord c rm (Some e) st = Inr st'" "tree_ok st'" "grows st st'" "x_watchers st' = x_watchers st"
    "x_others st' = x_others st"
    "\<forall>a < length (x_cores st). k_err (core_at st' a) = (if below st b a \<and> live st a then Some e else k_err (core_at st a))"
    unfolding b(2) by blast
  with watchers_grow [OF assms(2), of st'] show ?thesis by simp
qed

section \<open>Programs that use contexts\<close>

text \<open>
  What may happen next: the program derives a context from one it holds or calls a function to
  cancel one, a timer fires, a goroutine of \<open>propagateCancel\<close> wakes up, time passes, or contexts of
  other packages are canceled. The order in which children are visited is another one each time.
\<close>

inductive ctx_step :: "'v store \<Rightarrow> 'v store \<Rightarrow> bool" for st where
  step_cancel: "fair ord \<Longrightarrow> wf_cxt st p \<Longrightarrow> WithCancel ord p st = Inr (c, st') \<Longrightarrow> ctx_step st st'"
| step_deadline: "fair ord \<Longrightarrow> wf_cxt st p \<Longrightarrow> WithDeadline ord p d st = Inr (c, st') \<Longrightarrow> ctx_step st st'"
| step_func: "fair ord \<Longrightarrow> wf_cxt st c \<Longrightarrow> own_addr c \<noteq> None \<Longrightarrow> CancelFunc ord c st = Inr st' \<Longrightarrow> ctx_step st st'"
| step_timer: "fair ord \<Longrightarrow> a < length (x_cores st) \<Longrightarrow> k_timer (core_at st a) \<Longrightarrow> timer_fires ord a st = Inr st' \<Longrightarrow>
    ctx_step st st'"
| step_watcher: "fair ord \<Longrightarrow> w \<in> set (x_watchers st) \<Longrightarrow> Err st (fst w) \<noteq> None \<or> Err st (snd w) \<noteq> None \<Longrightarrow>
    watcher_wakes ord w st = Inr st' \<Longrightarrow> ctx_step st st'"
| step_time: "x_now st \<le> t \<Longrightarrow> ctx_step st (st\<lparr>x_now := t\<rparr>)"
| step_others: "(\<And>k. (f k = None) = (x_others st k = None)) \<Longrightarrow>
    (\<And>k e. x_others st k = Some (Some e) \<Longrightarrow> f k = Some (Some e)) \<Longrightarrow> ctx_step st (st\<lparr>x_others := f\<rparr>)"

inductive ctx_reach :: "'v store \<Rightarrow> bool" where
  reach_start: "x_cores st = [] \<Longrightarrow> x_watchers st = [] \<Longrightarrow> ctx_reach st"
| reach_step: "ctx_reach st \<Longrightarrow> ctx_step st st' \<Longrightarrow> ctx_reach st'"

lemma same_cores:
  assumes "sys_ok st" "x_cores st' = x_cores st" "set (x_watchers st') \<subseteq> set (x_watchers st)"
  shows "sys_ok st'"
proof -
  have same: "same_selfs st st'" using assms(2) by (simp add: same_selfs_def)
  note simps = same_selfs_simps [OF same]
  have "core_ok st' a = core_ok st a" for a using core_ok_cong [OF same] assms(2) by simp
  moreover have "link_ok st' a = link_ok st a" for a using assms(2) by (simp add: link_ok_def live_def simps)
  ultimately show ?thesis using assms by (auto simp: sys_ok_def tree_ok_def simps)
qed

lemma watcher_ok:
  assumes "fair ord" "sys_ok st" "w \<in> set (x_watchers st)"
  shows "\<exists>st'. watcher_wakes ord w st = Inr st' \<and> sys_ok st' \<and> grows st st'"
proof -
  obtain p c where w: "w = (p, c)" by fastforce
  let ?st = "st\<lparr>x_watchers := remove1 w (x_watchers st)\<rparr>"
  have ok: "sys_ok ?st" by (rule same_cores [OF assms(2)]) (simp_all add: set_remove1_subset)
  have wf: "wf_cxt ?st c = wf_cxt st c" by (rule fun_cong [OF same_selfs_simps(3)]) (simp add: same_selfs_def)
  from assms(2,3) w obtain b where c: "wf_cxt st c" "own_addr c = Some b" by (auto simp: sys_ok_def)
  have g: "grows st ?st" by (simp add: grows_def)
  show ?thesis
  proof (cases "Err st p")
    case None
    with w ok g show ?thesis by (simp add: watcher_wakes_def)
  next
    case (Some e)
    from cancel_sys [OF assms(1) ok _ c(2), of False e] c(1) obtain st' where
      "cancel ord c False (Some e) ?st = Inr st'" "sys_ok st'" "grows ?st st'" by (auto simp: wf)
    with Some w grows_trans [OF g] show ?thesis by (auto simp: watcher_wakes_def)
  qed
qed

lemma timer_ok:
  assumes "fair ord" "sys_ok st" "a < length (x_cores st)"
  shows "\<exists>st'. timer_fires ord a st = Inr st' \<and> sys_ok st' \<and> grows st st'"
proof -
  have "self_ok st a" using assms(2,3) by (simp add: sys_ok_def tree_ok_def selfs_ok_def)
  then have "wf_cxt st (k_self (core_at st a))" "own_addr (k_self (core_at st a)) = Some a" by (simp_all add: self_ok_def)
  from cancel_sys [OF assms(1,2) this, of True DeadlineExceeded] show ?thesis by (auto simp: timer_fires_def)
qed

lemma ctx_step_ok:
  assumes "ctx_step st st'" "sys_ok st"
  shows "sys_ok st' \<and> grows st st'"
  using assms(1)
proof cases
  case (step_cancel ord p c)
  with WithCancel_ok [OF _ assms(2), of ord p] show ?thesis by auto
next
  case (step_deadline ord p d c)
  with WithDeadline_ok [OF _ assms(2), of ord p d] show ?thesis by auto
next
  case (step_func ord c)
  with cancel_sys [OF _ assms(2), of ord c _ True Canceled] show ?thesis by (auto simp: CancelFunc_def)
next
  case (step_timer ord a)
  with timer_ok [OF _ assms(2), of ord a] show ?thesis by auto
next
  case (step_watcher ord w)
  with watcher_ok [OF _ assms(2), of ord w] show ?thesis by auto
next
  case (step_time t)
  with same_cores [OF assms(2), of st'] show ?thesis by (simp add: grows_def)
next
  case (step_others f)
  with same_cores [OF assms(2), of st'] show ?thesis by (simp add: grows_def)
qed

lemma ctx_reach_ok: "ctx_reach st \<Longrightarrow> sys_ok st"
proof (induction rule: ctx_reach.induct)
  case (reach_start st)
  then show ?case by (simp add: sys_ok_def tree_ok_def selfs_ok_def)
next
  case (reach_step st st')
  with ctx_step_ok show ?case by blast
qed

section \<open>Properties\<close>

lemma Err_parent: "parentCancelCtx c = Some a \<Longrightarrow> Err st c = k_err (core_at st a)"
  by (induction c) auto

lemma Err_foreign: "parentCancelCtx c = None \<Longrightarrow> x_others st' = x_others st \<Longrightarrow> Err st' c = Err st c"
  by (induction c) auto


fun ancestors :: "'v cxt \<Rightarrow> 'v cxt list" where
  "ancestors (CancelCtx a p) = p # ancestors p"
| "ancestors (TimerCtx a d p) = p # ancestors p"
| "ancestors (ValueCtx p key val) = p # ancestors p"
| "ancestors c = []"

lemma dead_parent:
  assumes "sys_ok st" "wf_cxt st c" "own_addr c = Some b" "parentCancelCtx (parent_of c) = Some a" "k_err (core_at st a) \<noteq> None"
  shows "k_err (core_at st b) \<noteq> None"
proof -
  have b: "b < length (x_cores st)" "k_self (core_at st b) = c" using wf_object [OF assms(2,3)] by auto
  then have "par st b = Some a" using assms(4) by (simp add: par_def)
  moreover have "link_ok st b" using assms(1) b(1) by (simp add: sys_ok_def tree_ok_def)
  ultimately show ?thesis using assms(5) by (auto simp: link_ok_def live_def)
qed

lemma Err_parent_of:
  assumes "sys_ok st" "wf_cxt st c" "parentCancelCtx (parent_of c) = Some a" "parent_of c \<noteq> c" "Err st (parent_of c) \<noteq> None"
  shows "Err st c \<noteq> None"
proof (cases "own_addr c")
  case None
  with assms(3-5) show ?thesis by (cases c) auto
next
  case (Some b)
  have "Err st c = k_err (core_at st b)" using Some by (cases c) simp_all
  with dead_parent [OF assms(1,2) Some assms(3)] assms(5) Err_parent [OF assms(3), of st] show ?thesis by simp
qed

lemma parentCancelCtx_up:
  "p \<in> set (ancestors c) \<Longrightarrow> parentCancelCtx p \<noteq> None \<Longrightarrow> parentCancelCtx c \<noteq> None"
  by (induction c) auto

lemma Err_ancestor:
  "sys_ok st \<Longrightarrow> wf_cxt st c \<Longrightarrow> p \<in> set (ancestors c) \<Longrightarrow> parentCancelCtx p \<noteq> None \<Longrightarrow> Err st p \<noteq> None \<Longrightarrow> Err st c \<noteq> None"
proof (induction c)
  case (CancelCtx a q)
  then have "Err st q \<noteq> None" "parentCancelCtx q \<noteq> None" using parentCancelCtx_up [of p q] by auto
  with Err_parent_of [of st "CancelCtx a q"] CancelCtx.prems(1,2) show ?case by (auto dest: arg_cong [where f = size])
next
  case (TimerCtx a d q)
  then have "Err st q \<noteq> None" "parentCancelCtx q \<noteq> None" using parentCancelCtx_up [of p q] by auto
  with Err_parent_of [of st "TimerCtx a d q"] TimerCtx.prems(1,2) show ?case by (auto dest: arg_cong [where f = size])
qed auto


text \<open>
  C33: no operation of the package panics. In every program, deriving a context from any context that
  the program holds returns, calling its function to cancel returns, and so does what a timer or a
  goroutine of the package does: no channel is closed twice, no error is missing, the recursion ends.
\<close>

theorem context_ops_return:
  assumes "ctx_reach st" "fair ord" "wf_cxt st p"
  shows "(\<exists>r. WithCancel ord p st = Inr r) \<and> (\<exists>r. WithDeadline ord p d st = Inr r) \<and> (\<exists>r. WithTimeout ord p t st = Inr r) \<and>
    (own_addr p \<noteq> None \<longrightarrow> (\<exists>r. CancelFunc ord p st = Inr r)) \<and>
    (\<forall>a < length (x_cores st). \<exists>r. timer_fires ord a st = Inr r) \<and>
    (\<forall>w \<in> set (x_watchers st). \<exists>r. watcher_wakes ord w st = Inr r)"
proof -
  have ok: "sys_ok st" by (rule ctx_reach_ok [OF assms(1)])
  have "\<exists>r. CancelFunc ord p st = Inr r" if "own_addr p \<noteq> None"
    using that cancel_sys [OF assms(2) ok assms(3), of _ True Canceled] by (auto simp: CancelFunc_def)
  with WithCancel_ok [OF assms(2) ok assms(3)] WithDeadline_ok [OF assms(2) ok assms(3), of d]
    WithDeadline_ok [OF assms(2) ok assms(3), of "x_now st + t"] timer_ok [OF assms(2) ok] watcher_ok [OF assms(2) ok]
  show ?thesis unfolding WithTimeout_def by blast
qed


section \<open>Instances\<close>

text \<open>A context that can be canceled, with a child that has a deadline.\<close>

definition no_ctx :: "nat store" where
  "no_ctx = \<lparr>x_cores = [], x_others = (\<lambda>_. None), x_deadline = (\<lambda>_. None), x_value = (\<lambda>_ _. None), x_watchers = [], x_now = 0\<rparr>"

definition outer :: "nat cxt" where
  "outer = CancelCtx 0 Background"

definition inner :: "nat cxt" where
  "inner = TimerCtx 1 100 outer"

definition sample_tree :: "nat store" where
  "sample_tree = no_ctx\<lparr>x_cores :=
     [(newCancelCtx outer)\<lparr>k_children := [inner]\<rparr>, (newCancelCtx inner)\<lparr>k_timer := True\<rparr>]\<rparr>"

lemmas sample_defs = no_ctx_def outer_def inner_def sample_tree_def newCancelCtx_def

lemmas op_defs = WithCancel_def WithDeadline_def CancelFunc_def propagateCancel_def alloc_def start_timer_def cancel_def
  cancelCtx_cancel_def remove_child_def stop_timer_def Let_def

lemma fair_id: "fair (\<lambda>cs. cs)"
  by (simp add: fair_def)

lemma sample_reach: "ctx_reach sample_tree"
proof -
  let ?s = "no_ctx\<lparr>x_cores := [newCancelCtx outer]\<rparr>"
  have "WithCancel (\<lambda>cs. cs) Background no_ctx = Inr (outer, ?s)" by (simp add: op_defs sample_defs)
  then have "ctx_reach ?s" by (intro reach_step [OF reach_start step_cancel [OF fair_id]]) (auto simp: no_ctx_def)
  moreover have "WithDeadline (\<lambda>cs. cs) outer 100 ?s = Inr (inner, sample_tree)" by (simp add: op_defs sample_defs)
  moreover have "wf_cxt ?s outer" by (simp add: sample_defs is_object_def)
  ultimately show ?thesis by (blast intro: reach_step step_deadline fair_id)
qed

lemma sample_wf: "wf_cxt sample_tree outer" "wf_cxt sample_tree inner" "own_addr outer = Some 0" "own_addr inner = Some 1"
  by (simp_all add: sample_defs is_object_def)

lemma sample_below: "below sample_tree 0 1"
  by (rule below_par [OF _ below_self]) (simp add: par_def sample_defs)


definition canceled_tree :: "nat store" where
  "canceled_tree = no_ctx\<lparr>x_cores :=
     [(newCancelCtx outer)\<lparr>k_err := Some Canceled, k_closed := True\<rparr>,
      (newCancelCtx inner)\<lparr>k_err := Some Canceled, k_closed := True\<rparr>]\<rparr>"

lemma sample_canceled: "CancelFunc (\<lambda>cs. cs) outer sample_tree = Inr canceled_tree"
  by (simp add: op_defs sample_defs canceled_tree_def eval_nat_numeral)

lemma canceled_reach: "ctx_reach canceled_tree"
  by (rule reach_step [OF sample_reach step_func [OF fair_id sample_wf(1) _ sample_canceled]]) (simp add: sample_wf)


theorem context_ops_return_witness:
  "(\<exists>r. WithCancel (\<lambda>cs. cs) inner sample_tree = Inr r) \<and> (\<exists>r. timer_fires (\<lambda>cs. cs) 1 sample_tree = Inr r)"
proof -
  have "1 < length (x_cores sample_tree)" by (simp add: sample_defs)
  with context_ops_return [OF sample_reach fair_id sample_wf(2)] show ?thesis by blast
qed


text \<open>
  What \<open>timerCtx.cancel\<close> deletes from its parent's children is \<open>&c.cancelCtx\<close>, which was never there:
  a canceled context with a deadline stays in the map of its parent.
\<close>

lemma timer_child_leaks:
  "\<exists>st'. CancelFunc (\<lambda>cs. cs) inner sample_tree = Inr st' \<and> Err st' inner = Some Canceled \<and>
     k_children (core_at st' 0) = [inner]"
  by (simp add: op_defs sample_defs)

end
