(* ===== verification/Utf8.thy ===== *)
theory Utf8
  imports Prelude
begin

text \<open>
  Runes: what the validator uses of package \<open>unicode/utf8\<close>. A rune is a natural number; every byte that
  does not belong to a valid encoding reads as \<open>RuneError\<close>, so a string always has its runes.
\<close>

definition RuneError :: nat where "RuneError = 0xFFFD"
definition MaxRune :: nat where "MaxRune = 0x10FFFF"

abbreviation code :: "char \<Rightarrow> nat" where
  "code c \<equiv> of_char c"

definition continuation :: "char \<Rightarrow> bool" where
  "continuation c \<longleftrightarrow> 0x80 \<le> code c \<and> code c < 0xC0"

definition surrogate :: "nat \<Rightarrow> bool" where
  "surrogate r \<longleftrightarrow> 0xD800 \<le> r \<and> r \<le> 0xDFFF"

text \<open>\<open>utf8.DecodeRuneInString\<close>: the first rune and its width.\<close>

definition invalid :: "nat \<times> nat" where
  "invalid = (RuneError, 1)"

definition low :: "char \<Rightarrow> nat" where
  "low c = code c mod 64"

definition DecodeRuneInString :: "string \<Rightarrow> nat \<times> nat" where
  "DecodeRuneInString s =
     (case s of
        [] \<Rightarrow> (RuneError, 0)
      | c0 # t \<Rightarrow>
          if code c0 < 0x80 then (code c0, 1)
          else if code c0 < 0xC0 then invalid
          else
            (case t of
               [] \<Rightarrow> invalid
             | c1 # t \<Rightarrow>
                 if \<not> continuation c1 then invalid
                 else if code c0 < 0xE0 then
                   (let r = code c0 mod 32 * 64 + low c1 in if r < 0x80 then invalid else (r, 2))
                 else
                   (case t of
                      [] \<Rightarrow> invalid
                    | c2 # t \<Rightarrow>
                        if \<not> continuation c2 then invalid
                        else if code c0 < 0xF0 then
                          (let r = code c0 mod 16 * 4096 + low c1 * 64 + low c2
                           in if r < 0x800 \<or> surrogate r then invalid else (r, 3))
                        else
                          (case t of
                             [] \<Rightarrow> invalid
                           | c3 # t \<Rightarrow>
                               if \<not> continuation c3 then invalid
                               else if code c0 < 0xF8 then
                                 (let r = code c0 mod 8 * 262144 + low c1 * 4096 + low c2 * 64 + low c3
                                  in if r < 0x10000 \<or> MaxRune < r then invalid else (r, 4))
                               else invalid))))"

lemma decode_width: "s \<noteq> [] \<Longrightarrow> 0 < snd (DecodeRuneInString s) \<and> snd (DecodeRuneInString s) \<le> length s"
  by (auto simp: DecodeRuneInString_def invalid_def Let_def split: list.splits)

text \<open>The runes of a string, as \<open>range\<close> goes over them.\<close>

function runes :: "string \<Rightarrow> nat list" where
  "runes s = (if s = [] then [] else fst (DecodeRuneInString s) # runes (drop (snd (DecodeRuneInString s)) s))"
  by pat_completeness auto

termination
  by (relation "measure length") (use decode_width in auto)

declare runes.simps [simp del]

definition RuneCountInString :: "string \<Rightarrow> nat" where
  "RuneCountInString s = length (runes s)"

lemma runes_Nil [simp]: "runes [] = []"
  by (simp add: runes.simps)

lemma runes_ascii: "code c < 0x80 \<Longrightarrow> runes (c # s) = code c # runes s"
  by (subst runes.simps) (simp add: DecodeRuneInString_def)

lemma runes_all_ascii: "list_all (\<lambda>c. code c < 0x80) s \<Longrightarrow> runes s = map code s"
  by (induction s) (simp_all add: runes_ascii)

lemma rune_count_bound: "RuneCountInString s \<le> length s"
proof (induction s rule: runes.induct)
  case (1 s)
  show ?case
  proof (cases "s = []")
    case False
    with 1 decode_width [OF False] show ?thesis
      by (subst RuneCountInString_def, subst runes.simps) (auto simp: RuneCountInString_def)
  qed (simp add: RuneCountInString_def)
qed

lemma rune_count_ascii: "list_all (\<lambda>c. code c < 0x80) s \<Longrightarrow> RuneCountInString s = length s"
  by (simp add: RuneCountInString_def runes_all_ascii)

text \<open>\<open>strings.ContainsRune\<close> and \<open>strings.ContainsAny\<close>.\<close>

definition ContainsRune :: "string \<Rightarrow> nat \<Rightarrow> bool" where
  "ContainsRune s r \<longleftrightarrow> r \<in> set (runes s)"

definition ContainsAny :: "string \<Rightarrow> string \<Rightarrow> bool" where
  "ContainsAny s chars \<longleftrightarrow> list_ex (\<lambda>r. r \<in> set (runes chars)) (runes s)"

text \<open>A string is ASCII if and only if its runes are.\<close>

lemma ascii_runes: "list_all (\<lambda>r. r < 0x80) (runes s) \<longleftrightarrow> list_all (\<lambda>c. code c < 0x80) s"
proof (induction s rule: runes.induct)
  case (1 s)
  show ?case
  proof (cases s)
    case (Cons c t)
    show ?thesis
    proof (cases "code c < 0x80")
      case True
      with 1 Cons show ?thesis by (simp add: runes_ascii DecodeRuneInString_def)
    next
      case False
      with Cons have "\<not> fst (DecodeRuneInString s) < 0x80"
        by (auto simp: DecodeRuneInString_def invalid_def RuneError_def Let_def split: list.splits)
      with Cons False show ?thesis unfolding Cons by (subst runes.simps) simp
    qed
  qed simp
qed

end
