(* ===== verification/Reflect.thy ===== *)
theory Reflect
  imports GoStrings Utf8
begin

text \<open>
  Values as package \<open>reflect\<close> shows them to the validator: their types and kinds, the methods of
  \<open>reflect.Value\<close> with their panics, and the comparison of interface values. An \<open>interface{}\<close> is an
  option, whose \<open>None\<close> is nil; it never holds an interface value itself. Values are finite trees, so
  no pointer leads back to a value that contains it. Named types are those of structs and \<open>time.Time\<close>.
\<close>

section \<open>Types\<close>

text \<open>
  A field with its name, whether it is exported, and its tag as the list of its keys and values; a
  struct type is identified by the whole record.
\<close>

record field_info =
  fi_Name :: string
  fi_exported :: bool
  fi_Tag :: "(string \<times> string) list"

record struct_type =
  st_id :: nat
  st_Name :: string
  st_fields :: "field_info list"
  st_comparable :: bool

text \<open>The numbers are widths in bits, 0 for \<open>int\<close> and \<open>uint\<close>.\<close>

datatype kind =
    Invalid | KBool | KInt nat | KUint nat | KFloat nat | KString | KSlice | KArray | KMap | KPtr | KInterface
  | KStruct | KOther

datatype rtype =
    RBool | RInt nat | RUint nat | RFloat nat | RString | RSlice rtype | RArray nat rtype | RMap rtype rtype
  | RPtr rtype | RInterface | RTime | RStruct struct_type | ROther

fun kind_of_type :: "rtype \<Rightarrow> kind" where
  "kind_of_type RBool = KBool"
| "kind_of_type (RInt b) = KInt b"
| "kind_of_type (RUint b) = KUint b"
| "kind_of_type (RFloat b) = KFloat b"
| "kind_of_type RString = KString"
| "kind_of_type (RSlice t) = KSlice"
| "kind_of_type (RArray n t) = KArray"
| "kind_of_type (RMap k t) = KMap"
| "kind_of_type (RPtr t) = KPtr"
| "kind_of_type RInterface = KInterface"
| "kind_of_type RTime = KStruct"
| "kind_of_type (RStruct st) = KStruct"
| "kind_of_type ROther = KOther"

text \<open>\<open>Type.Elem\<close>, a panic for types without elements.\<close>

fun type_Elem :: "rtype \<Rightarrow> rtype go" where
  "type_Elem (RSlice t) = Inr t"
| "type_Elem (RArray n t) = Inr t"
| "type_Elem (RMap k t) = Inr t"
| "type_Elem (RPtr t) = Inr t"
| "type_Elem t = Inl ''reflect: Elem of invalid type''"

section \<open>Values\<close>

text \<open>
  The entries of a map are listed in the order in which \<open>MapKeys\<close> happens to return them. A time is its
  instant and the address of its location, 0 for nil.
\<close>

datatype 'f rval =
    BoolV bool
  | IntV nat int
  | UintV nat nat
  | FloatV nat 'f
  | StringV string
  | SliceV rtype "'f rval list"
  | ArrayV rtype "'f rval list"
  | MapV rtype rtype "('f rval \<times> 'f rval) list"
  | PtrV rtype "'f rval option"
  | InterfaceV "'f rval option"
  | TimeV int nat
  | StructV struct_type "'f rval list"
  | OtherV

type_synonym 'f iface = "'f rval option"

fun type_of :: "'f rval \<Rightarrow> rtype" where
  "type_of (BoolV b) = RBool"
| "type_of (IntV w i) = RInt w"
| "type_of (UintV w n) = RUint w"
| "type_of (FloatV w x) = RFloat w"
| "type_of (StringV s) = RString"
| "type_of (SliceV t xs) = RSlice t"
| "type_of (ArrayV t xs) = RArray (length xs) t"
| "type_of (MapV k t kvs) = RMap k t"
| "type_of (PtrV t p) = RPtr t"
| "type_of (InterfaceV x) = RInterface"
| "type_of (TimeV i l) = RTime"
| "type_of (StructV st fs) = RStruct st"
| "type_of OtherV = ROther"

definition kind_of :: "'f rval \<Rightarrow> kind" where
  "kind_of v = kind_of_type (type_of v)"

lemma kind_of_simps [simp]:
  "kind_of (BoolV b) = KBool" "kind_of (IntV w i) = KInt w" "kind_of (UintV w n) = KUint w"
  "kind_of (FloatV w x) = KFloat w" "kind_of (StringV s) = KString" "kind_of (SliceV t xs) = KSlice"
  "kind_of (ArrayV t xs) = KArray" "kind_of (MapV k t kvs) = KMap" "kind_of (PtrV t p) = KPtr"
  "kind_of (InterfaceV y) = KInterface" "kind_of (TimeV i l) = KStruct" "kind_of (StructV st fs) = KStruct"
  "kind_of OtherV = KOther"
  by (simp_all add: kind_of_def)

text \<open>\<open>Value.Interface\<close> of an exported value, \<open>Value.IsNil\<close>, and the pointer that is followed if it is not nil.\<close>

fun to_iface :: "'f rval \<Rightarrow> 'f iface" where
  "to_iface (InterfaceV x) = x"
| "to_iface v = Some v"

definition unexported :: "'a go" where
  "unexported = Inl ''reflect.Value.Interface: cannot return value obtained from unexported field or method''"

definition value_Interface :: "bool \<Rightarrow> 'f rval \<Rightarrow> 'f iface go" where
  "value_Interface exported v =
     (if exported then Inr (to_iface v) else unexported)"

fun is_nil :: "'f rval \<Rightarrow> bool" where
  "is_nil (PtrV t p) \<longleftrightarrow> p = None"
| "is_nil (InterfaceV x) \<longleftrightarrow> x = None"
| "is_nil _ \<longleftrightarrow> False"

fun follow :: "'f rval \<Rightarrow> 'f rval" where
  "follow (PtrV t (Some v)) = v"
| "follow v = v"

section \<open>The methods that depend on the kind\<close>

definition kind_name :: "kind \<Rightarrow> string" where
  "kind_name k =
     (case k of Invalid \<Rightarrow> ''zero'' | KBool \<Rightarrow> ''bool''
      | KInt w \<Rightarrow> ''int'' @ (if w = 0 then [] else nat_dec w)
      | KUint w \<Rightarrow> ''uint'' @ (if w = 0 then [] else nat_dec w)
      | KFloat w \<Rightarrow> ''float'' @ nat_dec w
      | KString \<Rightarrow> ''string'' | KSlice \<Rightarrow> ''slice'' | KArray \<Rightarrow> ''array'' | KMap \<Rightarrow> ''map'' | KPtr \<Rightarrow> ''ptr''
      | KInterface \<Rightarrow> ''interface'' | KStruct \<Rightarrow> ''struct'' | KOther \<Rightarrow> ''func'')"

definition kind_of_iface :: "'f iface \<Rightarrow> kind" where
  "kind_of_iface x = (case x of None \<Rightarrow> Invalid | Some v \<Rightarrow> kind_of v)"

lemma kind_of_iface_simps [simp]: "kind_of_iface None = Invalid" "kind_of_iface (Some v) = kind_of v"
  by (simp_all add: kind_of_iface_def)

definition value_error :: "string \<Rightarrow> 'f iface \<Rightarrow> 'a go" where
  "value_error meth v = Inl (''reflect: call of reflect.Value.'' @ meth @ '' on '' @ kind_name (kind_of_iface v) @ '' Value'')"

definition value_Int :: "'f iface \<Rightarrow> int go" where
  "value_Int v = (case v of Some (IntV w i) \<Rightarrow> Inr i | _ \<Rightarrow> value_error ''Int'' v)"

definition value_Uint :: "'f iface \<Rightarrow> nat go" where
  "value_Uint v = (case v of Some (UintV w n) \<Rightarrow> Inr n | _ \<Rightarrow> value_error ''Uint'' v)"

definition value_Float :: "'f iface \<Rightarrow> 'f go" where
  "value_Float v = (case v of Some (FloatV w x) \<Rightarrow> Inr x | _ \<Rightarrow> value_error ''Float'' v)"

definition value_Len :: "'f iface \<Rightarrow> nat go" where
  "value_Len v =
     (case v of Some (SliceV t xs) \<Rightarrow> Inr (length xs) | Some (ArrayV t xs) \<Rightarrow> Inr (length xs)
      | Some (MapV k t kvs) \<Rightarrow> Inr (length kvs) | Some (StringV s) \<Rightarrow> Inr (length s) | _ \<Rightarrow> value_error ''Len'' v)"

section \<open>Comparison with the zero value\<close>

text \<open>
  \<open>field != reflect.Zero(t).Interface()\<close> compares two values of one type. The comparison panics if the
  type has no equality, which the type of a struct says.
\<close>

fun type_comparable :: "rtype \<Rightarrow> bool" where
  "type_comparable (RSlice t) \<longleftrightarrow> False"
| "type_comparable (RMap k t) \<longleftrightarrow> False"
| "type_comparable ROther \<longleftrightarrow> False"
| "type_comparable (RArray n t) \<longleftrightarrow> type_comparable t"
| "type_comparable (RStruct st) \<longleftrightarrow> st_comparable st"
| "type_comparable _ \<longleftrightarrow> True"

fun zero_value :: "('f \<Rightarrow> bool) \<Rightarrow> 'f rval \<Rightarrow> bool" where
  "zero_value fz (BoolV b) \<longleftrightarrow> \<not> b"
| "zero_value fz (IntV w i) \<longleftrightarrow> i = 0"
| "zero_value fz (UintV w n) \<longleftrightarrow> n = 0"
| "zero_value fz (FloatV w x) \<longleftrightarrow> fz x"
| "zero_value fz (StringV s) \<longleftrightarrow> s = []"
| "zero_value fz (SliceV t xs) \<longleftrightarrow> False"
| "zero_value fz (ArrayV t xs) \<longleftrightarrow> (\<forall>x \<in> set xs. zero_value fz x)"
| "zero_value fz (MapV k t kvs) \<longleftrightarrow> False"
| "zero_value fz (PtrV t p) \<longleftrightarrow> p = None"
| "zero_value fz (InterfaceV x) \<longleftrightarrow> x = None"
| "zero_value fz (TimeV i l) \<longleftrightarrow> i = 0 \<and> l = 0"
| "zero_value fz (StructV st fs) \<longleftrightarrow> (\<forall>x \<in> set fs. zero_value fz x)"
| "zero_value fz OtherV \<longleftrightarrow> False"

definition equals_zero :: "('f \<Rightarrow> bool) \<Rightarrow> 'f rval \<Rightarrow> bool go" where
  "equals_zero fz v =
     (if type_comparable (type_of v) then Inr (zero_value fz v)
      else Inl ''runtime error: comparing uncomparable type'')"

end
