(* ===== verification/Regexp.thy ===== *)
theory Regexp
  imports Utf8
begin

text \<open>
  Regular expressions over runes, as the patterns of \<open>regexes.go\<close> use them: their language, and the
  matcher by derivatives, which is \<open>Regexp.MatchString\<close> up to how the Go library computes it.
\<close>

section \<open>Expressions and their language\<close>

text \<open>The classes are lists of ranges, bounds included.\<close>

datatype regex =
    Never
  | Empty
  | Class "(nat \<times> nat) list"
  | NotIn "(nat \<times> nat) list"
  | Either regex regex
  | Then regex regex
  | Many regex

definition in_class :: "nat \<Rightarrow> (nat \<times> nat) list \<Rightarrow> bool" where
  "in_class r cs \<longleftrightarrow> list_ex (\<lambda>(a, z). a \<le> r \<and> r \<le> z) cs"

inductive_set star :: "nat list set \<Rightarrow> nat list set" for A where
  star_Nil: "[] \<in> star A"
| star_step: "x \<in> A \<Longrightarrow> y \<in> star A \<Longrightarrow> x @ y \<in> star A"

primrec lang :: "regex \<Rightarrow> nat list set" where
  "lang Never = {}"
| "lang Empty = {[]}"
| "lang (Class cs) = {[r] |r. in_class r cs}"
| "lang (NotIn cs) = {[r] |r. \<not> in_class r cs}"
| "lang (Either p q) = lang p \<union> lang q"
| "lang (Then p q) = {x @ y |x y. x \<in> lang p \<and> y \<in> lang q}"
| "lang (Many p) = star (lang p)"

section \<open>The matcher\<close>

primrec nullable :: "regex \<Rightarrow> bool" where
  "nullable Never \<longleftrightarrow> False"
| "nullable Empty \<longleftrightarrow> True"
| "nullable (Class cs) \<longleftrightarrow> False"
| "nullable (NotIn cs) \<longleftrightarrow> False"
| "nullable (Either p q) \<longleftrightarrow> nullable p \<or> nullable q"
| "nullable (Then p q) \<longleftrightarrow> nullable p \<and> nullable q"
| "nullable (Many p) \<longleftrightarrow> True"

definition either :: "regex \<Rightarrow> regex \<Rightarrow> regex" where
  "either p q = (case p of Never \<Rightarrow> q | _ \<Rightarrow> (case q of Never \<Rightarrow> p | _ \<Rightarrow> if p = q then p else Either p q))"

definition andthen :: "regex \<Rightarrow> regex \<Rightarrow> regex" where
  "andthen p q = (case p of Never \<Rightarrow> Never | Empty \<Rightarrow> q | _ \<Rightarrow> Then p q)"

primrec deriv :: "nat \<Rightarrow> regex \<Rightarrow> regex" where
  "deriv r Never = Never"
| "deriv r Empty = Never"
| "deriv r (Class cs) = (if in_class r cs then Empty else Never)"
| "deriv r (NotIn cs) = (if in_class r cs then Never else Empty)"
| "deriv r (Either p q) = either (deriv r p) (deriv r q)"
| "deriv r (Then p q) =
     (if nullable p then either (andthen (deriv r p) q) (deriv r q) else andthen (deriv r p) q)"
| "deriv r (Many p) = andthen (deriv r p) (Many p)"

primrec accepts :: "regex \<Rightarrow> nat list \<Rightarrow> bool" where
  "accepts p [] \<longleftrightarrow> nullable p"
| "accepts p (r # rs) \<longleftrightarrow> accepts (deriv r p) rs"

lemma lang_either [simp]: "lang (either p q) = lang p \<union> lang q"
  by (auto simp: either_def split: regex.splits)

lemma lang_andthen [simp]: "lang (andthen p q) = lang (Then p q)"
  by (auto simp: andthen_def split: regex.splits)

lemma nullable_lang: "nullable p \<longleftrightarrow> [] \<in> lang p"
  by (induction p) (auto intro: star_Nil)

lemma star_Cons:
  "r # w \<in> star A \<longleftrightarrow> (\<exists>x y. r # x \<in> A \<and> y \<in> star A \<and> w = x @ y)"
proof
  assume "r # w \<in> star A"
  then show "\<exists>x y. r # x \<in> A \<and> y \<in> star A \<and> w = x @ y"
  proof (induction "r # w" arbitrary: w)
    case (star_step x y)
    then show ?case by (cases x) auto
  qed
next
  assume "\<exists>x y. r # x \<in> A \<and> y \<in> star A \<and> w = x @ y"
  then show "r # w \<in> star A" using star_step [of "r # _" A] by fastforce
qed

lemma lang_deriv: "w \<in> lang (deriv r p) \<longleftrightarrow> r # w \<in> lang p"
proof (induction p arbitrary: w)
  case (Then p q)
  show ?case by (auto simp: Then.IH nullable_lang Cons_eq_append_conv)
next
  case (Many p)
  show ?case by (auto simp: Many.IH star_Cons)
qed auto

text \<open>The matcher decides the language.\<close>

lemma accepts_lang: "accepts p w \<longleftrightarrow> w \<in> lang p"
  by (induction w arbitrary: p) (simp_all add: nullable_lang lang_deriv)

section \<open>Operators of the syntax\<close>

definition maybe :: "regex \<Rightarrow> regex" where "maybe p = Either p Empty"
definition some :: "regex \<Rightarrow> regex" where "some p = Then p (Many p)"

primrec repeat :: "nat \<Rightarrow> regex \<Rightarrow> regex" where
  "repeat 0 p = Empty"
| "repeat (Suc n) p = Then p (repeat n p)"

fun seqs :: "regex list \<Rightarrow> regex" where
  "seqs [] = Empty"
| "seqs [p] = p"
| "seqs (p # ps) = Then p (seqs ps)"

fun alts :: "regex list \<Rightarrow> regex" where
  "alts [] = Never"
| "alts [p] = p"
| "alts (p # ps) = Either p (alts ps)"

text \<open>A class given by its bytes, one rune, a text, \<open>\d\<close>, \<open>\s\<close> and the dot.\<close>

definition range_of :: "char \<Rightarrow> char \<Rightarrow> nat \<times> nat" where
  "range_of a z = (code a, code z)"

definition one_of :: "string \<Rightarrow> (nat \<times> nat) list" where
  "one_of s = map (\<lambda>c. (code c, code c)) s"

definition lit :: "string \<Rightarrow> regex" where
  "lit s = seqs (map (\<lambda>c. Class [(code c, code c)]) s)"

definition digits :: "(nat \<times> nat) list" where "digits = [range_of (CHR ''0'') (CHR ''9'')]"
definition digit :: regex where "digit = Class digits"
definition spaces :: regex where "spaces = Many (Class (one_of [CHR 0x09, CHR 0x0A, CHR 0x0C, CHR 0x0D, CHR '' '']))"
definition dot :: regex where "dot = NotIn (one_of [CHR 0x0A])"

text \<open>A pattern between \<open>^\<close> and \<open>$\<close>, and one that is searched for.\<close>

datatype regexp = Whole regex | Somewhere regex

definition any_text :: regex where "any_text = Many (NotIn [])"

definition MatchString :: "regexp \<Rightarrow> string \<Rightarrow> bool" where
  "MatchString re s =
     (case re of Whole p \<Rightarrow> accepts p (runes s)
      | Somewhere p \<Rightarrow> accepts (Then any_text (Then p any_text)) (runes s))"

subsection \<open>Languages of the operators\<close>

lemma lang_maybe [simp]: "lang (maybe p) = lang p \<union> {[]}"
  by (simp add: maybe_def)

lemma lang_some: "lang (some p) = {x @ y |x y. x \<in> lang p \<and> y \<in> star (lang p)}"
  by (simp add: some_def)

lemma lang_seqs [simp]:
  "lang (seqs []) = {[]}" "lang (seqs (p # ps)) = {x @ y |x y. x \<in> lang p \<and> y \<in> lang (seqs ps)}"
  by (simp, cases ps) auto

lemma lang_alts [simp]: "lang (alts []) = {}" "lang (alts (p # ps)) = lang p \<union> lang (alts ps)"
  by (simp, cases ps) auto

lemma star_class: "star {[r] |r. P r} = {w. list_all P w}"
proof (intro set_eqI iffI)
  fix w assume "w \<in> star {[r] |r. P r}"
  then show "w \<in> {w. list_all P w}" by induction auto
next
  fix w assume "w \<in> {w. list_all P w}"
  then show "w \<in> star {[r] |r. P r}"
  proof (induction w)
    case (Cons r w)
    then show ?case using star_step [of "[r]" "{[r] |r. P r}" w] by auto
  qed (simp add: star_Nil)
qed

lemma lang_many_class: "lang (Many (Class cs)) = {w. list_all (\<lambda>r. in_class r cs) w}"
  by (simp add: star_class)

lemma lang_some_class: "lang (some (Class cs)) = {w. w \<noteq> [] \<and> list_all (\<lambda>r. in_class r cs) w}"
proof (intro set_eqI)
  fix w
  show "w \<in> lang (some (Class cs)) \<longleftrightarrow> w \<in> {w. w \<noteq> [] \<and> list_all (\<lambda>r. in_class r cs) w}"
    by (cases w) (auto simp: some_def star_class intro: exI [of _ "[_]"])
qed

lemma lang_repeat_class: "lang (repeat n (Class cs)) = {w. length w = n \<and> list_all (\<lambda>r. in_class r cs) w}"
proof (induction n)
  case (Suc n)
  show ?case
  proof (intro set_eqI)
    fix w
    show "w \<in> lang (repeat (Suc n) (Class cs)) \<longleftrightarrow> w \<in> {w. length w = Suc n \<and> list_all (\<lambda>r. in_class r cs) w}"
      by (cases w) (auto simp: Suc.IH simp del: lang.simps(7) intro: exI [of _ "[_]"])
  qed
qed auto

lemma lang_lit: "lang (lit s) = {map code s}"
  by (induction s) (auto simp: lit_def in_class_def)

lemma match_whole: "MatchString (Whole p) s \<longleftrightarrow> runes s \<in> lang p"
  by (simp add: MatchString_def accepts_lang)

lemma lang_any_text [simp]: "w \<in> lang any_text"
  using star_class [of "\<lambda>_. True"] by (simp add: any_text_def in_class_def list_all_iff)

lemma match_somewhere: "MatchString (Somewhere p) s \<longleftrightarrow> (\<exists>x y z. runes s = x @ y @ z \<and> y \<in> lang p)"
  unfolding MatchString_def regexp.case accepts_lang by auto

end
