(* ===== verification/Patterns.thy ===== *)
theory Patterns
  imports Regexp
begin

text \<open>
  The patterns of the validator (\<open>regexes.go\<close>), each the expression that its string denotes, and what
  the simple ones accept.
\<close>

section \<open>The patterns\<close>

definition lower_upper :: "(nat \<times> nat) list" where
  "lower_upper = [range_of (CHR ''a'') (CHR ''z''), range_of (CHR ''A'') (CHR ''Z'')]"

definition alphaRegex :: regexp where
  "alphaRegex = Whole (some (Class lower_upper))"

definition alphaNumericRegex :: regexp where
  "alphaNumericRegex = Whole (some (Class (lower_upper @ digits)))"

definition sign :: regex where
  "sign = maybe (Class (one_of ''-+''))"

definition numericRegex :: regexp where
  "numericRegex = Whole (seqs [sign, some digit, maybe (seqs [lit ''.'', some digit])])"

definition numberRegex :: regexp where
  "numberRegex = Whole (some digit)"

definition hex_any :: "(nat \<times> nat) list" where
  "hex_any = digits @ [range_of (CHR ''a'') (CHR ''f''), range_of (CHR ''A'') (CHR ''F'')]"

definition hexadecimalRegex :: regexp where
  "hexadecimalRegex = Whole (some (Class hex_any))"

definition hexcolorRegex :: regexp where
  "hexcolorRegex = Whole (seqs [lit ''#'', alts [repeat 3 (Class hex_any), repeat 6 (Class hex_any)]])"

text \<open>A number up to 255, up to 360 and up to 100; a comma between spaces.\<close>

definition d19 :: regex where "d19 = Class [range_of (CHR ''1'') (CHR ''9'')]"

definition octet :: regex where
  "octet = alts [lit ''0'', seqs [d19, maybe digit], seqs [lit ''1'', digit, maybe digit],
     seqs [lit ''2'', Class [range_of (CHR ''0'') (CHR ''4'')], digit],
     seqs [lit ''25'', Class [range_of (CHR ''0'') (CHR ''5'')]]]"

definition degrees :: regex where
  "degrees = alts [lit ''0'', seqs [d19, maybe digit], seqs [Class (one_of ''12''), digit, digit],
     seqs [lit ''3'', Class [range_of (CHR ''0'') (CHR ''5'')], digit], lit ''360'']"

definition percent :: regex where
  "percent = seqs [alts [lit ''0'', seqs [d19, maybe digit], lit ''100''], lit ''%'']"

definition comma :: regex where
  "comma = seqs [spaces, lit '','', spaces]"

definition rgb_body :: regex where
  "rgb_body = alts [seqs [octet, comma, octet, comma, octet],
     seqs [octet, lit ''%'', comma, octet, lit ''%'', comma, octet, lit ''%'']]"

definition alpha_value :: regex where
  "alpha_value = alts [seqs [lit ''0'', dot, Many d19], Class (one_of ''01'')]"

definition rgbRegex :: regexp where
  "rgbRegex = Whole (seqs [lit ''rgb('', spaces, rgb_body, spaces, lit '')''])"

definition rgbaRegex :: regexp where
  "rgbaRegex = Whole (seqs [lit ''rgba('', spaces, rgb_body, comma, alpha_value, spaces, lit '')''])"

definition hslRegex :: regexp where
  "hslRegex = Whole (seqs [lit ''hsl('', spaces, degrees, comma, percent, comma, percent, spaces, lit '')''])"

definition hslaRegex :: regexp where
  "hslaRegex = Whole (seqs [lit ''hsla('', spaces, degrees, comma, percent, comma, percent, comma, alpha_value,
     spaces, lit '')''])"

text \<open>
  The pattern of email addresses. In the branch of quoted local parts the parentheses are not where
  they seem to be: \<open>quoted_unit\<close> begins with the quote and is what is repeated.
\<close>

definition wide :: "(nat \<times> nat) list" where
  "wide = [(0xA0, 0xD7FF), (0xF900, 0xFDCF), (0xFDF0, 0xFFEF)]"

definition atext :: "(nat \<times> nat) list" where
  "atext = lower_upper @ digits @ one_of (''!#$%&'' @ [CHR 0x27] @ ''*+-/=?^_`{|}~'') @ wide"

definition blank :: regex where
  "blank = Class (one_of [CHR 0x20, CHR 0x09])"

definition folding :: regex where
  "folding = maybe (seqs [maybe (seqs [Many blank, lit [CHR 0x0D, CHR 0x0A]]), some blank])"

definition quoted_unit :: regex where
  "quoted_unit = seqs [lit [CHR 0x22], folding,
     Either
       (Class ([(0x01, 0x08), (0x0B, 0x0B), (0x0C, 0x0C), (0x0E, 0x1F), (0x7F, 0x7F), (0x21, 0x21), (0x23, 0x5B),
          (0x5D, 0x7E)] @ wide))
       (Either (seqs [maybe (lit ''(''), lit '':'', Class [(0x01, 0x09), (0x0B, 0x0B), (0x0C, 0x0C), (0x0D, 0x7F)]])
          (Class wide))]"

definition local_part :: regex where
  "local_part = Either
     (seqs [some (Class atext), Many (seqs [lit ''.'', some (Class atext)])])
     (seqs [Many quoted_unit, folding, lit [CHR 0x22]])"

definition label_of :: "(nat \<times> nat) list \<Rightarrow> regex" where
  "label_of ends = Either (Class ends)
     (seqs [Class ends, Many (Class (lower_upper @ digits @ one_of ''-._~'' @ wide)), Class ends])"

definition emailRegex :: regexp where
  "emailRegex = Whole (seqs [local_part, lit ''@'', some (seqs [label_of (lower_upper @ digits @ wide), lit ''.'']),
     label_of (lower_upper @ wide), maybe (lit ''.'')])"

definition b64 :: "(nat \<times> nat) list" where
  "b64 = [range_of (CHR ''A'') (CHR ''Z''), range_of (CHR ''a'') (CHR ''z'')] @ digits @ one_of ''+/''"

definition base64Regex :: regexp where
  "base64Regex = Whole (seqs [Many (repeat 4 (Class b64)),
     alts [seqs [repeat 2 (Class b64), lit ''==''], seqs [repeat 3 (Class b64), lit ''=''], repeat 4 (Class b64)]])"

definition iSBN10Regex :: regexp where
  "iSBN10Regex = Whole (alts [seqs [repeat 9 digit, lit ''X''], repeat 10 digit])"

definition iSBN13Regex :: regexp where
  "iSBN13Regex = Whole (seqs [seqs [lit ''97'', alts [lit ''8'', lit ''9'']], repeat 10 digit])"

definition hex_low :: "(nat \<times> nat) list" where
  "hex_low = digits @ [range_of (CHR ''a'') (CHR ''f'')]"

definition hexes :: "nat \<Rightarrow> regex" where
  "hexes n = repeat n (Class hex_low)"

definition uUID3Regex :: regexp where
  "uUID3Regex = Whole (seqs [hexes 8, lit ''-'', hexes 4, lit ''-'', lit ''3'', hexes 3, lit ''-'', hexes 4, lit ''-'',
     hexes 12])"

definition uUID4Regex :: regexp where
  "uUID4Regex = Whole (seqs [hexes 8, lit ''-'', hexes 4, lit ''-'', lit ''4'', hexes 3, lit ''-'',
     Class (one_of ''89ab''), hexes 3, lit ''-'', hexes 12])"

definition uUID5Regex :: regexp where
  "uUID5Regex = Whole (seqs [hexes 8, lit ''-'', hexes 4, lit ''-'', lit ''5'', hexes 3, lit ''-'',
     Class (one_of ''89ab''), hexes 3, lit ''-'', hexes 12])"

definition uUIDRegex :: regexp where
  "uUIDRegex = Whole (seqs [hexes 8, lit ''-'', hexes 4, lit ''-'', hexes 4, lit ''-'', hexes 4, lit ''-'', hexes 12])"

definition aSCIIRegex :: regexp where
  "aSCIIRegex = Whole (Many (Class [(0x00, 0x7F)]))"

definition printableASCIIRegex :: regexp where
  "printableASCIIRegex = Whole (Many (Class [(0x20, 0x7E)]))"

definition multibyteRegex :: regexp where
  "multibyteRegex = Somewhere (NotIn [(0x00, 0x7F)])"

definition dataURIRegex :: regexp where
  "dataURIRegex = Whole (seqs [lit ''data:'', some dot, lit ''/'', some dot, lit '';base64''])"

definition fraction :: regex where
  "fraction = maybe (seqs [lit ''.'', some digit])"

definition zero_fraction :: regex where
  "zero_fraction = maybe (seqs [lit ''.'', some (lit ''0'')])"

definition latitudeRegex :: regexp where
  "latitudeRegex = Whole (seqs [sign,
     alts [seqs [maybe (Class [range_of (CHR ''1'') (CHR ''8'')]), digit, fraction], seqs [lit ''90'', zero_fraction]]])"

definition longitudeRegex :: regexp where
  "longitudeRegex = Whole (seqs [sign,
     alts [seqs [lit ''180'', zero_fraction],
       seqs [alts [seqs [lit ''1'', Class [range_of (CHR ''0'') (CHR ''7'')], digit], seqs [maybe d19, digit]], fraction]]])"

definition dash :: regex where
  "dash = maybe (Class (one_of ''- ''))"

definition sSNRegex :: regexp where
  "sSNRegex = Whole (seqs [repeat 3 digit, dash, repeat 2 digit, dash, repeat 4 digit])"

lemmas regex_defs = lower_upper_def sign_def hex_any_def d19_def octet_def degrees_def percent_def comma_def
  rgb_body_def alpha_value_def wide_def atext_def blank_def folding_def quoted_unit_def local_part_def label_of_def
  b64_def hex_low_def hexes_def fraction_def zero_fraction_def dash_def digits_def digit_def spaces_def dot_def

lemmas match_simps = MatchString_def regex_defs in_class_def one_of_def range_of_def either_def andthen_def maybe_def
  some_def lit_def runes_ascii

section \<open>Corner cases\<close>

text \<open>
  Opacities whose second digit is 0 are rejected and ones with a letter for the point accepted; a quoted
  local part passes only if every character in it has a quote of its own before it.
\<close>

lemma rgba_opacity:
  "\<not> MatchString rgbaRegex ''rgba(0,0,0,0.05)''" "MatchString rgbaRegex ''rgba(0,0,0,0x5)''"
  by code_simp+

lemma quoted_email_rejected:
  "\<not> MatchString emailRegex ([CHR 0x22] @ ''ab'' @ [CHR 0x22] @ ''@b.c'')"
  "MatchString emailRegex ([CHR 0x22] @ ''a'' @ [CHR 0x22] @ ''b'' @ [CHR 0x22] @ ''@b.c'')"
  "MatchString emailRegex ''john.doe@x.org''"
  unfolding emailRegex_def by (simp_all add: match_simps)

end
