(* ===== verification/BakedIn.thy ===== *)
theory BakedIn
  imports Reflect Patterns
begin

text \<open>
  The built-in validators (\<open>baked_in.go\<close>). A validator gets the top-level struct, the current struct or
  value, the field and the parameter of its tag, and panics when they do not fit.
\<close>

section \<open>The library\<close>

text \<open>
  What the validators use of the Go library besides: \<open>strconv.ParseFloat\<close> and the comparisons of floats,
  \<open>url.ParseRequestURI\<close> (an error or the scheme), the clock, and the texts of \<open>%T\<close>, \<open>%v\<close>, \<open>strconv.Quote\<close>
  and of \<open>Value.String\<close> on values that are no strings.
\<close>

record 'f venv =
  ve_ParseFloat :: "string \<Rightarrow> num_error + 'f"
  ve_feq :: "'f \<Rightarrow> 'f \<Rightarrow> bool"
  ve_flt :: "'f \<Rightarrow> 'f \<Rightarrow> bool"
  ve_fle :: "'f \<Rightarrow> 'f \<Rightarrow> bool"
  ve_fzero :: 'f
  ve_ParseRequestURI :: "string \<Rightarrow> string + string"
  ve_Now :: int
  ve_T :: "'f iface \<Rightarrow> string"
  ve_Quote :: "string \<Rightarrow> string"
  ve_String :: "'f iface \<Rightarrow> string"
  ve_Sprint :: "'f iface \<Rightarrow> string"

type_synonym 'f Func = "'f venv \<Rightarrow> 'f iface \<Rightarrow> 'f iface \<Rightarrow> 'f iface \<Rightarrow> string \<Rightarrow> bool go"

definition bad_field_type :: "'f venv \<Rightarrow> 'f iface \<Rightarrow> 'a go" where
  "bad_field_type env f = Inl (''Bad field type '' @ ve_T env f)"

definition as_string :: "'f venv \<Rightarrow> 'f iface \<Rightarrow> string go" where
  "as_string env f =
     (case f of Some (StringV s) \<Rightarrow> Inr s
      | _ \<Rightarrow> Inl (''interface conversion: interface is '' @ ve_T env f @ '', not string''))"

subsection \<open>Numerals with the base in their prefix\<close>

definition digit_of :: "char \<Rightarrow> nat option" where
  "digit_of c =
     (let k = code c
      in if 48 \<le> k \<and> k \<le> 57 then Some (k - 48)
         else if 97 \<le> k \<and> k \<le> 122 then Some (k - 87)
         else if 65 \<le> k \<and> k \<le> 90 then Some (k - 55)
         else None)"

fun parse_digits :: "nat \<Rightarrow> nat \<Rightarrow> string \<Rightarrow> num_error + nat" where
  "parse_digits base n [] = Inr n"
| "parse_digits base n (c # s) =
     (case digit_of c of
        None \<Rightarrow> Inl ErrSyntax
      | Some v \<Rightarrow>
          if base \<le> v then Inl ErrSyntax
          else if 2 ^ 64 \<le> n * base + v then Inl ErrRange
          else parse_digits base (n * base + v) s)"

definition ParseUint64 :: "string \<Rightarrow> num_error + nat" where
  "ParseUint64 s =
     (case s of
        [] \<Rightarrow> Inl ErrSyntax
      | c # t \<Rightarrow>
          if c = CHR ''0'' \<and> t \<noteq> [] \<and> hd t \<in> {CHR ''x'', CHR ''X''} then
            (if tl t = [] then Inl ErrSyntax else parse_digits 16 0 (tl t))
          else parse_digits (if c = CHR ''0'' then 8 else 10) 0 s)"

definition ParseInt64 :: "string \<Rightarrow> num_error + int" where
  "ParseInt64 s =
     (if s = [] then Inl ErrSyntax
      else
        let neg = (hd s = CHR ''-''); t = (if hd s \<in> {CHR ''+'', CHR ''-''} then tl s else s)
        in case ParseUint64 t of
             Inl e \<Rightarrow> Inl e
           | Inr n \<Rightarrow>
               if \<not> neg \<and> 2 ^ 63 \<le> n \<or> neg \<and> 2 ^ 63 < n then Inl ErrRange
               else Inr (if neg then - int n else int n))"

definition panicIf :: "'f venv \<Rightarrow> string \<Rightarrow> string \<Rightarrow> num_error + 'a \<Rightarrow> 'a go" where
  "panicIf env fn s r =
     (case r of
        Inr x \<Rightarrow> Inr x
      | Inl e \<Rightarrow> Inl (''strconv.'' @ fn @ '': parsing '' @ ve_Quote env s @ '': '' @
          (case e of ErrSyntax \<Rightarrow> ''invalid syntax'' | ErrRange \<Rightarrow> ''value out of range'')))"

definition asInt :: "'f venv \<Rightarrow> string \<Rightarrow> int go" where
  "asInt env param = panicIf env ''ParseInt'' param (ParseInt64 param)"

definition asUint :: "'f venv \<Rightarrow> string \<Rightarrow> nat go" where
  "asUint env param = panicIf env ''ParseUint'' param (ParseUint64 param)"

definition asFloat :: "'f venv \<Rightarrow> string \<Rightarrow> 'f go" where
  "asFloat env param = panicIf env ''ParseFloat'' param (ve_ParseFloat env param)"

section \<open>Patterns\<close>

definition matchesRegex :: "regexp \<Rightarrow> 'f Func" where
  "matchesRegex re env tp cur f param = mapG (MatchString re) (as_string env f)"

definition isAlpha :: "'f Func" where "isAlpha = matchesRegex alphaRegex"
definition isAlphanum :: "'f Func" where "isAlphanum = matchesRegex alphaNumericRegex"
definition isNumeric :: "'f Func" where "isNumeric = matchesRegex numericRegex"
definition isNumber :: "'f Func" where "isNumber = matchesRegex numberRegex"
definition isHexadecimal :: "'f Func" where "isHexadecimal = matchesRegex hexadecimalRegex"
definition isHexcolor :: "'f Func" where "isHexcolor = matchesRegex hexcolorRegex"
definition isRgb :: "'f Func" where "isRgb = matchesRegex rgbRegex"
definition isRgba :: "'f Func" where "isRgba = matchesRegex rgbaRegex"
definition isHsl :: "'f Func" where "isHsl = matchesRegex hslRegex"
definition isHsla :: "'f Func" where "isHsla = matchesRegex hslaRegex"
definition isEmail :: "'f Func" where "isEmail = matchesRegex emailRegex"
definition isBase64 :: "'f Func" where "isBase64 = matchesRegex base64Regex"
definition isUUID :: "'f Func" where "isUUID = matchesRegex uUIDRegex"
definition isUUID3 :: "'f Func" where "isUUID3 = matchesRegex uUID3Regex"
definition isUUID4 :: "'f Func" where "isUUID4 = matchesRegex uUID4Regex"
definition isUUID5 :: "'f Func" where "isUUID5 = matchesRegex uUID5Regex"
definition isASCII :: "'f Func" where "isASCII = matchesRegex aSCIIRegex"
definition isPrintableASCII :: "'f Func" where "isPrintableASCII = matchesRegex printableASCIIRegex"
definition isLatitude :: "'f Func" where "isLatitude = matchesRegex latitudeRegex"
definition isLongitude :: "'f Func" where "isLongitude = matchesRegex longitudeRegex"

definition hasMultiByteCharacter :: "'f Func" where
  "hasMultiByteCharacter env tp cur f param =
     mapG (\<lambda>s. if length s = 0 then True else MatchString multibyteRegex s) (as_string env f)"

definition isSSN :: "'f Func" where
  "isSSN env tp cur f param =
     mapG (\<lambda>s. if length s \<noteq> 11 then False else MatchString sSNRegex s) (as_string env f)"

text \<open>\<open>strings.SplitN(s, c, 2)\<close> for one byte, and \<open>strings.Replace(s, c, "", n)\<close>.\<close>

definition split2 :: "char \<Rightarrow> string \<Rightarrow> string \<times> string option" where
  "split2 c s = (takeWhile (\<lambda>x. x \<noteq> c) s, if c \<in> set s then Some (tl (dropWhile (\<lambda>x. x \<noteq> c) s)) else None)"

fun remove_first :: "nat \<Rightarrow> char \<Rightarrow> string \<Rightarrow> string" where
  "remove_first n c [] = []"
| "remove_first 0 c s = s"
| "remove_first (Suc n) c (x # s) = (if x = c then remove_first n c s else x # remove_first (Suc n) c s)"

definition isDataURI :: "'f Func" where
  "isDataURI env tp cur f param =
     bindG (as_string env f) (\<lambda>s.
       case split2 (CHR '','') s of
         (x, None) \<Rightarrow> Inr False
       | (x, Some y) \<Rightarrow>
           if \<not> MatchString dataURIRegex x then Inr False else isBase64 env tp cur (Some (StringV y)) param)"

section \<open>Book numbers\<close>

definition isISBN13 :: "'f Func" where
  "isISBN13 env tp cur f param =
     mapG (\<lambda>s0.
       let s = remove_first 4 (CHR '' '') (remove_first 4 (CHR ''-'') s0)
       in if \<not> MatchString iSBN13Regex s then False
          else
            let checksum = (\<Sum>i\<leftarrow>[0..<12]. [1, 3] ! (i mod 2) * int (digit_val (s ! i)))
            in int (digit_val (s ! 12)) - (10 - checksum mod 10) mod 10 = 0)
     (as_string env f)"

definition isISBN10 :: "'f Func" where
  "isISBN10 env tp cur f param =
     mapG (\<lambda>s0.
       let s = remove_first 3 (CHR '' '') (remove_first 3 (CHR ''-'') s0)
       in if \<not> MatchString iSBN10Regex s then False
          else
            let checksum = (\<Sum>i\<leftarrow>[0..<9]. (int i + 1) * int (digit_val (s ! i)));
                checksum = checksum + (if s ! 9 = CHR ''X'' then 10 * 10 else 10 * int (digit_val (s ! 9)))
            in checksum mod 11 = 0)
     (as_string env f)"

definition isISBN :: "'f Func" where
  "isISBN env tp cur f param =
     bindG (isISBN10 env tp cur f param) (\<lambda>b. if b then Inr True else isISBN13 env tp cur f param)"

section \<open>Substrings\<close>

definition contains_text :: "'f Func" where
  "contains_text env tp cur f param = mapG (\<lambda>s. Contains s param) (as_string env f)"

definition containsAny :: "'f Func" where
  "containsAny env tp cur f param = mapG (\<lambda>s. ContainsAny s param) (as_string env f)"

definition containsRune :: "'f Func" where
  "containsRune env tp cur f param = mapG (\<lambda>s. ContainsRune s (fst (DecodeRuneInString param))) (as_string env f)"

definition excludes :: "'f Func" where
  "excludes env tp cur f param = mapG Not (contains_text env tp cur f param)"

definition excludesAll :: "'f Func" where
  "excludesAll env tp cur f param = mapG Not (containsAny env tp cur f param)"

definition excludesRune :: "'f Func" where
  "excludesRune env tp cur f param = mapG Not (containsRune env tp cur f param)"

definition isURI :: "'f Func" where
  "isURI env tp cur f param =
     (case f of
        Some (StringV s) \<Rightarrow> Inr (case ve_ParseRequestURI env s of Inl e \<Rightarrow> False | Inr sch \<Rightarrow> True)
      | _ \<Rightarrow> bad_field_type env f)"

definition isURL :: "'f Func" where
  "isURL env tp cur f param =
     (case f of
        Some (StringV s) \<Rightarrow> Inr (case ve_ParseRequestURI env s of Inl e \<Rightarrow> False | Inr sch \<Rightarrow> length sch \<noteq> 0)
      | _ \<Rightarrow> bad_field_type env f)"

section \<open>Presence\<close>

definition hasValue :: "'f Func" where
  "hasValue env tp cur f param =
     (case f of
        None \<Rightarrow> Inr False
      | Some (SliceV t xs) \<Rightarrow> Inr (0 < length xs)
      | Some (ArrayV t xs) \<Rightarrow> Inr (0 < length xs)
      | Some (MapV k t kvs) \<Rightarrow> Inr (0 < length kvs)
      | Some v \<Rightarrow> mapG Not (equals_zero (\<lambda>x. ve_feq env x (ve_fzero env)) v))"

section \<open>Comparison with the parameter\<close>

text \<open>The cases that the comparisons share: numbers by value, collections by length.\<close>

definition compare_number :: "(int \<Rightarrow> int \<Rightarrow> bool) \<Rightarrow> ('f \<Rightarrow> 'f \<Rightarrow> bool) \<Rightarrow> 'f venv \<Rightarrow> 'f iface \<Rightarrow> string \<Rightarrow> bool go" where
  "compare_number rel frel env f param =
     (case f of
        Some (SliceV t xs) \<Rightarrow> mapG (rel (int (length xs))) (asInt env param)
      | Some (ArrayV t xs) \<Rightarrow> mapG (rel (int (length xs))) (asInt env param)
      | Some (MapV k t kvs) \<Rightarrow> mapG (rel (int (length kvs))) (asInt env param)
      | Some (IntV w i) \<Rightarrow> mapG (rel i) (asInt env param)
      | Some (UintV w n) \<Rightarrow> mapG (\<lambda>p. rel (int n) (int p)) (asUint env param)
      | Some (FloatV w x) \<Rightarrow> mapG (frel x) (asFloat env param)
      | _ \<Rightarrow> bad_field_type env f)"

text \<open>Strings by the number of their runes.\<close>

definition compare_size :: "(int \<Rightarrow> int \<Rightarrow> bool) \<Rightarrow> ('f \<Rightarrow> 'f \<Rightarrow> bool) \<Rightarrow> 'f venv \<Rightarrow> 'f iface \<Rightarrow> string \<Rightarrow> bool go" where
  "compare_size rel frel env f param =
     (case f of
        Some (StringV s) \<Rightarrow> mapG (rel (int (RuneCountInString s))) (asInt env param)
      | _ \<Rightarrow> compare_number rel frel env f param)"

definition isEq :: "'f Func" where
  "isEq env tp cur f param =
     (case f of
        Some (StringV s) \<Rightarrow> Inr (s = param)
      | _ \<Rightarrow> compare_number (=) (ve_feq env) env f param)"

definition isNe :: "'f Func" where
  "isNe env tp cur f param = mapG Not (isEq env tp cur f param)"

definition hasLengthOf :: "'f Func" where
  "hasLengthOf env tp cur f param = compare_size (=) (ve_feq env) env f param"

definition isGte :: "'f Func" where
  "isGte env tp cur f param =
     (case f of
        Some (TimeV t l) \<Rightarrow> Inr (ve_Now env < t \<or> t = ve_Now env)
      | _ \<Rightarrow> compare_size (\<lambda>a b. b \<le> a) (\<lambda>a b. ve_fle env b a) env f param)"

definition isGt :: "'f Func" where
  "isGt env tp cur f param =
     (case f of
        Some (TimeV t l) \<Rightarrow> Inr (ve_Now env < t)
      | _ \<Rightarrow> compare_size (\<lambda>a b. b < a) (\<lambda>a b. ve_flt env b a) env f param)"

definition isLte :: "'f Func" where
  "isLte env tp cur f param =
     (case f of
        Some (TimeV t l) \<Rightarrow> Inr (t < ve_Now env \<or> t = ve_Now env)
      | _ \<Rightarrow> compare_size (\<le>) (ve_fle env) env f param)"

definition isLt :: "'f Func" where
  "isLt env tp cur f param =
     (case f of
        Some (TimeV t l) \<Rightarrow> Inr (t < ve_Now env)
      | _ \<Rightarrow> compare_size (<) (ve_flt env) env f param)"

definition hasMinOf :: "'f Func" where "hasMinOf = isGte"
definition hasMaxOf :: "'f Func" where "hasMaxOf = isLte"

section \<open>Comparison with another field\<close>

text \<open>
  The value to compare with, and whether it is exported: the current value, or its field named by the
  parameter; pointers are followed once before and once after.
\<close>

fun field_by_name :: "field_info list \<Rightarrow> 'f rval list \<Rightarrow> string \<Rightarrow> (bool \<times> 'f rval) option" where
  "field_by_name (fi # fis) (v # vs) name =
     (if fi_Name fi = name then Some (fi_exported fi, v) else field_by_name fis vs name)"
| "field_by_name _ _ name = None"

definition cross_value :: "'f iface \<Rightarrow> string \<Rightarrow> (bool \<times> 'f iface) go" where
  "cross_value cur param =
     (case cur of
        None \<Rightarrow> Inl ''struct not passed for cross validation''
      | Some c \<Rightarrow>
          bindG
            (case (case c of PtrV t (Some x) \<Rightarrow> to_iface x | _ \<Rightarrow> Some c) of
               Some (StructV st vs) \<Rightarrow>
                 (case field_by_name (st_fields st) vs param of
                    None \<Rightarrow> Inl (''Field '' @ [CHR 0x22] @ param @ [CHR 0x22] @ '' not found in struct'')
                  | Some (exported, v) \<Rightarrow> Inr (exported, Some v))
             | v \<Rightarrow> Inr (True, v))
            (\<lambda>(exported, v).
               case v of
                 Some (PtrV t (Some x)) \<Rightarrow> mapG (\<lambda>y. (True, y)) (value_Interface exported x)
               | _ \<Rightarrow> Inr (exported, v)))"

definition value_Time :: "bool \<times> 'f iface \<Rightarrow> int go" where
  "value_Time ev =
     (case ev of
        (exported, None) \<Rightarrow> value_error ''Type'' (snd ev)
      | (exported, Some (TimeV t l)) \<Rightarrow> if exported then Inr t else unexported
      | (exported, Some v) \<Rightarrow> Inl ''Bad Top Level field type'')"

definition compare_value :: "(int \<Rightarrow> int \<Rightarrow> bool) \<Rightarrow> ('f \<Rightarrow> 'f \<Rightarrow> bool) \<Rightarrow> 'f venv \<Rightarrow> 'f iface \<Rightarrow> bool \<times> 'f iface \<Rightarrow> bool go" where
  "compare_value rel frel env f ev =
     (case f of
        Some (IntV w i) \<Rightarrow> mapG (rel i) (value_Int (snd ev))
      | Some (UintV w n) \<Rightarrow> mapG (\<lambda>m. rel (int n) (int m)) (value_Uint (snd ev))
      | Some (FloatV w x) \<Rightarrow> mapG (frel x) (value_Float (snd ev))
      | Some (TimeV t l) \<Rightarrow> mapG (rel t) (value_Time ev)
      | _ \<Rightarrow> bad_field_type env f)"

text \<open>\<open>Value.String\<close> does not panic on other kinds, but describes the type.\<close>

definition isEqField :: "'f Func" where
  "isEqField env tp cur f param =
     bindG (cross_value cur param) (\<lambda>ev.
       case f of
         Some (StringV s) \<Rightarrow> Inr (s = (case snd ev of Some (StringV t) \<Rightarrow> t | v \<Rightarrow> ve_String env v))
       | Some (SliceV t xs) \<Rightarrow> mapG (\<lambda>n. length xs = n) (value_Len (snd ev))
       | Some (ArrayV t xs) \<Rightarrow> mapG (\<lambda>n. length xs = n) (value_Len (snd ev))
       | Some (MapV k t kvs) \<Rightarrow> mapG (\<lambda>n. length kvs = n) (value_Len (snd ev))
       | _ \<Rightarrow> compare_value (=) (ve_feq env) env f ev)"

definition isNeField :: "'f Func" where
  "isNeField env tp cur f param = mapG Not (isEqField env tp cur f param)"

definition isGteField :: "'f Func" where
  "isGteField env tp cur f param =
     bindG (cross_value cur param) (compare_value (\<lambda>a b. b \<le> a) (\<lambda>a b. ve_fle env b a) env f)"

definition isGtField :: "'f Func" where
  "isGtField env tp cur f param =
     bindG (cross_value cur param) (compare_value (\<lambda>a b. b < a) (\<lambda>a b. ve_flt env b a) env f)"

definition isLteField :: "'f Func" where
  "isLteField env tp cur f param = bindG (cross_value cur param) (compare_value (\<le>) (ve_fle env) env f)"

definition isLtField :: "'f Func" where
  "isLtField env tp cur f param = bindG (cross_value cur param) (compare_value (<) (ve_flt env) env f)"

section \<open>The table\<close>

definition BakedInValidators :: "(string \<times> 'f Func) list" where
  "BakedInValidators =
    [(''required'', hasValue), (''len'', hasLengthOf), (''min'', hasMinOf), (''max'', hasMaxOf),
     (''eq'', isEq), (''ne'', isNe), (''lt'', isLt), (''lte'', isLte), (''gt'', isGt), (''gte'', isGte),
     (''eqfield'', isEqField), (''nefield'', isNeField), (''gtefield'', isGteField), (''gtfield'', isGtField),
     (''ltefield'', isLteField), (''ltfield'', isLtField),
     (''alpha'', isAlpha), (''alphanum'', isAlphanum), (''numeric'', isNumeric), (''number'', isNumber),
     (''hexadecimal'', isHexadecimal), (''hexcolor'', isHexcolor), (''rgb'', isRgb), (''rgba'', isRgba),
     (''hsl'', isHsl), (''hsla'', isHsla), (''email'', isEmail), (''url'', isURL), (''uri'', isURI),
     (''base64'', isBase64), (''contains'', contains_text), (''containsany'', containsAny),
     (''containsrune'', containsRune), (''excludes'', excludes), (''excludesall'', excludesAll),
     (''excludesrune'', excludesRune), (''isbn'', isISBN), (''isbn10'', isISBN10), (''isbn13'', isISBN13),
     (''uuid'', isUUID), (''uuid3'', isUUID3), (''uuid4'', isUUID4), (''uuid5'', isUUID5),
     (''ascii'', isASCII), (''printascii'', isPrintableASCII), (''multibyte'', hasMultiByteCharacter),
     (''datauri'', isDataURI), (''latitude'', isLatitude), (''longitude'', isLongitude), (''ssn'', isSSN)]"

end
