(* ===== verification/BakedInProps.thy ===== *)
theory BakedInProps
  imports BakedIn Base64
begin

text \<open>
  What the built-in validators decide: the bounds of \<open>min\<close>, \<open>max\<close> and \<open>len\<close>, the check digits of book
  numbers, and the languages of the simple patterns.
\<close>

section \<open>Numerals in parameters\<close>

lemma parse_digits_append:
  "parse_digits base a (s @ t) = (case parse_digits base a s of Inl e \<Rightarrow> Inl e | Inr b \<Rightarrow> parse_digits base b t)"
  by (induction base a s rule: parse_digits.induct) (auto split: option.splits)

lemma digit_of_digit_char: "d < 10 \<Longrightarrow> digit_of (digit_char d) = Some d"
  by (simp add: digit_of_def of_digit_char)

lemma parse_nat_dec: "n < 2 ^ 64 \<Longrightarrow> parse_digits 10 0 (nat_dec n) = Inr n"
proof (induction n rule: nat_dec.induct)
  case (1 n)
  show ?case
  proof (cases "n < 10")
    case True
    then show ?thesis by (subst nat_dec.simps) (simp add: digit_of_digit_char)
  next
    case False
    moreover have "n div 10 < 2 ^ 64" using 1(2) by simp
    ultimately have "parse_digits 10 0 (nat_dec (n div 10)) = Inr (n div 10)" using 1(1) by blast
    with False 1(2) show ?thesis
      by (subst nat_dec.simps) (simp add: parse_digits_append digit_of_digit_char)
  qed
qed

lemma hd_nat_dec: "0 < n \<Longrightarrow> hd (nat_dec n) \<noteq> CHR ''0''"
proof (induction n rule: nat_dec.induct)
  case (1 n)
  show ?case
  proof (cases "n < 10")
    case True
    have "digit_val (CHR ''0'') = 0" by (simp add: digit_val_def)
    with digit_char_simps(2) [OF True] 1(2) have "digit_char n \<noteq> CHR ''0''" by (intro notI) simp
    with True show ?thesis by (subst nat_dec.simps) simp
  next
    case False
    then have "0 < n div 10" by simp
    with 1(1) [OF False] have "hd (nat_dec (n div 10)) \<noteq> CHR ''0''" by blast
    with False show ?thesis by (subst nat_dec.simps) simp
  qed
qed

lemma ParseUint64_nat_dec: "n < 2 ^ 64 \<Longrightarrow> ParseUint64 (nat_dec n) = Inr n"
proof (cases "n = 0")
  case True
  then show ?thesis by (simp add: nat_dec.simps ParseUint64_def digit_char_def digit_of_def Let_def)
next
  case False
  assume "n < 2 ^ 64"
  with False hd_nat_dec [of n] parse_nat_dec [of n] show ?thesis
    by (cases "nat_dec n") (auto simp: ParseUint64_def)
qed

lemma nat_dec_no_sign: "hd (nat_dec n) \<noteq> CHR ''-''" "hd (nat_dec n) \<noteq> CHR ''+''"
proof -
  have "is_digit (hd (nat_dec n))" using nat_dec_digits by (metis list.set_sel(1) nat_dec_not_Nil)
  moreover have "\<not> is_digit (CHR ''-'')" "\<not> is_digit (CHR ''+'')" by (simp_all add: is_digit_def)
  ultimately show "hd (nat_dec n) \<noteq> CHR ''-''" "hd (nat_dec n) \<noteq> CHR ''+''" by metis+
qed

lemma ParseInt64_int_dec:
  assumes "- (2 ^ 63) \<le> i" "i < 2 ^ 63"
  shows "ParseInt64 (int_dec i) = Inr i"
proof (cases "i < 0")
  case True
  with assms(1) have "nat (- i) < 2 ^ 64" by simp
  from ParseUint64_nat_dec [OF this] True assms show ?thesis by (simp add: ParseInt64_def int_dec_def Let_def)
next
  case False
  with assms(2) have "nat i < 2 ^ 64" by simp
  from ParseUint64_nat_dec [OF this] False assms nat_dec_no_sign [of "nat i"] show ?thesis
    by (simp add: ParseInt64_def int_dec_def Let_def)
qed

lemma asInt_int_dec: "- (2 ^ 63) \<le> i \<Longrightarrow> i < 2 ^ 63 \<Longrightarrow> asInt env (int_dec i) = Inr i"
  by (simp add: asInt_def panicIf_def ParseInt64_int_dec)

lemma asUint_int_dec: "0 \<le> i \<Longrightarrow> i < 2 ^ 64 \<Longrightarrow> asUint env (int_dec i) = Inr (nat i)"
  by (simp add: asUint_def panicIf_def int_dec_def ParseUint64_nat_dec)

section \<open>Bounds\<close>

text \<open>What is compared with a bound: the number of runes or elements, or the number itself.\<close>

fun extent :: "'f rval \<Rightarrow> int option" where
  "extent (StringV s) = Some (int (RuneCountInString s))"
| "extent (SliceV t xs) = Some (int (length xs))"
| "extent (ArrayV t xs) = Some (int (length xs))"
| "extent (MapV k t kvs) = Some (int (length kvs))"
| "extent (IntV w i) = Some i"
| "extent (UintV w n) = Some (int n)"
| "extent _ = None"

text \<open>The bounds that a tag can state for a value.\<close>

definition bound_for :: "'f rval \<Rightarrow> int \<Rightarrow> bool" where
  "bound_for v b \<longleftrightarrow> (case v of UintV w n \<Rightarrow> 0 \<le> b \<and> b < 2 ^ 64 | _ \<Rightarrow> - (2 ^ 63) \<le> b \<and> b < 2 ^ 63)"

lemma compare_size_extent:
  assumes "extent v = Some n" "bound_for v b"
  shows "compare_size rel frel env (Some v) (int_dec b) = Inr (rel n b)"
  using assms by (cases v) (auto simp: compare_size_def compare_number_def bound_for_def asInt_int_dec asUint_int_dec)

lemmas size_defs = isGte_def isGt_def isLte_def isLt_def hasMinOf_def hasMaxOf_def hasLengthOf_def


definition sample_venv :: "nat venv" where
  "sample_venv = \<lparr>ve_ParseFloat = \<lambda>_. Inl ErrSyntax, ve_feq = (=), ve_flt = (<), ve_fle = (\<le>), ve_fzero = 0,
     ve_ParseRequestURI = \<lambda>_. Inr [], ve_Now = 0, ve_T = \<lambda>_. [], ve_Quote = \<lambda>s. s, ve_String = \<lambda>_. [], ve_Sprint = \<lambda>_. []\<rparr>"


section \<open>Patterns of ASCII\<close>

text \<open>An expression whose classes are ASCII matches a string byte by byte.\<close>

primrec ascii_only :: "regex \<Rightarrow> bool" where
  "ascii_only Never \<longleftrightarrow> True"
| "ascii_only Empty \<longleftrightarrow> True"
| "ascii_only (Class cs) \<longleftrightarrow> list_all (\<lambda>(a, z). z < 0x80) cs"
| "ascii_only (NotIn cs) \<longleftrightarrow> False"
| "ascii_only (Either p q) \<longleftrightarrow> ascii_only p \<and> ascii_only q"
| "ascii_only (Then p q) \<longleftrightarrow> ascii_only p \<and> ascii_only q"
| "ascii_only (Many p) \<longleftrightarrow> ascii_only p"

lemma star_all: "w \<in> star A \<Longrightarrow> (\<And>x. x \<in> A \<Longrightarrow> list_all P x) \<Longrightarrow> list_all P w"
  by (induction rule: star.induct) auto

lemma ascii_only_lang: "ascii_only p \<Longrightarrow> w \<in> lang p \<Longrightarrow> list_all (\<lambda>r. r < 0x80) w"
proof (induction p arbitrary: w)
  case (Class cs)
  then show ?case by (auto simp: in_class_def list_all_iff list_ex_iff)
next
  case (Many p)
  have "list_all (\<lambda>r. r < 0x80) x" if "x \<in> lang p" for x using Many.IH [of x] Many.prems(1) that by simp
  with Many.prems(2) star_all show ?case by (metis lang.simps(7))
qed auto

lemma match_ascii:
  assumes "ascii_only p"
  shows "MatchString (Whole p) s \<longleftrightarrow> map code s \<in> lang p"
proof (cases "list_all (\<lambda>c. code c < 0x80) s")
  case True
  then show ?thesis by (simp add: match_whole runes_all_ascii)
next
  case False
  then have "\<not> list_all (\<lambda>r. r < 0x80) (runes s)" by (simp add: ascii_runes)
  moreover from False have "\<not> list_all (\<lambda>r. r < 0x80) (map code s)" by (simp add: list_all_iff)
  ultimately show ?thesis using ascii_only_lang [OF assms] match_whole by blast
qed

lemma in_digits: "in_class (code c) digits \<longleftrightarrow> is_digit c"
  by (simp add: in_class_def digits_def range_of_def is_digit_def)

lemma lang_digits: "map code s \<in> lang (repeat n digit) \<longleftrightarrow> length s = n \<and> list_all is_digit s"
  by (simp add: digit_def lang_repeat_class list_all_iff in_digits)

lemma ascii_digits: "ascii_only (repeat n digit)"
  by (induction n) (simp_all add: digit_def digits_def range_of_def)

lemma isNumber_digits: "MatchString numberRegex s \<longleftrightarrow> s \<noteq> [] \<and> list_all is_digit s"
proof -
  have "ascii_only (some digit)" by (simp add: some_def digit_def digits_def range_of_def)
  then show ?thesis
    by (simp add: numberRegex_def match_ascii digit_def lang_some_class list_all_iff in_digits)
qed

section \<open>Check digits\<close>

lemma map_code_eq [simp]: "map code s = map code t \<longleftrightarrow> s = t"
  by (auto simp: inj_map_eq_map inj_def)

lemma code_lit: "map code s \<in> lang (lit t) \<longleftrightarrow> s = t"
  by (simp add: lang_lit)

lemma code_seqs: "map code s \<in> lang (seqs (p # ps)) \<longleftrightarrow>
    (\<exists>s1 s2. s = s1 @ s2 \<and> map code s1 \<in> lang p \<and> map code s2 \<in> lang (seqs ps))"
  unfolding lang_seqs by (auto simp: map_eq_append_conv)

lemma code_alts: "map code s \<in> lang (alts (p # ps)) \<longleftrightarrow> map code s \<in> lang p \<or> map code s \<in> lang (alts ps)"
  unfolding lang_alts by blast

lemma code_none: "map code s \<in> lang (seqs []) \<longleftrightarrow> s = []" "map code s \<notin> lang (alts [])"
  by simp_all

lemmas code_lang = code_lit code_seqs code_alts code_none lang_digits

lemma isbn10_match:
  "MatchString iSBN10Regex s \<longleftrightarrow> length s = 10 \<and> list_all is_digit (take 9 s) \<and> (is_digit (s ! 9) \<or> s ! 9 = CHR ''X'')"
proof -
  have a: "ascii_only (alts [seqs [repeat 9 digit, lit ''X''], repeat 10 digit])"
    using ascii_digits [of 9] ascii_digits [of 10] by (simp add: lit_def del: repeat.simps)
  have m: "MatchString iSBN10Regex s \<longleftrightarrow> (\<exists>t. s = t @ ''X'' \<and> length t = 9 \<and> list_all is_digit t) \<or>
      length s = 10 \<and> list_all is_digit s"
    unfolding iSBN10Regex_def match_ascii [OF a] code_lang by simp
  show ?thesis
  proof (cases "length s = 10")
    case True
    then obtain t c where s: "s = t @ [c]" "length t = 9" by (cases s rule: rev_cases) auto
    then show ?thesis unfolding m by (auto simp: nth_append)
  qed (auto simp: m)
qed

lemma isbn13_match:
  "MatchString iSBN13Regex s \<Longrightarrow> length s = 13 \<and> list_all is_digit s"
proof -
  have a: "ascii_only (seqs [seqs [lit ''97'', alts [lit ''8'', lit ''9'']], repeat 10 digit])"
    using ascii_digits [of 10] by (simp add: lit_def del: repeat.simps)
  have d: "is_digit (CHR ''9'')" "is_digit (CHR ''7'')" "is_digit (CHR ''8'')" by (simp_all add: is_digit_def)
  assume "MatchString iSBN13Regex s"
  then show ?thesis
    unfolding iSBN13Regex_def match_ascii [OF a] code_lang using d by auto
qed

text \<open>Dashes and spaces are removed first: a text of full length that is accepted has none.\<close>

lemma remove_first_le: "length (remove_first n c s) \<le> length s"
  by (induction n c s rule: remove_first.induct) auto

lemma remove_first_id: "length (remove_first n c s) = length s \<Longrightarrow> remove_first n c s = s"
proof (induction n c s rule: remove_first.induct)
  case (3 n c x s)
  then show ?case using remove_first_le [of n c s] by (auto split: if_splits)
qed auto

lemma removed_length:
  assumes "length (remove_first n c (remove_first m d s)) = length s"
  shows "remove_first n c (remove_first m d s) = s"
proof -
  have "length (remove_first m d s) = length s"
    using assms remove_first_le [of n c "remove_first m d s"] remove_first_le [of m d s] by linarith
  then have m: "remove_first m d s = s" by (rule remove_first_id)
  show ?thesis using assms unfolding m by (rule remove_first_id)
qed

lemma list_update_other: "j \<in> A - {i} \<Longrightarrow> xs[i := c] ! j = xs ! j"
  by simp

lemma weighted_update:
  fixes w :: "nat \<Rightarrow> int"
  assumes "i < n" "n \<le> length xs"
  shows "(\<Sum>j<n. w j * f (xs[i := c] ! j)) = (\<Sum>j<n. w j * f (xs ! j)) + w i * (f c - f (xs ! i))"
proof -
  have "(\<Sum>j \<in> {..<n} - {i}. w j * f (xs[i := c] ! j)) = (\<Sum>j \<in> {..<n} - {i}. w j * f (xs ! j))"
    by (intro sum.cong refl) (simp only: list_update_other)
  moreover have "i \<in> {..<n}" "i < length xs" using assms by auto
  moreover from this have "(\<Sum>j<n. g j) = g i + (\<Sum>j \<in> {..<n} - {i}. g j)" for g :: "nat \<Rightarrow> int"
    by (intro sum.remove) auto
  ultimately show ?thesis by (simp add: right_diff_distrib)
qed

lemma small_multiple:
  assumes "(n :: int) dvd b" "\<bar>b\<bar> < n"
  shows "b = 0"
proof (rule ccontr)
  assume "b \<noteq> 0"
  with dvd_imp_le_int [OF this assms(1)] assms(2) show False by simp
qed

lemma coprime_11: "0 < n \<Longrightarrow> n < 11 \<Longrightarrow> coprime 11 (n :: nat)"
proof -
  assume n: "0 < n" "n < 11"
  have "list_all (\<lambda>n. n = 0 \<or> coprime 11 n) [0..<11 :: nat]" by code_simp
  then have "\<forall>n \<in> set [0..<11]. n = 0 \<or> coprime 11 n" unfolding list_all_iff .
  moreover have "n \<in> set [0..<11]" using n(2) by simp
  ultimately have "n = 0 \<or> coprime 11 n" by (rule bspec)
  then show ?thesis
  proof
    assume "n = 0"
    with n(1) show ?thesis by simp
  qed
qed

lemma multiple_of_11:
  assumes "(11 :: int) dvd a * b" "\<bar>a\<bar> \<le> 10" "\<bar>b\<bar> \<le> 10"
  shows "a = 0 \<or> b = 0"
proof (cases "a = 0")
  case False
  with assms(2) have "coprime 11 (nat \<bar>a\<bar>)" by (intro coprime_11) auto
  then have "coprime (int 11) (int (nat \<bar>a\<bar>))" by (simp only: coprime_int_iff)
  then have "coprime (11 :: int) a" by simp
  with assms(1) have "11 dvd b" by (simp only: coprime_dvd_mult_right_iff)
  with small_multiple [of 11 b] assms(3) show ?thesis by simp
qed simp

definition isbn_val :: "char \<Rightarrow> int" where
  "isbn_val c = (if c = CHR ''X'' then 10 else int (digit_val c))"

definition isbn10_sum :: "string \<Rightarrow> int" where
  "isbn10_sum s = (\<Sum>j<10. (int j + 1) * isbn_val (s ! j))"

definition isbn10_shape :: "string \<Rightarrow> bool" where
  "isbn10_shape s \<longleftrightarrow> length s = 10 \<and> list_all is_digit (take 9 s) \<and> (is_digit (s ! 9) \<or> s ! 9 = CHR ''X'')"

lemma remove_first_absent: "c \<notin> set s \<Longrightarrow> remove_first n c s = s"
  by (induction n c s rule: remove_first.induct) auto

lemma isbn10_chars:
  assumes "isbn10_shape s" "c \<in> set s"
  shows "is_digit c \<or> c = CHR ''X''"
proof -
  obtain t d where s: "s = t @ [d]" "length t = 9"
    using assms(1) by (cases s rule: rev_cases) (auto simp: isbn10_shape_def)
  with assms show ?thesis by (auto simp: isbn10_shape_def nth_append list_all_iff)
qed

lemma isISBN10_iff:
  assumes "length s = 10"
  shows "isISBN10 env tp cur (Some (StringV s)) p = Inr (isbn10_shape s \<and> isbn10_sum s mod 11 = 0)"
proof -
  let ?t = "remove_first 3 (CHR '' '') (remove_first 3 (CHR ''-'') s)"
  have x: "\<not> is_digit (CHR ''X'')" by (simp add: is_digit_def)
  show ?thesis
  proof (cases "MatchString iSBN10Regex ?t")
    case True
    with assms removed_length have t: "?t = s" by (simp add: isbn10_match)
    from True have sh: "isbn10_shape s" unfolding t isbn10_match isbn10_shape_def .
    then have "is_digit (s ! i)" if "i < 9" for i
      using that by (simp add: isbn10_shape_def list_all_length)
    with x have "s ! i \<noteq> CHR ''X''" if "i < 9" for i using that by metis
    then have "(\<Sum>j<9. (int j + 1) * isbn_val (s ! j)) = (\<Sum>i\<leftarrow>[0..<9]. (int i + 1) * int (digit_val (s ! i)))"
      by (simp add: interv_sum_list_conv_sum_set_nat atLeast0LessThan isbn_val_def)
    moreover have "{..<10 :: nat} = insert 9 {..<9}" by auto
    ultimately have "isbn10_sum s = (\<Sum>i\<leftarrow>[0..<9]. (int i + 1) * int (digit_val (s ! i))) +
        (if s ! 9 = CHR ''X'' then 10 * 10 else 10 * int (digit_val (s ! 9)))"
      by (simp add: isbn10_sum_def isbn_val_def)
    with True sh show ?thesis by (simp add: isISBN10_def as_string_def Let_def t)
  next
    case False
    have "\<not> isbn10_shape s"
    proof
      assume sh: "isbn10_shape s"
      then have "c \<notin> set s" if "\<not> is_digit c" "c \<noteq> CHR ''X''" for c
        using that isbn10_chars [OF sh] by blast
      then have "?t = s" by (simp add: remove_first_absent is_digit_def)
      with False sh show False by (simp add: isbn10_match isbn10_shape_def)
    qed
    with False show ?thesis by (simp add: isISBN10_def as_string_def)
  qed
qed

lemma isbn_val_bound: "is_digit c \<or> c = CHR ''X'' \<Longrightarrow> 0 \<le> isbn_val c \<and> isbn_val c \<le> 10"
  by (auto simp: isbn_val_def is_digit_def digit_val_def)

lemma isbn_val_inj:
  assumes "is_digit c \<or> c = CHR ''X''" "is_digit d \<or> d = CHR ''X''" "isbn_val c = isbn_val d"
  shows "c = d"
proof -
  have "code c = code d" using assms by (auto simp: isbn_val_def is_digit_def digit_val_def split: if_splits)
  then show ?thesis by simp
qed

lemma isbn10_nth: "isbn10_shape s \<Longrightarrow> i < 10 \<Longrightarrow> is_digit (s ! i) \<or> s ! i = CHR ''X''"
  using isbn10_chars [of s "s ! i"] by (simp add: isbn10_shape_def)

lemma isbn10_diff:
  assumes "isbn10_shape s" "i < 10" "j < 10"
  shows "\<bar>isbn_val (s ! i) - isbn_val (s ! j)\<bar> \<le> 10"
  using isbn_val_bound [OF isbn10_nth [OF assms(1,2)]] isbn_val_bound [OF isbn10_nth [OF assms(1,3)]] by linarith

lemma isbn10_single:
  assumes "isbn10_shape s" "isbn10_sum s mod 11 = 0" "i < 10" "c \<noteq> s ! i" "isbn10_shape (s[i := c])"
  shows "isbn10_sum (s[i := c]) mod 11 \<noteq> 0"
proof
  assume z: "isbn10_sum (s[i := c]) mod 11 = 0"
  have len: "length s = 10" using assms(1) by (simp add: isbn10_shape_def)
  let ?b = "isbn_val c - isbn_val (s ! i)"
  have "isbn10_sum (s[i := c]) = isbn10_sum s + (int i + 1) * ?b"
    unfolding isbn10_sum_def using weighted_update [of i 10 s "\<lambda>j. int j + 1" isbn_val c] assms(3) len by simp
  with assms(2) z have "11 dvd (int i + 1) * ?b" by (metis add_diff_cancel_left' dvd_diff mod_0_imp_dvd)
  moreover have c: "is_digit c \<or> c = CHR ''X''" using isbn10_nth [OF assms(5,3)] assms(3) len by simp
  have "\<bar>?b\<bar> \<le> 10" using isbn_val_bound [OF c] isbn_val_bound [OF isbn10_nth [OF assms(1,3)]] by linarith
  ultimately have "?b = 0" using multiple_of_11 [of "int i + 1" ?b] assms(3) by auto
  with isbn_val_inj [OF c isbn10_nth [OF assms(1,3)]] assms(4) show False by simp
qed

lemma isbn10_swap:
  assumes "isbn10_shape s" "isbn10_sum s mod 11 = 0" "i < 10" "j < 10" "s ! i \<noteq> s ! j"
    "isbn10_shape (s[i := s ! j, j := s ! i])"
  shows "isbn10_sum (s[i := s ! j, j := s ! i]) mod 11 \<noteq> 0"
proof
  assume z: "isbn10_sum (s[i := s ! j, j := s ! i]) mod 11 = 0"
  have len: "length s = 10" using assms(1) by (simp add: isbn10_shape_def)
  let ?a = "isbn_val (s ! i)" and ?b = "isbn_val (s ! j)"
  have ij: "i \<noteq> j" using assms(5) by auto
  have "isbn10_sum (s[i := s ! j, j := s ! i]) = isbn10_sum (s[i := s ! j]) + (int j + 1) * (?a - ?b)"
    unfolding isbn10_sum_def
    using weighted_update [of j 10 "s[i := s ! j]" "\<lambda>j. int j + 1" isbn_val "s ! i"] assms(4) len ij by simp
  moreover have "isbn10_sum (s[i := s ! j]) = isbn10_sum s + (int i + 1) * (?b - ?a)"
    unfolding isbn10_sum_def using weighted_update [of i 10 s "\<lambda>j. int j + 1" isbn_val "s ! j"] assms(3) len by simp
  ultimately have "isbn10_sum (s[i := s ! j, j := s ! i]) = isbn10_sum s + (int j - int i) * (?a - ?b)"
    by (simp add: algebra_simps)
  with assms(2) z have "11 dvd (int j - int i) * (?a - ?b)" by (metis add_diff_cancel_left' dvd_diff mod_0_imp_dvd)
  moreover have "\<bar>int j - int i\<bar> \<le> 10" using assms(3,4) by auto
  ultimately have "?a = ?b" using multiple_of_11 [of "int j - int i" "?a - ?b"] isbn10_diff [OF assms(1,3,4)] ij
    by auto
  with isbn_val_inj isbn10_nth [OF assms(1)] assms(3-5) show False by blast
qed



text \<open>The check digit of an ISBN-13 detects a change of one character.\<close>

definition isbn13_weight :: "nat \<Rightarrow> int" where
  "isbn13_weight j = [1, 3] ! (j mod 2)"

definition isbn13_sum :: "string \<Rightarrow> int" where
  "isbn13_sum s = (\<Sum>j<13. isbn13_weight j * int (digit_val (s ! j)))"

text \<open>The check digit makes the sum a multiple of ten.\<close>

lemma check_digit_ten:
  fixes c d :: int
  assumes "0 \<le> d" "d \<le> 9"
  shows "(d - (10 - c mod 10) mod 10 = 0) = ((c + d) mod 10 = 0)"
proof -
  have m: "0 \<le> c mod 10" "c mod 10 < 10" by simp_all
  have e: "(c + d) mod 10 = (c mod 10 + d) mod 10" by (simp only: mod_add_left_eq)
  show ?thesis
  proof (cases "c mod 10 + d < 10")
    case True
    with m assms have "(c mod 10 + d) mod 10 = c mod 10 + d" by simp
    moreover have "(10 - c mod 10) mod 10 = 10 - c mod 10" if "c mod 10 \<noteq> 0"
      using m that by (intro mod_pos_pos_trivial) auto
    moreover have "(10 - c mod 10) mod 10 = 0" if "c mod 10 = 0" using that by simp
    ultimately show ?thesis using True m assms unfolding e by (cases "c mod 10 = 0") auto
  next
    case False
    have "(c mod 10 + d) mod 10 = (c mod 10 + d - 10) mod 10" by simp
    moreover have "(c mod 10 + d - 10) mod 10 = c mod 10 + d - 10" using False m assms by (intro mod_pos_pos_trivial) auto
    moreover have "(10 - c mod 10) mod 10 = 10 - c mod 10" using False m assms by (intro mod_pos_pos_trivial) auto
    ultimately show ?thesis unfolding e by auto
  qed
qed

lemma isISBN13_iff:
  assumes "length s = 13"
  shows "isISBN13 env tp cur (Some (StringV s)) p = Inr (MatchString iSBN13Regex s \<and> isbn13_sum s mod 10 = 0)"
proof -
  let ?t = "remove_first 4 (CHR '' '') (remove_first 4 (CHR ''-'') s)"
  have t: "?t = s" if "MatchString iSBN13Regex s \<or> MatchString iSBN13Regex ?t"
  proof (cases "MatchString iSBN13Regex ?t")
    case True
    with assms removed_length isbn13_match [OF True] show ?thesis by simp
  next
    case False
    with that have "list_all is_digit s" by (simp add: isbn13_match)
    then have "c \<notin> set s" if "\<not> is_digit c" for c using that by (auto simp: list_all_iff)
    then show ?thesis by (simp add: remove_first_absent is_digit_def)
  qed
  have "{..<13 :: nat} = insert 12 {..<12}" by auto
  then have sum: "isbn13_sum s = (\<Sum>i\<leftarrow>[0..<12]. [1, 3] ! (i mod 2) * int (digit_val (s ! i))) + int (digit_val (s ! 12))"
    by (simp add: isbn13_sum_def interv_sum_list_conv_sum_set_nat atLeast0LessThan isbn13_weight_def)
  show ?thesis
  proof (cases "MatchString iSBN13Regex s")
    case True
    then have "is_digit (s ! 12)" using isbn13_match [OF True] by (simp add: list_all_length)
    then have "0 \<le> int (digit_val (s ! 12))" "int (digit_val (s ! 12)) \<le> 9" by (simp_all add: is_digit_def digit_val_def)
    from check_digit_ten [OF this] True t show ?thesis by (simp add: isISBN13_def as_string_def Let_def sum)
  next
    case False
    with t have "\<not> MatchString iSBN13Regex ?t" by metis
    with False show ?thesis by (simp add: isISBN13_def as_string_def)
  qed
qed

lemma list_all_nth: "list_all P xs \<Longrightarrow> i < length xs \<Longrightarrow> P (xs ! i)"
  by (simp add: list_all_length)

lemma isbn13_detects:
  assumes "isISBN13 env tp cur (Some (StringV s)) p = Inr True" "length s = 13" "i < 13" "c \<noteq> s ! i"
  shows "isISBN13 env tp cur (Some (StringV (s[i := c]))) p = Inr False"
proof -
  have s: "MatchString iSBN13Regex s" "isbn13_sum s mod 10 = 0"
    using assms(1) isISBN13_iff [OF assms(2), of env tp cur p] by simp_all
  have "isbn13_sum (s[i := c]) mod 10 \<noteq> 0" if m: "MatchString iSBN13Regex (s[i := c])"
  proof
    assume z: "isbn13_sum (s[i := c]) mod 10 = 0"
    let ?b = "int (digit_val c) - int (digit_val (s ! i))"
    have "isbn13_sum (s[i := c]) = isbn13_sum s + isbn13_weight i * ?b"
      unfolding isbn13_sum_def
      using weighted_update [of i 13 s isbn13_weight "\<lambda>c. int (digit_val c)" c] assms(2,3) by simp
    with s(2) z have "10 dvd isbn13_weight i * ?b" by (metis add_diff_cancel_left' dvd_diff mod_0_imp_dvd)
    moreover have "isbn13_weight i = 1 \<or> isbn13_weight i = 3"
      by (cases "i mod 2 = 0") (auto simp: isbn13_weight_def nth_Cons')
    moreover have d: "is_digit c" "is_digit (s ! i)"
      using isbn13_match [OF m] isbn13_match [OF s(1)] assms(2,3) list_all_nth [of is_digit "s[i := c]" i]
        list_all_nth [of is_digit s i] by simp_all
    then have "\<bar>?b\<bar> \<le> 9" unfolding is_digit_def digit_val_def by linarith
    moreover have "coprime (10 :: int) 3" by code_simp
    ultimately have "10 dvd ?b" by (metis coprime_dvd_mult_right_iff mult_1)
    with small_multiple [of 10 ?b] \<open>\<bar>?b\<bar> \<le> 9\<close> have "digit_val c = digit_val (s ! i)" by simp
    with d have "code c = code (s ! i)" unfolding is_digit_def digit_val_def by linarith
    with assms(4) show False by simp
  qed
  then show ?thesis using assms(2) by (auto simp: isISBN13_iff)
qed

section \<open>Base64\<close>

lemma b64_sextet: "in_class (code (sextet k)) b64"
proof -
  have "list_all (\<lambda>c. in_class (code c) b64) alphabet" by code_simp
  then show ?thesis using distinct_alphabet(2) by (simp add: sextet_def list_all_length)
qed

definition b64_last :: regex where
  "b64_last = alts [seqs [repeat 2 (Class b64), lit ''==''], seqs [repeat 3 (Class b64), lit ''=''], repeat 4 (Class b64)]"

lemma code_b64: "map code s \<in> lang (repeat n (Class b64)) \<longleftrightarrow> length s = n \<and> list_all (\<lambda>c. in_class (code c) b64) s"
  by (simp add: lang_repeat_class list_all_iff)

lemma base64_lang:
  "s \<noteq> [] \<Longrightarrow> \<exists>u v. base64 s = u @ v \<and> map code u \<in> star (lang (repeat 4 (Class b64))) \<and> map code v \<in> lang b64_last"
proof (induction s rule: base64.induct)
  case (1 a b c s)
  let ?n = "triple a b c"
  let ?q = "[sextet (?n div 262144), sextet (?n div 4096), sextet (?n div 64), sextet ?n]"
  have q: "map code ?q \<in> lang (repeat 4 (Class b64))" unfolding code_b64 by (simp add: b64_sextet)
  show ?case
  proof (cases "s = []")
    case True
    from q have "map code ?q \<in> lang b64_last" unfolding b64_last_def code_alts by blast
    with True star_Nil show ?thesis by (intro exI [of _ "[]"] exI [of _ ?q]) (simp add: Let_def)
  next
    case False
    with 1 obtain u v where "base64 s = u @ v" "map code u \<in> star (lang (repeat 4 (Class b64)))" "map code v \<in> lang b64_last"
      by blast
    moreover from star_step [OF q this(2)] have "map code (?q @ u) \<in> star (lang (repeat 4 (Class b64)))" by simp
    ultimately show ?thesis by (intro exI [of _ "?q @ u"] exI [of _ v]) (simp add: Let_def)
  qed
next
  case (2 a b)
  let ?n = "triple a b (CHR 0x00)"
  let ?q = "[sextet (?n div 262144), sextet (?n div 4096), sextet (?n div 64)]"
  have "map code ?q \<in> lang (repeat 3 (Class b64))" unfolding code_b64 by (simp add: b64_sextet)
  then have "map code (?q @ ''='') \<in> lang b64_last"
    unfolding b64_last_def code_alts code_seqs [of _ "repeat 3 _"] code_seqs [of _ "lit _"] code_none code_lit by blast
  with star_Nil show ?case by (intro exI [of _ "[]"] exI [of _ "?q @ ''=''"]) (simp add: Let_def)
next
  case (3 a)
  let ?n = "triple a (CHR 0x00) (CHR 0x00)"
  let ?q = "[sextet (?n div 262144), sextet (?n div 4096)]"
  have "map code ?q \<in> lang (repeat 2 (Class b64))" unfolding code_b64 by (simp add: b64_sextet)
  then have "map code (?q @ ''=='') \<in> lang b64_last"
    unfolding b64_last_def code_alts code_seqs [of _ "repeat 2 _"] code_seqs [of _ "lit _"] code_none code_lit by blast
  with star_Nil show ?case by (intro exI [of _ "[]"] exI [of _ "?q @ ''==''"]) (simp add: Let_def)
qed simp

text \<open>Whatever is encoded passes the validator \<open>base64\<close>, unless it is empty.\<close>

lemma isBase64_encoded:
  assumes "s \<noteq> []"
  shows "isBase64 env tp cur (Some (StringV (base64 s))) p = Inr True"
proof -
  have a: "ascii_only (seqs [Many (repeat 4 (Class b64)), b64_last])" by code_simp
  have "map code (base64 s) \<in> lang (seqs [Many (repeat 4 (Class b64)), b64_last])"
    using base64_lang [OF assms] unfolding code_seqs code_none lang.simps(7) by (metis append_Nil2)
  with match_ascii [OF a] show ?thesis
    by (simp add: isBase64_def matchesRegex_def as_string_def base64Regex_def b64_last_def)
qed

lemma isBase64_empty: "isBase64 env tp cur (Some (StringV [])) p = Inr False"
  unfolding isBase64_def matchesRegex_def as_string_def base64Regex_def by (simp add: match_simps eval_nat_numeral)

end
