(* ===== verification/Validator.thy ===== *)
theory Validator
  imports BakedIn "HOL-Library.AList"
begin

text \<open>
  The struct validator (\<open>validator.go\<close>, version 5): the tags of a field, the checks they name, the dive
  into slices and maps, and the walk over nested structs, with the two caches of the package. The
  caches hold pointers to mutable objects, so the state is a heap: a \<open>*cachedField\<close> or
  \<open>*cachedStruct\<close> is an address. A call that panics keeps what it did to the heap.
\<close>

section \<open>The heap\<close>

text \<open>An entry of \<open>keyVals\<close> is nil until it is filled.\<close>

record cachedTags =
  ct_keyVals :: "(string \<times> string) option list"
  ct_isOrVal :: bool

record cachedField =
  cf_index :: nat
  cf_name :: string
  cf_tags :: "cachedTags list"
  cf_tag :: string
  cf_kind :: kind
  cf_typ :: rtype
  cf_isTime :: bool
  cf_isSliceOrArray :: bool
  cf_isMap :: bool
  cf_isTimeSubtype :: bool
  cf_subtype :: "rtype option"
  cf_subKind :: kind
  cf_dive :: bool
  cf_diveTag :: string

record cachedStruct =
  cs_children :: int
  cs_name :: string
  cs_fields :: "nat list"

record vheap =
  vh_fields :: "cachedField list"
  vh_structs :: "cachedStruct list"
  vh_structCache :: "struct_type \<Rightarrow> nat option"
  vh_fieldsCache :: "string \<Rightarrow> cachedTags list option"

text \<open>Computations on the heap, with panics.\<close>

type_synonym 'a vm = "vheap \<Rightarrow> 'a go \<times> vheap"

definition returnV :: "'a \<Rightarrow> 'a vm" where "returnV x h = (Inr x, h)"
definition liftV :: "'a go \<Rightarrow> 'a vm" where "liftV r h = (r, h)"
definition throwV :: "string \<Rightarrow> 'a vm" where "throwV m h = (Inl m, h)"

definition bindV :: "'a vm \<Rightarrow> ('a \<Rightarrow> 'b vm) \<Rightarrow> 'b vm" where
  "bindV m f h = (case m h of (Inl e, h) \<Rightarrow> (Inl e, h) | (Inr x, h) \<Rightarrow> f x h)"

definition mapV :: "('a \<Rightarrow> 'b) \<Rightarrow> 'a vm \<Rightarrow> 'b vm" where
  "mapV f m = bindV m (\<lambda>x. returnV (f x))"

definition thenV :: "unit vm \<Rightarrow> 'a vm \<Rightarrow> 'a vm" where
  "thenV m n = bindV m (\<lambda>_. n)"

lemma bindV_cong [fundef_cong]:
  "m = m' \<Longrightarrow> (\<And>x. f x = g x) \<Longrightarrow> bindV m f = bindV m' g"
  by (metis ext)

lemma thenV_cong [fundef_cong]: "m = m' \<Longrightarrow> n = n' \<Longrightarrow> thenV m n = thenV m' n'"
  by simp

lemma mapV_cong [fundef_cong]: "m = m' \<Longrightarrow> f = g \<Longrightarrow> mapV f m = mapV g m'"
  by simp

definition field_at :: "nat \<Rightarrow> cachedField vm" where
  "field_at a h = (Inr (vh_fields h ! a), h)"

definition update_field :: "nat \<Rightarrow> (cachedField \<Rightarrow> cachedField) \<Rightarrow> unit vm" where
  "update_field a f h = (Inr (), h\<lparr>vh_fields := (vh_fields h)[a := f (vh_fields h ! a)]\<rparr>)"

definition new_field :: "cachedField \<Rightarrow> nat vm" where
  "new_field cf h = (Inr (length (vh_fields h)), h\<lparr>vh_fields := vh_fields h @ [cf]\<rparr>)"

definition struct_at :: "nat \<Rightarrow> cachedStruct vm" where
  "struct_at c h = (Inr (vh_structs h ! c), h)"

definition update_struct :: "nat \<Rightarrow> (cachedStruct \<Rightarrow> cachedStruct) \<Rightarrow> unit vm" where
  "update_struct c f h = (Inr (), h\<lparr>vh_structs := (vh_structs h)[c := f (vh_structs h ! c)]\<rparr>)"

definition new_struct :: "cachedStruct \<Rightarrow> nat vm" where
  "new_struct cs h = (Inr (length (vh_structs h)), h\<lparr>vh_structs := vh_structs h @ [cs]\<rparr>)"

definition structCache_Get :: "struct_type \<Rightarrow> nat option vm" where
  "structCache_Get key h = (Inr (vh_structCache h key), h)"

definition structCache_Set :: "struct_type \<Rightarrow> nat \<Rightarrow> unit vm" where
  "structCache_Set key c h = (Inr (), h\<lparr>vh_structCache := (vh_structCache h)(key \<mapsto> c)\<rparr>)"

definition fieldsCache_Get :: "string \<Rightarrow> cachedTags list option vm" where
  "fieldsCache_Get key h = (Inr (vh_fieldsCache h key), h)"

definition fieldsCache_Set :: "string \<Rightarrow> cachedTags list \<Rightarrow> unit vm" where
  "fieldsCache_Set key ts h = (Inr (), h\<lparr>vh_fieldsCache := (vh_fieldsCache h)(key \<mapsto> ts)\<rparr>)"

definition dec_children :: "nat \<Rightarrow> unit vm" where
  "dec_children c = update_struct c (\<lambda>cs. cs\<lparr>cs_children := cs_children cs - 1\<rparr>)"

section \<open>Errors\<close>

text \<open>A placeholder error is one with nested errors; the maps are lists of their entries.\<close>

datatype 'f FieldError =
    FieldError (fe_Field: string) (fe_Tag: string) (fe_Kind: kind) (fe_Type: "rtype option") (fe_Param: string)
      (fe_Value: "'f iface") (fe_nested: "'f nested")
and 'f nested = NoErrs | SliceErrs "(nat \<times> 'f error_of) list" | MapErrs "('f iface \<times> 'f error_of) list"
and 'f error_of = FieldErr "'f FieldError" | StructErr "'f StructErrors"
and 'f StructErrors =
    StructErrors (se_Struct: string) (se_Errors: "(string \<times> 'f FieldError) list")
      (se_StructErrors: "(string \<times> 'f StructErrors) list")

section \<open>The validator\<close>

record 'f Validate =
  v_tagName :: string
  v_funcs :: "string \<rightharpoonup> 'f Func"
  v_env :: "'f venv"

definition New :: "'f venv \<Rightarrow> string \<Rightarrow> (string \<rightharpoonup> 'f Func) \<Rightarrow> 'f Validate" where
  "New env tagName funcs = \<lparr>v_tagName = tagName, v_funcs = funcs, v_env = env\<rparr>"

definition SetTag :: "'f Validate \<Rightarrow> string \<Rightarrow> 'f Validate" where
  "SetTag V tagName = V\<lparr>v_tagName := tagName\<rparr>"

text \<open>A nil function is \<open>None\<close>.\<close>

definition AddFunction :: "'f Validate \<Rightarrow> string \<Rightarrow> 'f Func option \<Rightarrow> string + 'f Validate" where
  "AddFunction V key f =
     (if key = [] then Inl ''Function Key cannot be empty''
      else case f of None \<Rightarrow> Inl ''Function cannot be empty'' | Some g \<Rightarrow> Inr (V\<lparr>v_funcs := (v_funcs V)(key \<mapsto> g)\<rparr>))"

definition tag_of :: "'f Validate \<Rightarrow> field_info \<Rightarrow> string" where
  "tag_of V fi = (case map_of (fi_Tag fi) (v_tagName V) of None \<Rightarrow> [] | Some t \<Rightarrow> t)"

section \<open>Tags\<close>

definition noValidationTag :: string where "noValidationTag = ''-''"
definition structOnlyTag :: string where "structOnlyTag = ''structonly''"
definition omitempty :: string where "omitempty = ''omitempty''"
definition diveTag :: string where "diveTag = ''dive''"

text \<open>\<open>strings.Replace(s, "0x2C", ",", -1)\<close>, and \<open>strings.SplitN(s, p, 2)[1]\<close> where \<open>p\<close> occurs in \<open>s\<close>.\<close>

fun replace_comma :: "string \<Rightarrow> string" where
  "replace_comma (a # b # c # d # s) =
     (if [a, b, c, d] = ''0x2C'' then CHR '','' # replace_comma s else a # replace_comma (b # c # d # s))"
| "replace_comma s = s"

fun after_first :: "string \<Rightarrow> string \<Rightarrow> string" where
  "after_first p [] = []"
| "after_first p (c # s) = (if HasPrefix (c # s) p then drop (length p) (c # s) else after_first p s)"

definition update_last_tag :: "nat \<Rightarrow> (cachedTags \<Rightarrow> cachedTags) \<Rightarrow> unit vm" where
  "update_last_tag a f = update_field a (\<lambda>cf. cf\<lparr>cf_tags := butlast (cf_tags cf) @ [f (last (cf_tags cf))]\<rparr>)"

fun parse_alternatives :: "nat \<Rightarrow> string \<Rightarrow> nat \<Rightarrow> string list \<Rightarrow> unit vm" where
  "parse_alternatives a name i [] = returnV ()"
| "parse_alternatives a name i (val # vals) =
     (case split2 (CHR ''='') val of
        (k, p) \<Rightarrow>
          let key = TrimSpace k
          in if key = [] then throwV (''Invalid validation tag on field '' @ name)
             else
               let param = (case p of None \<Rightarrow> [] | Some p \<Rightarrow> replace_comma p)
               in thenV (update_last_tag a (\<lambda>ct. ct\<lparr>ct_keyVals := (ct_keyVals ct)[i := Some (key, param)]\<rparr>))
                    (parse_alternatives a name (Suc i) vals))"

fun parse_tags :: "nat \<Rightarrow> string \<Rightarrow> string \<Rightarrow> string list \<Rightarrow> unit vm" where
  "parse_tags a name tag [] = returnV ()"
| "parse_tags a name tag (t # ts) =
     (if t = diveTag then
        update_field a (\<lambda>cf. cf\<lparr>cf_dive := True,
          cf_diveTag := dropWhile (\<lambda>c. c = CHR '','') (after_first diveTag tag)\<rparr>)
      else
        let orVals = split_on (CHR ''|'') t
        in thenV (update_field a (\<lambda>cf. cf\<lparr>cf_tags := cf_tags cf @
               [\<lparr>ct_keyVals = replicate (length orVals) None, ct_isOrVal = 1 < length orVals\<rparr>]\<rparr>))
             (thenV (parse_alternatives a name 0 orVals) (parse_tags a name tag ts)))"

text \<open>The tags of a field are parsed once; those of single fields are cached by the whole tag.\<close>

definition ensure_tags :: "nat \<Rightarrow> string \<Rightarrow> string \<Rightarrow> bool \<Rightarrow> unit vm" where
  "ensure_tags a name tag isSingleField =
     bindV (field_at a) (\<lambda>cf.
       if cf_tags cf \<noteq> [] then returnV ()
       else
         bindV (if isSingleField then fieldsCache_Get tag else returnV None) (\<lambda>cached.
           case cached of
             Some ts \<Rightarrow> update_field a (\<lambda>cf. cf\<lparr>cf_tags := ts\<rparr>)
           | None \<Rightarrow>
               thenV (parse_tags a name tag (split_on (CHR '','') tag))
                 (if isSingleField then bindV (field_at a) (\<lambda>cf. fieldsCache_Set (cf_tag cf) (cf_tags cf))
                  else returnV ())))"

section \<open>One field\<close>

definition fieldWithNameAndSingleTag :: "'f Validate \<Rightarrow> 'f iface \<Rightarrow> 'f iface \<Rightarrow> 'f iface \<Rightarrow> string \<Rightarrow> string \<Rightarrow> string \<Rightarrow>
    'f FieldError option go" where
  "fieldWithNameAndSingleTag V val cur f key param name =
     (if key = omitempty then Inr None
      else
        case v_funcs V key of
          None \<Rightarrow> Inl (''Undefined validation function on field '' @ name)
        | Some valFunc \<Rightarrow>
            mapG (\<lambda>ok. if ok then None else Some (FieldError name key Invalid None param f NoErrs))
              (valFunc (v_env V) val cur f param))"

definition single_check :: "'f Validate \<Rightarrow> 'f iface \<Rightarrow> 'f iface \<Rightarrow> 'f iface \<Rightarrow> string \<Rightarrow> (string \<times> string) option \<Rightarrow>
    'f FieldError option go" where
  "single_check V val cur f name kv =
     (case kv of None \<Rightarrow> Inl index_panic | Some (key, param) \<Rightarrow> fieldWithNameAndSingleTag V val cur f key param name)"

definition set_kind_type :: "cachedField \<Rightarrow> 'f FieldError \<Rightarrow> 'f FieldError" where
  "set_kind_type cf fe = FieldError (fe_Field fe) (fe_Tag fe) (cf_kind cf) (Some (cf_typ cf)) (fe_Param fe) (fe_Value fe)
     (fe_nested fe)"

text \<open>Alternatives: the first one that holds ends the check of the field.\<close>

fun check_alternatives :: "'f Validate \<Rightarrow> 'f iface \<Rightarrow> 'f iface \<Rightarrow> 'f iface \<Rightarrow> string \<Rightarrow> string \<Rightarrow>
    (string \<times> string) option list \<Rightarrow> 'f FieldError option \<Rightarrow> 'f FieldError option go" where
  "check_alternatives V val cur f name errTag [] fe =
     (case fe of
        None \<Rightarrow> Inl ''runtime error: invalid memory address or nil pointer dereference''
      | Some e \<Rightarrow> Inr (Some (FieldError (fe_Field e) (dropWhile (\<lambda>c. c = CHR ''|'') errTag) (fe_Kind e) (fe_Type e)
          (fe_Param e) (fe_Value e) (fe_nested e))))"
| "check_alternatives V val cur f name errTag (kv # kvs) fe =
     bindG (single_check V val cur f name kv) (\<lambda>r.
       case r of
         None \<Rightarrow> Inr None
       | Some e \<Rightarrow> check_alternatives V val cur f name (errTag @ ''|'' @ fe_Tag e) kvs (Some e))"

datatype 'f verdict = Accepted | Rejected "'f FieldError" | Passed

fun check_tags :: "'f Validate \<Rightarrow> 'f iface \<Rightarrow> 'f iface \<Rightarrow> 'f iface \<Rightarrow> string \<Rightarrow> cachedField \<Rightarrow> cachedTags list \<Rightarrow>
    'f verdict go" where
  "check_tags V val cur f name cf [] = Inr Passed"
| "check_tags V val cur f name cf (ct # cts) =
     (if ct_isOrVal ct then
        mapG (\<lambda>r. case r of None \<Rightarrow> Accepted | Some e \<Rightarrow> Rejected (set_kind_type cf e))
          (check_alternatives V val cur f name [] (ct_keyVals ct) None)
      else
        bindG (case ct_keyVals ct of [] \<Rightarrow> Inl index_panic | kv # kvs \<Rightarrow> single_check V val cur f name kv) (\<lambda>r.
          case r of
            Some e \<Rightarrow> Inr (Rejected (set_kind_type cf e))
          | None \<Rightarrow> check_tags V val cur f name cf cts))"

text \<open>The object of a field that has none yet.\<close>

definition time_type :: "rtype \<Rightarrow> bool" where
  "time_type t \<longleftrightarrow> t = RTime \<or> t = RPtr RTime"

definition with_elem :: "rtype \<Rightarrow> cachedField \<Rightarrow> cachedField" where
  "with_elem t cf = cf\<lparr>cf_subtype := Some t, cf_isTimeSubtype := time_type t, cf_subKind := kind_of_type t\<rparr>"

definition plain_field :: "nat \<Rightarrow> string \<Rightarrow> string \<Rightarrow> 'f rval \<Rightarrow> cachedField" where
  "plain_field i name tag v =
     \<lparr>cf_index = i, cf_name = name, cf_tags = [], cf_tag = tag, cf_kind = kind_of v, cf_typ = type_of v,
      cf_isTime = False, cf_isSliceOrArray = False, cf_isMap = False, cf_isTimeSubtype = False, cf_subtype = None,
      cf_subKind = Invalid, cf_dive = False, cf_diveTag = []\<rparr>"

definition fresh_field :: "string \<Rightarrow> string \<Rightarrow> 'f rval \<Rightarrow> cachedField go" where
  "fresh_field name tag v =
     (let cf = plain_field 0 name tag v
      in case kind_of v of
           KSlice \<Rightarrow> mapG (\<lambda>t. with_elem t (cf\<lparr>cf_isSliceOrArray := True\<rparr>)) (type_Elem (type_of v))
         | KArray \<Rightarrow> mapG (\<lambda>t. with_elem t (cf\<lparr>cf_isSliceOrArray := True\<rparr>)) (type_Elem (type_of v))
         | KMap \<Rightarrow> mapG (\<lambda>t. with_elem t (cf\<lparr>cf_isMap := True\<rparr>)) (type_Elem (type_of v))
         | _ \<Rightarrow> Inr cf)"

text \<open>The error of a nil pointer or interface that is not to be omitted: its first tag.\<close>

definition nil_error :: "string \<Rightarrow> string \<Rightarrow> 'f iface \<Rightarrow> kind \<Rightarrow> rtype option \<Rightarrow> 'f FieldError" where
  "nil_error name tag f k t =
     (case split2 (CHR ''='') (hd (split_on (CHR '','') tag)) of
        (key, p) \<Rightarrow> FieldError name key k t (case p of None \<Rightarrow> [] | Some p \<Rightarrow> p) f NoErrs)"

text \<open>\<open>unicode.IsUpper\<close> of the first byte of a name, read as a rune.\<close>

definition upper_initial :: "string \<Rightarrow> bool" where
  "upper_initial name \<longleftrightarrow>
     (case name of [] \<Rightarrow> False
      | c # s \<Rightarrow> 65 \<le> code c \<and> code c \<le> 90 \<or> 0xC0 \<le> code c \<and> code c \<le> 0xDE \<and> code c \<noteq> 0xD7)"

datatype 'f field_result = Skip | FieldDone "'f FieldError option" | StructDone "'f StructErrors option"

section \<open>The walk\<close>

text \<open>
  The functions of the walk call each other on ever smaller parts of the value. The loops over fields,
  elements and map entries are functions of their own; \<open>dive_element\<close> is the body that the loops over
  slices and maps share. In the termination proof the size of the value decides, then the order of the
  functions, then the number of fields to go.
\<close>

fun isize :: "'f iface \<Rightarrow> nat" where
  "isize None = 0"
| "isize (Some v) = size v"

lemma isize_to_iface: "isize (to_iface v) \<le> size v"
proof (cases v)
  case (InterfaceV x)
  then show ?thesis by (cases x) auto
qed auto

lemma size_follow: "size (follow v) \<le> size v"
  by (cases v rule: follow.cases) auto

lemma interface_smaller: "isize (to_iface (follow y)) < size (InterfaceV (Some y))"
  using isize_to_iface [of "follow y"] size_follow [of y] by simp

lemma member_smaller: "x \<in> set xs \<Longrightarrow> f x < size_list f xs"
  by (induction xs) auto

lemma elem_smaller: "i < length vs \<Longrightarrow> size (follow (vs ! i)) < size_list size vs"
  using member_smaller [of "vs ! i" vs size] size_follow [of "vs ! i"] by simp

lemma iface_smaller: "isize (to_iface x) < size (PtrV t (Some x))"
  using isize_to_iface [of x] by simp

lemma isize_follow: "isize (to_iface (follow v)) \<le> size v"
  using isize_to_iface [of "follow v"] size_follow [of v] by simp

lemma deref_smaller: "w = (if d then follow v else v) \<Longrightarrow> size w \<le> size v"
  using size_follow [of v] by simp

lemmas walk_smaller = isize_to_iface size_follow isize_follow elem_smaller
  iface_smaller [simplified] interface_smaller [simplified] less_Suc_eq_le

function (sequential)
  structRecursive :: "'f Validate \<Rightarrow> 'f iface \<Rightarrow> 'f iface \<Rightarrow> 'f iface \<Rightarrow> 'f StructErrors option vm" and
  struct_loop :: "'f Validate \<Rightarrow> 'f iface \<Rightarrow> 'f iface \<Rightarrow> struct_type \<Rightarrow> 'f rval list \<Rightarrow> nat \<Rightarrow> bool \<Rightarrow> nat \<Rightarrow> nat \<Rightarrow>
    (string \<times> 'f FieldError) list \<Rightarrow> (string \<times> 'f StructErrors) list \<Rightarrow>
    ((string \<times> 'f FieldError) list \<times> (string \<times> 'f StructErrors) list) vm" and
  validate_field :: "'f Validate \<Rightarrow> 'f iface \<Rightarrow> 'f iface \<Rightarrow> nat \<Rightarrow> nat \<Rightarrow> bool \<Rightarrow> 'f rval \<Rightarrow> 'f field_result vm" and
  fieldWithNameAndValue :: "'f Validate \<Rightarrow> 'f iface \<Rightarrow> 'f iface \<Rightarrow> 'f iface \<Rightarrow> string \<Rightarrow> string \<Rightarrow> bool \<Rightarrow> nat option \<Rightarrow>
    'f FieldError option vm" and
  check_field :: "'f Validate \<Rightarrow> 'f iface \<Rightarrow> 'f iface \<Rightarrow> 'f iface \<Rightarrow> 'f iface \<Rightarrow> string \<Rightarrow> string \<Rightarrow> bool \<Rightarrow> nat \<Rightarrow>
    'f FieldError option vm" and
  traverseSlice :: "'f Validate \<Rightarrow> 'f iface \<Rightarrow> 'f iface \<Rightarrow> nat \<Rightarrow> nat \<Rightarrow> 'f rval list \<Rightarrow> (nat \<times> 'f error_of) list vm" and
  traverseMap :: "'f Validate \<Rightarrow> 'f iface \<Rightarrow> 'f iface \<Rightarrow> nat \<Rightarrow> ('f rval \<times> 'f rval) list \<Rightarrow>
    ('f iface \<times> 'f error_of) list vm" and
  dive_element :: "'f Validate \<Rightarrow> 'f iface \<Rightarrow> 'f iface \<Rightarrow> nat \<Rightarrow> string \<Rightarrow> 'f rval \<Rightarrow> 'f error_of option vm"
where
  "structRecursive V tp cur s =
     (case s of
        Some (PtrV t (Some x)) \<Rightarrow> structRecursive V tp cur (to_iface x)
      | Some (TimeV i l) \<Rightarrow> returnV None
      | Some (StructV st vs) \<Rightarrow>
          bindV (structCache_Get st) (\<lambda>cached.
            bindV (case cached of
                Some c \<Rightarrow> returnV c
              | None \<Rightarrow> new_struct \<lparr>cs_children = int (length (st_fields st)), cs_name = st_Name st, cs_fields = []\<rparr>)
              (\<lambda>c. bindV (struct_at c) (\<lambda>cs.
                bindV (struct_loop V tp cur st vs c (cached \<noteq> None) (nat (cs_children cs)) 0 [] []) (\<lambda>(errs, serrs).
                  thenV (structCache_Set st c)
                    (returnV (if errs = [] \<and> serrs = [] then None else Some (StructErrors (cs_name cs) errs serrs)))))))
      | _ \<Rightarrow> throwV ''interface passed for validation is not a struct'')"

| "struct_loop V tp cur st vs c isCached n i errs serrs =
     (if n \<le> i then returnV (errs, serrs)
      else if isCached then
        bindV (struct_at c) (\<lambda>cs.
          if length (cs_fields cs) \<le> i then throwV index_panic
          else
            bindV (field_at (cs_fields cs ! i)) (\<lambda>cf.
              if length vs \<le> cf_index cf then throwV ''reflect: Field index out of range''
              else
                bindV (validate_field V tp cur c (cs_fields cs ! i) (fi_exported (st_fields st ! cf_index cf))
                    (follow (vs ! cf_index cf))) (\<lambda>r.
                  struct_loop V tp cur st vs c isCached n (Suc i)
                    (case r of FieldDone (Some e) \<Rightarrow> AList.update (fe_Field e) e errs | _ \<Rightarrow> errs)
                    (case r of StructDone (Some e) \<Rightarrow> AList.update (cf_name cf) e serrs | _ \<Rightarrow> serrs))))
      else if length vs \<le> i then throwV ''reflect: Field index out of range''
      else
        let fi = st_fields st ! i; v = follow (vs ! i); tag = tag_of V fi
        in if tag = noValidationTag \<or> tag = [] \<and> (kind_of v \<noteq> KStruct \<and> kind_of v \<noteq> KInterface \<or> type_of v = RTime) then
             thenV (dec_children c) (struct_loop V tp cur st vs c isCached n (Suc i) errs serrs)
           else
             bindV (new_field ((plain_field i (fi_Name fi) tag v)\<lparr>cf_isTime := time_type (type_of v)\<rparr>)) (\<lambda>a.
               bindV (validate_field V tp cur c a (fi_exported fi) v) (\<lambda>r.
                 thenV (case r of Skip \<Rightarrow> returnV () | _ \<Rightarrow> update_struct c (\<lambda>cs. cs\<lparr>cs_fields := cs_fields cs @ [a]\<rparr>))
                   (struct_loop V tp cur st vs c isCached n (Suc i)
                     (case r of FieldDone (Some e) \<Rightarrow> AList.update (fe_Field e) e errs | _ \<Rightarrow> errs)
                     (case r of StructDone (Some e) \<Rightarrow> AList.update (fi_Name fi) e serrs | _ \<Rightarrow> serrs)))))"

| "validate_field V tp cur c a exported v =
     bindV (field_at a) (\<lambda>cf.
       let k = (if cf_kind cf = KPtr then kind_of v else cf_kind cf); name = cf_name cf; tag = cf_tag cf
       in thenV (update_field a (\<lambda>cf. cf\<lparr>cf_kind := k\<rparr>))
         (if k = KStruct \<or> k = KInterface then
            (if \<not> upper_initial name then thenV (dec_children c) (returnV Skip)
             else if cf_isTime cf then
               (if \<not> exported then liftV unexported
                else mapV FieldDone (fieldWithNameAndValue V tp cur (to_iface v) tag name False (Some a)))
             else if Contains tag structOnlyTag then thenV (dec_children c) (returnV Skip)
             else if (kind_of v = KPtr \<or> k = KInterface) \<and> is_nil v then
               (if Contains tag omitempty then returnV (FieldDone None)
                else bindV (liftV (value_Interface exported v)) (\<lambda>f.
                  returnV (FieldDone (Some (nil_error name tag f (kind_of v) (Some (type_of v)))))))
             else
               (case v of
                  InterfaceV (Some y) \<Rightarrow>
                    let y = follow y
                    in if \<not> exported then liftV unexported
                       else if kind_of y = KStruct then mapV StructDone (structRecursive V tp (to_iface y) (to_iface y))
                       else mapV FieldDone (fieldWithNameAndValue V tp cur (to_iface y) tag name False None)
                | _ \<Rightarrow>
                    if \<not> exported then liftV unexported
                    else mapV StructDone (structRecursive V tp (to_iface v) (to_iface v))))
          else
            thenV
              (if k = KSlice \<or> k = KArray then
                 bindV (liftV (type_Elem (cf_typ cf))) (\<lambda>t.
                   update_field a (\<lambda>cf. (with_elem t cf)\<lparr>cf_isSliceOrArray := True\<rparr>))
               else if k = KMap then
                 bindV (liftV (type_Elem (cf_typ cf))) (\<lambda>t. update_field a (\<lambda>cf. (with_elem t cf)\<lparr>cf_isMap := True\<rparr>))
               else returnV ())
              (if \<not> exported then liftV unexported
               else mapV FieldDone (fieldWithNameAndValue V tp cur (to_iface v) tag name False (Some a)))))"

| "fieldWithNameAndValue V val cur f tag name isSingleField cacheField =
     (if tag = noValidationTag \<or> tag = [] then returnV None
      else
        bindV (liftV (if Contains tag omitempty then hasValue (v_env V) val cur f [] else Inr True)) (\<lambda>has.
          if \<not> has then returnV None
          else
            case cacheField of
              Some a \<Rightarrow> check_field V val cur f f tag name isSingleField a
            | None \<Rightarrow>
                (case f of
                   None \<Rightarrow> liftV (value_error ''Type'' f)
                 | Some v0 \<Rightarrow>
                     let v = follow v0
                     in bindV (liftV (fresh_field name tag v)) (\<lambda>cf.
                          bindV (new_field cf) (\<lambda>a.
                            check_field V val cur (to_iface v) (Some v) tag name
                              (isSingleField \<and> kind_of v \<notin> {KSlice, KArray, KMap}) a)))))"

| "check_field V val cur f valueField tag name isSingleField a =
     bindV (field_at a) (\<lambda>cf.
       if cf_kind cf \<in> {KStruct, KInterface, Invalid} \<and> cf_typ cf \<noteq> RTime then
         throwV ''Invalid field passed to fieldWithNameAndValue''
       else
         thenV (ensure_tags a name tag isSingleField)
           (bindV (field_at a) (\<lambda>cf.
              bindV (liftV (check_tags V val cur f name cf (cf_tags cf))) (\<lambda>r.
                case r of
                  Accepted \<Rightarrow> returnV None
                | Rejected e \<Rightarrow> returnV (Some e)
                | Passed \<Rightarrow>
                    if \<not> cf_dive cf then returnV None
                    else if cf_isSliceOrArray cf then
                      (case valueField of
                         Some (SliceV t xs) \<Rightarrow>
                           mapV (\<lambda>errs. if errs = [] then None
                               else Some (FieldError (cf_name cf) [] (cf_kind cf) (Some (cf_typ cf)) [] f (SliceErrs errs)))
                             (traverseSlice V val cur a 0 xs)
                       | Some (ArrayV t xs) \<Rightarrow>
                           mapV (\<lambda>errs. if errs = [] then None
                               else Some (FieldError (cf_name cf) [] (cf_kind cf) (Some (cf_typ cf)) [] f (SliceErrs errs)))
                             (traverseSlice V val cur a 0 xs)
                       | _ \<Rightarrow> liftV (value_error ''Len'' valueField))
                    else if cf_isMap cf then
                      (case valueField of
                         Some (MapV k t kvs) \<Rightarrow>
                           mapV (\<lambda>errs. if errs = [] then None
                               else Some (FieldError (cf_name cf) [] (cf_kind cf) (Some (cf_typ cf)) [] f (MapErrs errs)))
                             (traverseMap V val cur a kvs)
                       | _ \<Rightarrow> liftV (value_error ''MapKeys'' valueField))
                    else throwV (''dive error! can'' @ [CHR 0x27] @ ''t dive on a non slice or map'')))))"

| "traverseSlice V val cur a i [] = returnV []"
| "traverseSlice V val cur a i (x # xs) =
     bindV (field_at a) (\<lambda>cf.
       bindV (dive_element V val cur a (cf_name cf @ ''['' @ nat_dec i @ '']'') x) (\<lambda>e.
         mapV (\<lambda>es. case e of None \<Rightarrow> es | Some e \<Rightarrow> (i, e) # es) (traverseSlice V val cur a (Suc i) xs)))"

| "traverseMap V val cur a [] = returnV []"
| "traverseMap V val cur a ((key, x) # kvs) =
     bindV (field_at a) (\<lambda>cf.
       bindV (dive_element V val cur a (cf_name cf @ ''['' @ ve_Sprint (v_env V) (to_iface key) @ '']'') x) (\<lambda>e.
         mapV (\<lambda>es. case e of None \<Rightarrow> es | Some e \<Rightarrow> (to_iface key, e) # es) (traverseMap V val cur a kvs)))"

| "dive_element V val cur a ename x0 =
     bindV (field_at a) (\<lambda>cf.
       let deref = (cf_subKind cf = KPtr \<and> \<not> is_nil x0); x = (if deref then follow x0 else x0);
           k = (if deref then kind_of x else cf_subKind cf); tag = cf_diveTag cf
       in thenV (update_field a (\<lambda>cf. cf\<lparr>cf_subKind := k\<rparr>))
         (if k = KStruct \<or> k = KInterface then
            (if cf_isTimeSubtype cf then
               mapV (map_option FieldErr) (fieldWithNameAndValue V val cur (to_iface x) tag ename False None)
             else if (kind_of x = KPtr \<or> kind_of x = KInterface) \<and> is_nil x then
               (if Contains tag omitempty then returnV None
                else returnV (Some (FieldErr (nil_error ename tag (to_iface x) (kind_of x) (cf_subtype cf)))))
             else
               (case x of
                  InterfaceV (Some y) \<Rightarrow>
                    let y = follow y
                    in if kind_of y = KStruct then mapV (map_option StructErr) (structRecursive V val cur (to_iface y))
                       else mapV (map_option FieldErr) (fieldWithNameAndValue V val cur (to_iface y) tag ename False None)
                | _ \<Rightarrow> mapV (map_option StructErr) (structRecursive V val cur (to_iface x))))
          else mapV (map_option FieldErr) (fieldWithNameAndValue V val cur (to_iface x) tag ename False None)))"
  by pat_completeness auto

termination
proof (relation "measures
   [case_sum
      (case_sum (case_sum (\<lambda>(V, tp, cur, s). isize s) (\<lambda>(V, tp, cur, st, vs, c, isCached, n, i, errs, serrs). size_list size vs))
        (case_sum (\<lambda>(V, tp, cur, c, a, exported, v). size v) (\<lambda>(V, val, cur, f, tag, name, single, ca). isize f)))
      (case_sum (case_sum (\<lambda>(V, val, cur, f, v, tag, name, single, a). isize v) (\<lambda>(V, val, cur, a, i, xs). size_list size xs))
        (case_sum (\<lambda>(V, val, cur, a, kvs). size_list (size_prod size size) kvs) (\<lambda>(V, val, cur, a, ename, x). size x))),
    case_sum (case_sum (case_sum (\<lambda>_. 1) (\<lambda>_. 0)) (case_sum (\<lambda>_. 3) (\<lambda>_. 2)))
      (case_sum (case_sum (\<lambda>_. 1) (\<lambda>_. 0)) (case_sum (\<lambda>_. 0) (\<lambda>_. 3))),
    case_sum (case_sum (case_sum (\<lambda>_. 0) (\<lambda>(V, tp, cur, st, vs, c, isCached, n, i, errs, serrs). n - i)) (\<lambda>_. 0)) (\<lambda>_. 0)]",
  goal_cases)
  case 1
  show ?case by simp
qed (simp_all add: le_eq_less_or_eq [symmetric] walk_smaller,
    auto dest!: deref_smaller intro: order_trans [OF isize_follow] order_trans [OF isize_to_iface])

declare structRecursive.simps [simp del] struct_loop.simps [simp del] validate_field.simps [simp del]
  fieldWithNameAndValue.simps [simp del] check_field.simps [simp del] dive_element.simps [simp del]

section \<open>The interface\<close>

text \<open>The heap starts empty; it is shared by all validators of the process.\<close>

definition empty_heap :: vheap where
  "empty_heap = \<lparr>vh_fields = [], vh_structs = [], vh_structCache = (\<lambda>_. None), vh_fieldsCache = (\<lambda>_. None)\<rparr>"

definition Struct :: "'f Validate \<Rightarrow> 'f iface \<Rightarrow> 'f StructErrors option vm" where
  "Struct V s = structRecursive V s s s"

definition FieldWithValue :: "'f Validate \<Rightarrow> 'f iface \<Rightarrow> 'f iface \<Rightarrow> string \<Rightarrow> 'f FieldError option vm" where
  "FieldWithValue V val f tag = fieldWithNameAndValue V None val f tag [] True None"

definition Field :: "'f Validate \<Rightarrow> 'f iface \<Rightarrow> string \<Rightarrow> 'f FieldError option vm" where
  "Field V f tag = FieldWithValue V None f tag"

text \<open>Several structs, one after the other.\<close>

fun Structs :: "'f Validate \<Rightarrow> 'f iface list \<Rightarrow> vheap \<Rightarrow> 'f StructErrors option go list \<times> vheap" where
  "Structs V [] h = ([], h)"
| "Structs V (s # ss) h = (case Struct V s h of (r, h) \<Rightarrow> (case Structs V ss h of (rs, h) \<Rightarrow> (r # rs, h)))"

end
