(* ===== verification/ValidatorSpec.thy ===== *)
theory ValidatorSpec
  imports Validator
begin

text \<open>
  What validation promises, without caches: the tags of a field are read where they are used, and a
  struct is the sequence of its fields. For values without pointers the walk on the heap of cached
  objects computes exactly this, whatever was validated before.
\<close>

section \<open>The promise\<close>

text \<open>The tags of a field with the tag of its elements, if it dives.\<close>

fun alternatives :: "string \<Rightarrow> string list \<Rightarrow> (string \<times> string) option list go" where
  "alternatives name [] = Inr []"
| "alternatives name (val # vals) =
     (case split2 (CHR ''='') val of
        (k, p) \<Rightarrow>
          if TrimSpace k = [] then Inl (''Invalid validation tag on field '' @ name)
          else mapG (\<lambda>kvs. Some (TrimSpace k, case p of None \<Rightarrow> [] | Some p \<Rightarrow> replace_comma p) # kvs) (alternatives name vals))"

fun parsed :: "string \<Rightarrow> string \<Rightarrow> string list \<Rightarrow> (cachedTags list \<times> string option) go" where
  "parsed name tag [] = Inr ([], None)"
| "parsed name tag (t # ts) =
     (if t = diveTag then Inr ([], Some (dropWhile (\<lambda>c. c = CHR '','') (after_first diveTag tag)))
      else
        bindG (alternatives name (split_on (CHR ''|'') t)) (\<lambda>kvs.
          mapG (\<lambda>(cts, d). (\<lparr>ct_keyVals = kvs, ct_isOrVal = 1 < length (split_on (CHR ''|'') t)\<rparr> # cts, d))
            (parsed name tag ts)))"

definition parsed_tag :: "string \<Rightarrow> string \<Rightarrow> (cachedTags list \<times> string option) go" where
  "parsed_tag name tag = parsed name tag (split_on (CHR '','') tag)"

text \<open>The fields that are looked at: those with a tag or of a struct, if the name is exported.\<close>

definition keep :: "'f Validate \<Rightarrow> field_info \<Rightarrow> rtype \<Rightarrow> bool" where
  "keep V fi t \<longleftrightarrow>
     (let tag = tag_of V fi; struct = (kind_of_type t = KStruct \<or> kind_of_type t = KInterface)
      in tag \<noteq> noValidationTag \<and> \<not> (tag = [] \<and> (\<not> struct \<or> t = RTime)) \<and>
         (struct \<longrightarrow> upper_initial (fi_Name fi) \<and> (t = RTime \<or> \<not> Contains tag structOnlyTag)))"

definition add_error :: "'f field_result \<Rightarrow> (string \<times> 'f FieldError) list \<Rightarrow> (string \<times> 'f FieldError) list" where
  "add_error r errs = (case r of FieldDone (Some e) \<Rightarrow> AList.update (fe_Field e) e errs | _ \<Rightarrow> errs)"

definition add_struct :: "string \<Rightarrow> 'f field_result \<Rightarrow> (string \<times> 'f StructErrors) list \<Rightarrow> (string \<times> 'f StructErrors) list" where
  "add_struct name r serrs = (case r of StructDone (Some e) \<Rightarrow> AList.update name e serrs | _ \<Rightarrow> serrs)"

definition placeholder :: "string \<Rightarrow> 'f rval \<Rightarrow> 'f nested \<Rightarrow> 'f FieldError" where
  "placeholder name v es = FieldError name [] (kind_of v) (Some (type_of v)) [] (Some v) es"

function (sequential)
  valid_iface :: "'f Validate \<Rightarrow> 'f iface \<Rightarrow> 'f iface \<Rightarrow> 'f iface \<Rightarrow> 'f StructErrors option go" and
  valid_fields :: "'f Validate \<Rightarrow> 'f iface \<Rightarrow> 'f iface \<Rightarrow> field_info list \<Rightarrow> 'f rval list \<Rightarrow>
    (string \<times> 'f FieldError) list \<Rightarrow> (string \<times> 'f StructErrors) list \<Rightarrow>
    ((string \<times> 'f FieldError) list \<times> (string \<times> 'f StructErrors) list) go" and
  valid_field :: "'f Validate \<Rightarrow> 'f iface \<Rightarrow> 'f iface \<Rightarrow> field_info \<Rightarrow> 'f rval \<Rightarrow> 'f field_result go" and
  valid_named :: "'f Validate \<Rightarrow> 'f iface \<Rightarrow> 'f iface \<Rightarrow> 'f iface \<Rightarrow> string \<Rightarrow> string \<Rightarrow> 'f FieldError option go" and
  valid_checked :: "'f Validate \<Rightarrow> 'f iface \<Rightarrow> 'f iface \<Rightarrow> 'f rval \<Rightarrow> string \<Rightarrow> string \<Rightarrow> 'f FieldError option go" and
  valid_slice :: "'f Validate \<Rightarrow> 'f iface \<Rightarrow> 'f iface \<Rightarrow> rtype \<Rightarrow> string \<Rightarrow> string \<Rightarrow> nat \<Rightarrow> 'f rval list \<Rightarrow>
    (nat \<times> 'f error_of) list go" and
  valid_map :: "'f Validate \<Rightarrow> 'f iface \<Rightarrow> 'f iface \<Rightarrow> rtype \<Rightarrow> string \<Rightarrow> string \<Rightarrow> ('f rval \<times> 'f rval) list \<Rightarrow>
    ('f iface \<times> 'f error_of) list go" and
  valid_elem :: "'f Validate \<Rightarrow> 'f iface \<Rightarrow> 'f iface \<Rightarrow> rtype \<Rightarrow> string \<Rightarrow> string \<Rightarrow> 'f rval \<Rightarrow> 'f error_of option go"
where
  "valid_iface V tp cur s =
     (case s of
        Some (PtrV t (Some x)) \<Rightarrow> valid_iface V tp cur (to_iface x)
      | Some (TimeV i l) \<Rightarrow> Inr None
      | Some (StructV st vs) \<Rightarrow>
          mapG (\<lambda>(errs, serrs). if errs = [] \<and> serrs = [] then None else Some (StructErrors (st_Name st) errs serrs))
            (valid_fields V tp cur (st_fields st) vs [] [])
      | _ \<Rightarrow> Inl ''interface passed for validation is not a struct'')"

| "valid_fields V tp cur (fi # fis) (v # vs) errs serrs =
     bindG (valid_field V tp cur fi v) (\<lambda>r.
       valid_fields V tp cur fis vs (add_error r errs) (add_struct (fi_Name fi) r serrs))"
| "valid_fields V tp cur fis vs errs serrs = Inr (errs, serrs)"

| "valid_field V tp cur fi v =
     (if \<not> keep V fi (type_of v) then Inr Skip
      else
        let tag = tag_of V fi; name = fi_Name fi
        in if (kind_of v = KStruct \<or> kind_of v = KInterface) \<and> type_of v \<noteq> RTime then
             (case v of
                InterfaceV None \<Rightarrow>
                  if Contains tag omitempty then Inr (FieldDone None)
                  else if \<not> fi_exported fi then unexported
                  else Inr (FieldDone (Some (nil_error name tag None KInterface (Some RInterface))))
              | InterfaceV (Some y) \<Rightarrow>
                  if \<not> fi_exported fi then unexported
                  else if kind_of y = KStruct then mapG StructDone (valid_iface V tp (Some y) (Some y))
                  else mapG FieldDone (valid_named V tp cur (Some y) tag name)
              | _ \<Rightarrow>
                  if \<not> fi_exported fi then unexported
                  else mapG StructDone (valid_iface V tp (Some v) (Some v)))
           else if \<not> fi_exported fi then unexported
           else mapG FieldDone (valid_named V tp cur (Some v) tag name))"

| "valid_named V val cur f tag name =
     (if tag = noValidationTag \<or> tag = [] then Inr None
      else
        bindG (if Contains tag omitempty then hasValue (v_env V) val cur f [] else Inr True) (\<lambda>has.
          if \<not> has then Inr None
          else case f of None \<Rightarrow> value_error ''Type'' f | Some v \<Rightarrow> valid_checked V val cur v tag name))"

| "valid_checked V val cur v tag name =
     (if kind_of v \<in> {KStruct, KInterface, Invalid} \<and> type_of v \<noteq> RTime then
        Inl ''Invalid field passed to fieldWithNameAndValue''
      else
        bindG (parsed_tag name tag) (\<lambda>(cts, d).
          bindG (check_tags V val cur (Some v) name (plain_field 0 name tag v) cts) (\<lambda>r.
            case r of
              Accepted \<Rightarrow> Inr None
            | Rejected e \<Rightarrow> Inr (Some e)
            | Passed \<Rightarrow>
                (case d of
                   None \<Rightarrow> Inr None
                 | Some dt \<Rightarrow>
                     (case v of
                        SliceV t xs \<Rightarrow>
                          mapG (\<lambda>es. if es = [] then None else Some (placeholder name v (SliceErrs es)))
                            (valid_slice V val cur t dt name 0 xs)
                      | ArrayV t xs \<Rightarrow>
                          mapG (\<lambda>es. if es = [] then None else Some (placeholder name v (SliceErrs es)))
                            (valid_slice V val cur t dt name 0 xs)
                      | MapV k t kvs \<Rightarrow>
                          mapG (\<lambda>es. if es = [] then None else Some (placeholder name v (MapErrs es)))
                            (valid_map V val cur t dt name kvs)
                      | _ \<Rightarrow> Inl (''dive error! can'' @ [CHR 0x27] @ ''t dive on a non slice or map''))))))"

| "valid_slice V val cur t dt name i [] = Inr []"
| "valid_slice V val cur t dt name i (x # xs) =
     bindG (valid_elem V val cur t dt (name @ ''['' @ nat_dec i @ '']'') x) (\<lambda>e.
       mapG (\<lambda>es. case e of None \<Rightarrow> es | Some e \<Rightarrow> (i, e) # es) (valid_slice V val cur t dt name (Suc i) xs))"

| "valid_map V val cur t dt name [] = Inr []"
| "valid_map V val cur t dt name ((key, x) # kvs) =
     bindG (valid_elem V val cur t dt (name @ ''['' @ ve_Sprint (v_env V) (to_iface key) @ '']'') x) (\<lambda>e.
       mapG (\<lambda>es. case e of None \<Rightarrow> es | Some e \<Rightarrow> (to_iface key, e) # es) (valid_map V val cur t dt name kvs))"

| "valid_elem V val cur t dt ename x =
     (if (kind_of_type t = KStruct \<or> kind_of_type t = KInterface) \<and> \<not> time_type t then
        (case x of
           InterfaceV None \<Rightarrow>
             if Contains dt omitempty then Inr None else Inr (Some (FieldErr (nil_error ename dt None KInterface (Some t))))
         | InterfaceV (Some y) \<Rightarrow>
             if kind_of y = KStruct then mapG (map_option StructErr) (valid_iface V val cur (Some y))
             else mapG (map_option FieldErr) (valid_named V val cur (Some y) dt ename)
         | _ \<Rightarrow> mapG (map_option StructErr) (valid_iface V val cur (Some x)))
      else mapG (map_option FieldErr) (valid_named V val cur (to_iface x) dt ename))"
  by pat_completeness auto

termination
proof (relation "measures
   [case_sum
      (case_sum (case_sum (\<lambda>(V, tp, cur, s). isize s) (\<lambda>(V, tp, cur, fis, vs, errs, serrs). size_list size vs))
        (case_sum (\<lambda>(V, tp, cur, fi, v). size v) (\<lambda>(V, val, cur, f, tag, name). isize f)))
      (case_sum (case_sum (\<lambda>(V, val, cur, v, tag, name). size v) (\<lambda>(V, val, cur, t, dt, name, i, xs). size_list size xs))
        (case_sum (\<lambda>(V, val, cur, t, dt, name, kvs). size_list (size_prod size size) kvs)
          (\<lambda>(V, val, cur, t, dt, ename, x). size x))),
    case_sum (case_sum (case_sum (\<lambda>_. 1) (\<lambda>_. 0)) (case_sum (\<lambda>_. 3) (\<lambda>_. 2)))
      (case_sum (case_sum (\<lambda>_. 1) (\<lambda>_. 0)) (case_sum (\<lambda>_. 0) (\<lambda>_. 3)))]",
  goal_cases)
  case 1
  show ?case by simp
qed (simp_all add: le_eq_less_or_eq [symmetric] walk_smaller le_SucI [OF isize_to_iface])

declare valid_iface.simps [simp del] valid_field.simps [simp del] valid_named.simps [simp del]
  valid_checked.simps [simp del] valid_elem.simps [simp del]

end
