(* ===== verification/ValidatorHeap.thy ===== *)
theory ValidatorHeap
  imports ValidatorSpec
begin

text \<open>
  The heap of the validator: when its objects are sound, and how computations change it. What is proved
  of the walk is put together from rules for \<open>computes\<close>, one per operation of the heap.
\<close>

section \<open>Values without pointers\<close>

text \<open>\<open>ft\<close> gives the types of the fields of a struct type. Every tag of a field can be parsed.\<close>

type_synonym field_types = "struct_type \<Rightarrow> rtype list"

definition parsable :: "'f Validate \<Rightarrow> field_info \<Rightarrow> bool" where
  "parsable V fi \<longleftrightarrow> tag_of V fi = [] \<or> (\<exists>r. parsed_tag (fi_Name fi) (tag_of V fi) = Inr r)"

fun wt :: "'f Validate \<Rightarrow> field_types \<Rightarrow> 'f rval \<Rightarrow> bool" where
  "wt V ft (StructV st vs) \<longleftrightarrow> map type_of vs = ft st \<and> length vs = length (st_fields st) \<and>
     (\<forall>fi \<in> set (st_fields st). parsable V fi) \<and> (\<forall>v \<in> set vs. wt V ft v)"
| "wt V ft (SliceV t xs) \<longleftrightarrow> kind_of_type t \<noteq> KPtr \<and> (\<forall>x \<in> set xs. type_of x = t \<and> wt V ft x)"
| "wt V ft (ArrayV t xs) \<longleftrightarrow> kind_of_type t \<noteq> KPtr \<and> (\<forall>x \<in> set xs. type_of x = t \<and> wt V ft x)"
| "wt V ft (MapV k t kvs) \<longleftrightarrow> kind_of_type t \<noteq> KPtr \<and> (\<forall>(key, x) \<in> set kvs. type_of x = t \<and> wt V ft x)"
| "wt V ft (InterfaceV x) \<longleftrightarrow> (case x of None \<Rightarrow> True | Some y \<Rightarrow> kind_of y \<noteq> KInterface \<and> wt V ft y)"
| "wt V ft (PtrV t p) \<longleftrightarrow> False"
| "wt V ft v \<longleftrightarrow> True"

definition wt_iface :: "'f Validate \<Rightarrow> field_types \<Rightarrow> 'f iface \<Rightarrow> bool" where
  "wt_iface V ft f \<longleftrightarrow> (case f of None \<Rightarrow> True | Some v \<Rightarrow> kind_of v \<noteq> KInterface \<and> wt V ft v)"

lemma wt_iface_simps [simp]:
  "wt_iface V ft None" "wt_iface V ft (Some v) \<longleftrightarrow> kind_of v \<noteq> KInterface \<and> wt V ft v"
  by (simp_all add: wt_iface_def)

lemma wt_follow [simp]: "wt V ft v \<Longrightarrow> follow v = v"
  by (cases v) auto

lemma wt_no_ptr: "wt V ft v \<Longrightarrow> kind_of v \<noteq> KPtr"
  by (cases v) auto

lemma to_iface_plain: "kind_of v \<noteq> KInterface \<Longrightarrow> to_iface v = Some v"
  by (cases v) auto

lemma kind_struct_cases:
  assumes "wt V ft v" "kind_of v = KStruct \<or> kind_of v = KInterface" "type_of v \<noteq> RTime"
  obtains (iface) x where "v = InterfaceV x" | (struct) st vs where "v = StructV st vs"
  using assms by (cases v) auto

section \<open>Sound objects\<close>

text \<open>The tags of a field are unread or read completely; so are the facts about its elements.\<close>

definition tags_done :: "cachedField \<Rightarrow> bool" where
  "tags_done cf \<longleftrightarrow> (\<exists>cts d. parsed_tag (cf_name cf) (cf_tag cf) = Inr (cts, d) \<and> cf_tags cf = cts \<and>
     cf_dive cf = (d \<noteq> None) \<and> (\<forall>dt. d = Some dt \<longrightarrow> cf_diveTag cf = dt))"

definition tags_ok :: "cachedField \<Rightarrow> bool" where
  "tags_ok cf \<longleftrightarrow> tags_done cf \<or> cf_tags cf = [] \<and> \<not> cf_dive cf"

definition elem_done :: "cachedField \<Rightarrow> bool" where
  "elem_done cf \<longleftrightarrow> (\<exists>t. type_Elem (cf_typ cf) = Inr t \<and> cf_subtype cf = Some t \<and>
     cf_isTimeSubtype cf = time_type t \<and> cf_subKind cf = kind_of_type t) \<and>
     cf_isSliceOrArray cf = (cf_kind cf = KSlice \<or> cf_kind cf = KArray) \<and> cf_isMap cf = (cf_kind cf = KMap)"

definition flags_ok :: "cachedField \<Rightarrow> bool" where
  "flags_ok cf \<longleftrightarrow> (cf_isSliceOrArray cf \<longrightarrow> cf_kind cf = KSlice \<or> cf_kind cf = KArray) \<and> (cf_isMap cf \<longrightarrow> cf_kind cf = KMap)"

definition same_static :: "cachedField \<Rightarrow> cachedField \<Rightarrow> bool" where
  "same_static cf cf' \<longleftrightarrow> cf_index cf' = cf_index cf \<and> cf_name cf' = cf_name cf \<and> cf_tag cf' = cf_tag cf \<and>
     cf_kind cf' = cf_kind cf \<and> cf_typ cf' = cf_typ cf \<and> cf_isTime cf' = cf_isTime cf"

definition learns :: "cachedField \<Rightarrow> cachedField \<Rightarrow> bool" where
  "learns cf cf' \<longleftrightarrow> same_static cf cf' \<and> (tags_ok cf \<longrightarrow> tags_ok cf') \<and> (tags_done cf \<longrightarrow> tags_done cf') \<and>
     (elem_done cf \<longrightarrow> elem_done cf') \<and> (flags_ok cf \<longrightarrow> flags_ok cf')"

lemma learns_refl [simp]: "learns cf cf"
  by (simp add: learns_def same_static_def)

lemma learns_trans: "learns a b \<Longrightarrow> learns b c \<Longrightarrow> learns a c"
  by (simp add: learns_def same_static_def)

text \<open>The object of the field \<open>i\<close> of a struct type.\<close>

definition field_ok :: "'f Validate \<Rightarrow> field_types \<Rightarrow> struct_type \<Rightarrow> nat \<Rightarrow> cachedField \<Rightarrow> bool" where
  "field_ok V ft st i cf \<longleftrightarrow> cf_index cf = i \<and> cf_name cf = fi_Name (st_fields st ! i) \<and>
     cf_tag cf = tag_of V (st_fields st ! i) \<and> cf_kind cf = kind_of_type (ft st ! i) \<and> cf_typ cf = ft st ! i \<and>
     cf_isTime cf = time_type (ft st ! i) \<and> tags_ok cf \<and> flags_ok cf"

lemma field_ok_learns: "field_ok V ft st i cf \<Longrightarrow> learns cf cf' \<Longrightarrow> field_ok V ft st i cf'"
  by (auto simp: field_ok_def learns_def same_static_def)

text \<open>The kept fields among the first \<open>n\<close>, and the object of a struct type of which so many are done.\<close>

definition kept :: "'f Validate \<Rightarrow> field_types \<Rightarrow> struct_type \<Rightarrow> nat \<Rightarrow> nat list" where
  "kept V ft st n = filter (\<lambda>i. keep V (st_fields st ! i) (ft st ! i)) [0..<n]"

definition partial_ok :: "'f Validate \<Rightarrow> field_types \<Rightarrow> vheap \<Rightarrow> struct_type \<Rightarrow> nat \<Rightarrow> nat \<Rightarrow> bool" where
  "partial_ok V ft h st c n \<longleftrightarrow>
     c < length (vh_structs h) \<and> cs_name (vh_structs h ! c) = st_Name st \<and>
     cs_children (vh_structs h ! c) = int (length (st_fields st)) - int (n - length (kept V ft st n)) \<and>
     list_all2 (\<lambda>i a. a < length (vh_fields h) \<and> field_ok V ft st i (vh_fields h ! a)) (kept V ft st n)
       (cs_fields (vh_structs h ! c))"

definition heap_ok :: "'f Validate \<Rightarrow> field_types \<Rightarrow> vheap \<Rightarrow> bool" where
  "heap_ok V ft h \<longleftrightarrow> (\<forall>st c. vh_structCache h st = Some c \<longrightarrow> partial_ok V ft h st c (length (st_fields st)))"

section \<open>Growing heaps\<close>

definition ext :: "vheap \<Rightarrow> vheap \<Rightarrow> bool" where
  "ext h h' \<longleftrightarrow> length (vh_fields h) \<le> length (vh_fields h') \<and>
     (\<forall>a < length (vh_fields h). learns (vh_fields h ! a) (vh_fields h' ! a)) \<and>
     length (vh_structs h) \<le> length (vh_structs h') \<and>
     (\<forall>c < length (vh_structs h). vh_structs h' ! c = vh_structs h ! c) \<and>
     (\<forall>st. vh_structCache h' st = vh_structCache h st \<or>
        (\<exists>c. vh_structCache h' st = Some c \<and> length (vh_structs h) \<le> c))"

lemma ext_refl [simp]: "ext h h"
  by (simp add: ext_def)

lemma ext_trans:
  assumes "ext h1 h2" "ext h2 h3"
  shows "ext h1 h3"
proof -
  have "vh_structCache h3 st = vh_structCache h1 st \<or> (\<exists>c. vh_structCache h3 st = Some c \<and> length (vh_structs h1) \<le> c)" for st
    using assms unfolding ext_def by (metis le_trans)
  moreover have "\<forall>a < length (vh_fields h1). learns (vh_fields h1 ! a) (vh_fields h3 ! a)"
    using assms unfolding ext_def by (meson learns_trans less_le_trans)
  ultimately show ?thesis using assms unfolding ext_def by auto
qed

lemma ext_field: "ext h h' \<Longrightarrow> a < length (vh_fields h) \<Longrightarrow> a < length (vh_fields h') \<and> learns (vh_fields h ! a) (vh_fields h' ! a)"
  by (auto simp: ext_def)

lemma partial_ok_ext: "ext h h' \<Longrightarrow> partial_ok V ft h st c n \<Longrightarrow> partial_ok V ft h' st c n"
  unfolding partial_ok_def
  by (auto simp: ext_def elim!: list_all2_mono intro: field_ok_learns)

lemma unused_ext:
  assumes "ext h h'" "c < length (vh_structs h)" "\<forall>st. vh_structCache h st \<noteq> Some c"
  shows "\<forall>st. vh_structCache h' st \<noteq> Some c"
  using assms unfolding ext_def by (metis leD option.inject)

definition upd_field :: "nat \<Rightarrow> (cachedField \<Rightarrow> cachedField) \<Rightarrow> vheap \<Rightarrow> vheap" where
  "upd_field a f h = h\<lparr>vh_fields := (vh_fields h)[a := f (vh_fields h ! a)]\<rparr>"

lemma ext_upd_field:
  assumes "a < length (vh_fields h)" "learns (vh_fields h ! a) (f (vh_fields h ! a))"
  shows "ext h (upd_field a f h)"
  using assms by (auto simp: ext_def upd_field_def nth_list_update)

lemma heap_ok_ext:
  assumes "ext h h'" "heap_ok V ft h" "vh_structCache h' = vh_structCache h"
  shows "heap_ok V ft h'"
  using assms(2,3) by (auto simp: heap_ok_def intro: partial_ok_ext [OF assms(1)])

lemma heap_ok_upd_field:
  assumes "a < length (vh_fields h)" "learns (vh_fields h ! a) (f (vh_fields h ! a))" "heap_ok V ft h"
  shows "heap_ok V ft (upd_field a f h)"
  using heap_ok_ext [OF ext_upd_field [of a h f]] assms by (simp add: upd_field_def)

section \<open>Computations\<close>

definition computes :: "'f Validate \<Rightarrow> field_types \<Rightarrow> 'a vm \<Rightarrow> vheap \<Rightarrow> 'a go \<Rightarrow> bool" where
  "computes V ft m h r \<longleftrightarrow> (\<exists>h'. m h = (r, h') \<and> ext h h' \<and> heap_ok V ft h')"

lemma computes_return [intro]: "heap_ok V ft h \<Longrightarrow> computes V ft (returnV x) h (Inr x)"
  by (auto simp: computes_def returnV_def)

lemma computes_throw [intro]: "heap_ok V ft h \<Longrightarrow> computes V ft (throwV e) h (Inl e)"
  by (auto simp: computes_def throwV_def)

lemma computes_lift [intro]: "heap_ok V ft h \<Longrightarrow> computes V ft (liftV r) h r"
  by (auto simp: computes_def liftV_def)

lemma computes_bind:
  assumes "computes V ft m h r"
    "\<And>x h'. ext h h' \<Longrightarrow> heap_ok V ft h' \<Longrightarrow> r = Inr x \<Longrightarrow> computes V ft (f x) h' (g x)"
  shows "computes V ft (bindV m f) h (bindG r g)"
proof -
  from assms(1) obtain h' where h': "m h = (r, h')" "ext h h'" "heap_ok V ft h'" by (auto simp: computes_def)
  show ?thesis
  proof (cases r)
    case (Inl e)
    with h' show ?thesis by (auto simp: computes_def bindV_def)
  next
    case (Inr x)
    from assms(2) [OF h'(2,3) Inr] obtain h'' where "f x h' = (g x, h'')" "ext h' h''" "heap_ok V ft h''"
      by (auto simp: computes_def)
    with h' Inr ext_trans [OF h'(2)] show ?thesis by (auto simp: computes_def bindV_def)
  qed
qed

lemma computes_map: "computes V ft m h r \<Longrightarrow> computes V ft (mapV f m) h (mapG f r)"
  unfolding computes_def mapV_def bindV_def returnV_def by (cases r) auto

lemma computes_lift_bind:
  assumes "heap_ok V ft h" "\<And>x. r = Inr x \<Longrightarrow> computes V ft (f x) h (g x)"
  shows "computes V ft (bindV (liftV r) f) h (bindG r g)"
  using assms by (cases r) (auto simp: computes_def bindV_def liftV_def)

lemma computes_field_at [simp]: "computes V ft (bindV (field_at a) f) h r = computes V ft (f (vh_fields h ! a)) h r"
  by (simp add: computes_def bindV_def field_at_def)

lemma computes_struct_at [simp]: "computes V ft (bindV (struct_at c) f) h r = computes V ft (f (vh_structs h ! c)) h r"
  by (simp add: computes_def bindV_def struct_at_def)

lemma computes_return_bind [simp]: "computes V ft (bindV (returnV x) f) h r = computes V ft (f x) h r"
  by (simp add: computes_def bindV_def returnV_def)

lemma computes_return_then [simp]: "computes V ft (thenV (returnV ()) n) h r = computes V ft n h r"
  by (simp add: computes_def thenV_def bindV_def returnV_def)

lemma computes_update:
  assumes "a < length (vh_fields h)" "learns (vh_fields h ! a) (g (vh_fields h ! a))"
    "computes V ft n (upd_field a g h) r"
  shows "computes V ft (thenV (update_field a g) n) h r"
proof -
  from assms(3) obtain h' where "n (upd_field a g h) = (r, h')" "ext (upd_field a g h) h'" "heap_ok V ft h'"
    by (auto simp: computes_def)
  with ext_trans [OF ext_upd_field [of a h g, OF assms(1,2)]] show ?thesis
    by (auto simp: computes_def thenV_def bindV_def update_field_def upd_field_def)
qed

lemma ext_new_field: "ext h (h\<lparr>vh_fields := vh_fields h @ [cf]\<rparr>)"
  by (auto simp: ext_def nth_append)

lemma computes_new_field:
  assumes "heap_ok V ft h"
    "\<And>h'. h' = h\<lparr>vh_fields := vh_fields h @ [cf]\<rparr> \<Longrightarrow> heap_ok V ft h' \<Longrightarrow> ext h h' \<Longrightarrow>
       computes V ft (f (length (vh_fields h))) h' r"
  shows "computes V ft (bindV (new_field cf) f) h r"
proof -
  let ?h = "h\<lparr>vh_fields := vh_fields h @ [cf]\<rparr>"
  have "heap_ok V ft ?h" using heap_ok_ext [OF ext_new_field assms(1), of cf] by simp
  from assms(2) [OF refl this ext_new_field] obtain h' where "f (length (vh_fields h)) ?h = (r, h')" "ext ?h h'" "heap_ok V ft h'"
    by (auto simp: computes_def)
  with ext_trans [OF ext_new_field] show ?thesis by (auto simp: computes_def bindV_def new_field_def)
qed

section \<open>Reading the tags of a field\<close>

definition set_tags :: "nat \<Rightarrow> cachedTags list \<Rightarrow> vheap \<Rightarrow> vheap" where
  "set_tags a ts = upd_field a (\<lambda>cf. cf\<lparr>cf_tags := ts\<rparr>)"

lemma upd_field_at [simp]: "a < length (vh_fields h) \<Longrightarrow> vh_fields (upd_field a f h) ! a = f (vh_fields h ! a)"
  by (simp add: upd_field_def)

lemma upd_field_length [simp]: "length (vh_fields (upd_field a f h)) = length (vh_fields h)"
  by (simp add: upd_field_def)

lemma upd_upd_field: "a < length (vh_fields h) \<Longrightarrow> upd_field a g (upd_field a f h) = upd_field a (\<lambda>cf. g (f cf)) h"
  by (simp add: upd_field_def)

lemma update_field_run: "update_field a f h = (Inr (), upd_field a f h)"
  by (simp add: update_field_def upd_field_def)

lemma thenV_run: "thenV m n h = (case m h of (Inl e, h') \<Rightarrow> (Inl e, h') | (Inr _, h') \<Rightarrow> n h')"
  by (simp add: thenV_def bindV_def)

lemma set_tags_at [simp]: "a < length (vh_fields h) \<Longrightarrow> vh_fields (set_tags a ts h) ! a = (vh_fields h ! a)\<lparr>cf_tags := ts\<rparr>"
  by (simp add: set_tags_def)

lemma set_tags_length [simp]: "length (vh_fields (set_tags a ts h)) = length (vh_fields h)"
  by (simp add: set_tags_def)

lemma set_set_tags [simp]: "a < length (vh_fields h) \<Longrightarrow> set_tags a ts (set_tags a us h) = set_tags a ts h"
  by (simp add: set_tags_def upd_upd_field)

lemma set_same_tags: "a < length (vh_fields h) \<Longrightarrow> set_tags a (cf_tags (vh_fields h ! a)) h = h"
  by (simp add: set_tags_def upd_field_def)

lemma parse_alternatives_run:
  assumes "a < length (vh_fields h)"
    "cf_tags (vh_fields h ! a) = pre @ [\<lparr>ct_keyVals = dn @ replicate (length vals) None, ct_isOrVal = b\<rparr>]"
  shows "\<exists>ts. parse_alternatives a name (length dn) vals h = (mapG (\<lambda>_. ()) (alternatives name vals), set_tags a ts h) \<and>
    (\<forall>kvs. alternatives name vals = Inr kvs \<longrightarrow> ts = pre @ [\<lparr>ct_keyVals = dn @ kvs, ct_isOrVal = b\<rparr>])"
  using assms
proof (induction vals arbitrary: h dn)
  case Nil
  then show ?case using set_same_tags [OF Nil(1)] by (auto simp: returnV_def intro!: exI)
next
  case (Cons val vals)
  obtain k p where kp: "split2 (CHR ''='') val = (k, p)" by (cases "split2 (CHR ''='') val")
  show ?case
  proof (cases "TrimSpace k = []")
    case True
    then show ?thesis using kp set_same_tags [OF Cons(2)] by (auto simp: throwV_def intro: exI [of _ "cf_tags (vh_fields h ! a)"])
  next
    case False
    let ?kv = "(TrimSpace k, case p of None \<Rightarrow> [] | Some p \<Rightarrow> replace_comma p)"
    let ?ts = "pre @ [\<lparr>ct_keyVals = (dn @ [Some ?kv]) @ replicate (length vals) None, ct_isOrVal = b\<rparr>]"
    have u: "update_last_tag a (\<lambda>ct. ct\<lparr>ct_keyVals := (ct_keyVals ct)[length dn := Some ?kv]\<rparr>) h = (Inr (), set_tags a ?ts h)"
      using Cons(2,3) by (simp add: update_last_tag_def update_field_run set_tags_def upd_field_def list_update_append)
    from Cons.IH [of "set_tags a ?ts h" "dn @ [Some ?kv]"] Cons(2) obtain ts where
      "parse_alternatives a name (Suc (length dn)) vals (set_tags a ?ts h) =
         (mapG (\<lambda>_. ()) (alternatives name vals), set_tags a ts h)"
      "\<forall>kvs. alternatives name vals = Inr kvs \<longrightarrow> ts = pre @ [\<lparr>ct_keyVals = (dn @ [Some ?kv]) @ kvs, ct_isOrVal = b\<rparr>]"
      by auto
    with False kp show ?thesis
      by (intro exI [of _ ts]) (cases "alternatives name vals", auto simp: Let_def thenV_run u)
  qed
qed

definition set_dive :: "nat \<Rightarrow> cachedTags list \<Rightarrow> string \<Rightarrow> vheap \<Rightarrow> vheap" where
  "set_dive a ts dt = upd_field a (\<lambda>cf. cf\<lparr>cf_tags := ts, cf_dive := True, cf_diveTag := dt\<rparr>)"

lemma parse_tags_run:
  assumes "a < length (vh_fields h)"
  shows "case parsed name tag ts of
      Inl e \<Rightarrow> \<exists>us. parse_tags a name tag ts h = (Inl e, set_tags a us h)
    | Inr (cts, None) \<Rightarrow> parse_tags a name tag ts h = (Inr (), set_tags a (cf_tags (vh_fields h ! a) @ cts) h)
    | Inr (cts, Some dt) \<Rightarrow> parse_tags a name tag ts h = (Inr (), set_dive a (cf_tags (vh_fields h ! a) @ cts) dt h)"
  using assms
proof (induction ts arbitrary: h)
  case Nil
  then show ?case by (simp add: returnV_def set_same_tags)
next
  case (Cons t ts)
  show ?case
  proof (cases "t = diveTag")
    case True
    then show ?thesis
      by (simp add: update_field_run set_dive_def upd_field_def)
  next
    case False
    let ?or = "split_on (CHR ''|'') t" and ?cts = "cf_tags (vh_fields h ! a)"
    let ?b = "1 < length ?or"
    let ?h = "set_tags a (?cts @ [\<lparr>ct_keyVals = replicate (length ?or) None, ct_isOrVal = ?b\<rparr>]) h"
    have u: "update_field a (\<lambda>cf. cf\<lparr>cf_tags := cf_tags cf @ [\<lparr>ct_keyVals = replicate (length ?or) None, ct_isOrVal = ?b\<rparr>]\<rparr>) h =
        (Inr (), ?h)"
      by (simp add: update_field_run set_tags_def upd_field_def)
    from parse_alternatives_run [of a ?h ?cts "[]" ?or ?b name] Cons(2) obtain us where
      alt: "parse_alternatives a name 0 ?or ?h = (mapG (\<lambda>_. ()) (alternatives name ?or), set_tags a us h)"
        "\<forall>kvs. alternatives name ?or = Inr kvs \<longrightarrow> us = ?cts @ [\<lparr>ct_keyVals = kvs, ct_isOrVal = ?b\<rparr>]"
      by auto
    have s: "parse_tags a name tag (t # ts) h = thenV (parse_alternatives a name 0 ?or) (parse_tags a name tag ts) ?h"
      using False u by (simp add: Let_def thenV_run [of "update_field a _"])
    show ?thesis
    proof (cases "alternatives name ?or")
      case (Inl e)
      then show ?thesis using False alt(1) unfolding s by (auto simp: thenV_run)
    next
      case (Inr kvs)
      with alt have run: "parse_alternatives a name 0 ?or ?h = (Inr (), set_tags a us h)" by simp
      have "parse_tags a name tag (t # ts) h = parse_tags a name tag ts (set_tags a us h)"
        unfolding s thenV_run run by simp
      then show ?thesis
        using Cons.IH [of "set_tags a us h"] Cons(2) False Inr alt(2)
        by (auto simp: set_dive_def set_tags_def upd_upd_field split: sum.splits option.splits)
    qed
  qed
qed

lemma upd_field_id [simp]: "upd_field a (\<lambda>cf. cf) h = h"
  by (simp add: upd_field_def)

lemma ensure_tags_read:
  "cf_tags (vh_fields h ! a) \<noteq> [] \<Longrightarrow> ensure_tags a name tag False h = (Inr (), h)"
  "cf_tags (vh_fields h ! a) = [] \<Longrightarrow> ensure_tags a name tag False h = parse_tags a name tag (split_on (CHR '','') tag) h"
  by (auto simp: ensure_tags_def bindV_def thenV_def field_at_def returnV_def split: sum.splits prod.splits)

lemma ensure_tags_run:
  assumes "a < length (vh_fields h)" "tags_ok (vh_fields h ! a)"
    "parsed_tag (cf_name (vh_fields h ! a)) (cf_tag (vh_fields h ! a)) = Inr (cts, d)"
  shows "\<exists>g. ensure_tags a (cf_name (vh_fields h ! a)) (cf_tag (vh_fields h ! a)) False h = (Inr (), upd_field a g h) \<and>
    learns (vh_fields h ! a) (g (vh_fields h ! a)) \<and> tags_done (g (vh_fields h ! a))"
proof (cases "cf_tags (vh_fields h ! a) = []")
  case False
  with assms(2) have "tags_done (vh_fields h ! a)" by (simp add: tags_ok_def)
  with ensure_tags_read(1) [OF False] show ?thesis by (intro exI [of _ "\<lambda>cf. cf"]) simp
next
  case True
  let ?cf = "vh_fields h ! a"
  note run = parse_tags_run [OF assms(1), of "cf_name ?cf" "cf_tag ?cf" "split_on (CHR '','') (cf_tag ?cf)",
      folded parsed_tag_def, unfolded assms(3)]
  show ?thesis
  proof (cases d)
    case None
    let ?g = "\<lambda>cf. cf\<lparr>cf_tags := cts\<rparr>"
    have "\<not> cf_dive ?cf"
      using assms(2,3) None by (auto simp: tags_ok_def tags_done_def)
    then have "learns ?cf (?g ?cf)" "tags_done (?g ?cf)"
      using assms(3) None by (auto simp: learns_def same_static_def tags_done_def tags_ok_def elem_done_def flags_ok_def)
    then show ?thesis using run None True ensure_tags_read(2) [OF True]
      by (intro exI [of _ ?g]) (simp add: set_tags_def)
  next
    case (Some dt)
    let ?g = "\<lambda>cf. cf\<lparr>cf_tags := cts, cf_dive := True, cf_diveTag := dt\<rparr>"
    have "learns ?cf (?g ?cf)" "tags_done (?g ?cf)"
      using assms(3) Some by (auto simp: learns_def same_static_def tags_done_def tags_ok_def elem_done_def flags_ok_def)
    then show ?thesis using run Some True ensure_tags_read(2) [OF True]
      by (intro exI [of _ ?g]) (simp add: set_dive_def)
  qed
qed

lemma ensure_tags_fail:
  assumes "a < length (vh_fields h)" "cf_tags (vh_fields h ! a) = []" "parsed_tag name tag = Inl e"
  shows "\<exists>ts. ensure_tags a name tag False h = (Inl e, set_tags a ts h)"
  using parse_tags_run [OF assms(1), of name tag "split_on (CHR '','') tag", folded parsed_tag_def, unfolded assms(3)]
    ensure_tags_read(2) [OF assms(2)] by auto

lemma computes_ensure_tags:
  assumes "heap_ok V ft h" "a < length (vh_fields h)" "tags_ok (vh_fields h ! a)"
    "name = cf_name (vh_fields h ! a)" "tag = cf_tag (vh_fields h ! a)" "parsed_tag name tag = Inr r"
    "\<And>h'. ext h h' \<Longrightarrow> heap_ok V ft h' \<Longrightarrow> tags_done (vh_fields h' ! a) \<Longrightarrow> computes V ft n h' res"
  shows "computes V ft (thenV (ensure_tags a name tag False) n) h res"
proof -
  obtain g where g: "ensure_tags a name tag False h = (Inr (), upd_field a g h)"
      "learns (vh_fields h ! a) (g (vh_fields h ! a))" "tags_done (g (vh_fields h ! a))"
    using ensure_tags_run [OF assms(2,3)] assms(4-6) by (cases r) auto
  note e = ext_upd_field [of a h g, OF assms(2) g(2)]
  from assms(7) [OF e heap_ok_upd_field [of a h g, OF assms(2) g(2) assms(1)]] g(3) assms(2)
  obtain h' where "n (upd_field a g h) = (res, h')" "ext (upd_field a g h) h'" "heap_ok V ft h'" by (auto simp: computes_def)
  with g(1) ext_trans [OF e] show ?thesis by (auto simp: computes_def thenV_run)
qed

end
