(* ===== verification/ValidatorRefine.thy ===== *)
theory ValidatorRefine
  imports ValidatorHeap
begin

text \<open>
  The walk on the heap computes what validation promises. For each function of the walk there is one
  lemma, which takes the agreement of the functions it calls on smaller parts of the value; an induction
  on the size of the value closes the circle.
\<close>

section \<open>What the functions of the walk need of an object\<close>

definition ready :: "vheap \<Rightarrow> nat \<Rightarrow> string \<Rightarrow> string \<Rightarrow> 'f rval \<Rightarrow> bool" where
  "ready h a name tag v \<longleftrightarrow> a < length (vh_fields h) \<and> cf_name (vh_fields h ! a) = name \<and> cf_tag (vh_fields h ! a) = tag \<and>
     cf_kind (vh_fields h ! a) = kind_of v \<and> cf_typ (vh_fields h ! a) = type_of v \<and>
     tags_ok (vh_fields h ! a) \<and> flags_ok (vh_fields h ! a) \<and>
     (kind_of v \<in> {KSlice, KArray, KMap} \<longrightarrow> elem_done (vh_fields h ! a))"

definition dives :: "vheap \<Rightarrow> nat \<Rightarrow> string \<Rightarrow> rtype \<Rightarrow> string \<Rightarrow> bool" where
  "dives h a name t dt \<longleftrightarrow> a < length (vh_fields h) \<and> cf_name (vh_fields h ! a) = name \<and>
     elem_done (vh_fields h ! a) \<and> tags_done (vh_fields h ! a) \<and> type_Elem (cf_typ (vh_fields h ! a)) = Inr t \<and>
     (\<exists>cts. parsed_tag name (cf_tag (vh_fields h ! a)) = Inr (cts, Some dt))"

lemma dives_ext:
  assumes "ext h h'" "dives h a name t dt"
  shows "dives h' a name t dt"
  using assms(2) ext_field [OF assms(1), of a] unfolding dives_def learns_def same_static_def by auto

lemma dives_facts:
  assumes "dives h a name t dt"
  shows "a < length (vh_fields h)" "cf_name (vh_fields h ! a) = name" "cf_diveTag (vh_fields h ! a) = dt"
    "cf_subtype (vh_fields h ! a) = Some t" "cf_subKind (vh_fields h ! a) = kind_of_type t"
    "cf_isTimeSubtype (vh_fields h ! a) = time_type t"
proof -
  show "a < length (vh_fields h)" "cf_name (vh_fields h ! a) = name" using assms by (simp_all add: dives_def)
  obtain cts where c: "parsed_tag name (cf_tag (vh_fields h ! a)) = Inr (cts, Some dt)" using assms by (auto simp: dives_def)
  obtain cts' d where "parsed_tag name (cf_tag (vh_fields h ! a)) = Inr (cts', d)" "\<forall>dt. d = Some dt \<longrightarrow> cf_diveTag (vh_fields h ! a) = dt"
    using assms unfolding dives_def tags_done_def by blast
  with c show "cf_diveTag (vh_fields h ! a) = dt" by simp
  from assms have "elem_done (vh_fields h ! a)" "type_Elem (cf_typ (vh_fields h ! a)) = Inr t" by (simp_all add: dives_def)
  then show "cf_subtype (vh_fields h ! a) = Some t" "cf_subKind (vh_fields h ! a) = kind_of_type t"
    "cf_isTimeSubtype (vh_fields h ! a) = time_type t" by (simp_all add: elem_done_def)
qed

section \<open>Agreement\<close>

definition struct_agrees :: "'f Validate \<Rightarrow> field_types \<Rightarrow> 'f iface \<Rightarrow> bool" where
  "struct_agrees V ft s \<longleftrightarrow> (\<forall>tp cur h. heap_ok V ft h \<longrightarrow>
     computes V ft (structRecursive V tp cur s) h (valid_iface V tp cur s))"

definition checked_agrees :: "'f Validate \<Rightarrow> field_types \<Rightarrow> 'f rval \<Rightarrow> bool" where
  "checked_agrees V ft v \<longleftrightarrow> (\<forall>val cur tag name a h r.
     heap_ok V ft h \<longrightarrow> ready h a name tag v \<longrightarrow> parsed_tag name tag = Inr r \<longrightarrow>
     computes V ft (check_field V val cur (Some v) (Some v) tag name False a) h (valid_checked V val cur v tag name))"

definition named_agrees :: "'f Validate \<Rightarrow> field_types \<Rightarrow> 'f iface \<Rightarrow> bool" where
  "named_agrees V ft f \<longleftrightarrow> (\<forall>val cur tag name ca h. heap_ok V ft h \<longrightarrow>
     (\<forall>a. ca = Some a \<longrightarrow> (\<exists>v. f = Some v \<and> ready h a name tag v) \<and> (tag = [] \<or> (\<exists>r. parsed_tag name tag = Inr r))) \<longrightarrow>
     computes V ft (fieldWithNameAndValue V val cur f tag name False ca) h (valid_named V val cur f tag name))"

definition elem_agrees :: "'f Validate \<Rightarrow> field_types \<Rightarrow> rtype \<Rightarrow> 'f rval \<Rightarrow> bool" where
  "elem_agrees V ft t x \<longleftrightarrow> (\<forall>val cur a name dt ename h. heap_ok V ft h \<longrightarrow> dives h a name t dt \<longrightarrow>
     computes V ft (dive_element V val cur a ename x) h (valid_elem V val cur t dt ename x))"

section \<open>Slices and maps\<close>

lemma slice_agrees:
  assumes "\<forall>x \<in> set xs. elem_agrees V ft t x" "heap_ok V ft h" "dives h a name t dt"
  shows "computes V ft (traverseSlice V val cur a i xs) h (valid_slice V val cur t dt name i xs)"
  using assms
proof (induction xs arbitrary: i h)
  case Nil
  then show ?case by auto
next
  case (Cons x xs)
  from Cons.prems have x: "computes V ft (dive_element V val cur a ename x) h (valid_elem V val cur t dt ename x)" for ename
    by (simp add: elem_agrees_def)
  have "computes V ft (traverseSlice V val cur a (Suc i) xs) h' (valid_slice V val cur t dt name (Suc i) xs)"
    if "ext h h'" "heap_ok V ft h'" for h'
    using Cons.IH [of h' "Suc i"] Cons.prems(1) dives_ext [OF that(1) Cons.prems(3)] that(2) by simp
  then show ?case
    by (auto simp: dives_facts [OF Cons.prems(3)] intro!: computes_bind [OF x] computes_map)
qed

lemma map_agrees:
  assumes "\<forall>(key, x) \<in> set kvs. elem_agrees V ft t x" "heap_ok V ft h" "dives h a name t dt"
  shows "computes V ft (traverseMap V val cur a kvs) h (valid_map V val cur t dt name kvs)"
  using assms
proof (induction kvs arbitrary: h)
  case Nil
  then show ?case by auto
next
  case (Cons kv kvs)
  obtain key x where kv: "kv = (key, x)" by force
  from Cons.prems have x: "computes V ft (dive_element V val cur a ename x) h (valid_elem V val cur t dt ename x)" for ename
    by (simp add: elem_agrees_def kv)
  have "computes V ft (traverseMap V val cur a kvs) h' (valid_map V val cur t dt name kvs)"
    if "ext h h'" "heap_ok V ft h'" for h'
    using Cons.IH [of h'] Cons.prems(1) dives_ext [OF that(1) Cons.prems(3)] that(2) by simp
  then show ?case
    by (auto simp: kv dives_facts [OF Cons.prems(3)] intro!: computes_bind [OF x] computes_map)
qed

section \<open>One field\<close>

lemma check_tags_cong:
  fixes V :: "'f Validate"
  assumes "cf_kind cf = cf_kind cf'" "cf_typ cf = cf_typ cf'"
  shows "check_tags V val cur f name cf cts = check_tags V val cur f name cf' cts"
proof -
  have "set_kind_type cf = (set_kind_type cf' :: 'f FieldError \<Rightarrow> _)" by (rule HOL.ext) (simp add: set_kind_type_def assms)
  then show ?thesis by (induction cts) simp_all
qed

text \<open>The elements a value dives into.\<close>

fun elems :: "'f rval \<Rightarrow> (rtype \<times> 'f rval) list" where
  "elems (SliceV t xs) = map (Pair t) xs"
| "elems (ArrayV t xs) = map (Pair t) xs"
| "elems (MapV k t kvs) = map (\<lambda>kv. (t, snd kv)) kvs"
| "elems v = []"

lemma checked_step:
  assumes "wt V ft v" "\<forall>(t, x) \<in> set (elems v). elem_agrees V ft t x"
  shows "checked_agrees V ft v"
  unfolding checked_agrees_def
proof (intro allI impI)
  fix val cur tag name a h r
  assume h: "heap_ok V ft h" and a: "ready h a name tag v" and r: "parsed_tag name tag = Inr r"
  obtain cts d where cts: "parsed_tag name tag = Inr (cts, d)" using r by (cases r) simp
  show "computes V ft (check_field V val cur (Some v) (Some v) tag name False a) h (valid_checked V val cur v tag name)"
  proof (cases "kind_of v \<in> {KStruct, KInterface, Invalid} \<and> type_of v \<noteq> RTime")
    case True
    with a computes_throw [OF h] show ?thesis by (simp add: check_field.simps valid_checked.simps ready_def)
  next
    case False
    let ?cf = "vh_fields h ! a"
    have cf: "a < length (vh_fields h)" "cf_name ?cf = name" "cf_tag ?cf = tag" "cf_kind ?cf = kind_of v"
      "cf_typ ?cf = type_of v" "tags_ok ?cf" "flags_ok ?cf" "kind_of v \<in> {KSlice, KArray, KMap} \<longrightarrow> elem_done ?cf"
      using a by (simp_all add: ready_def)
    have c: "\<not> (cf_kind ?cf \<in> {KStruct, KInterface, Invalid} \<and> cf_typ ?cf \<noteq> RTime)" unfolding cf using False by simp
    note unfold = check_field.simps valid_checked.simps computes_field_at if_not_P [OF c] if_not_P [OF False] cts
      bindG_simps prod.case
    show ?thesis
      unfolding unfold
    proof (rule computes_ensure_tags [OF h cf(1,6)], goal_cases)
      case (4 h')
      let ?cf = "vh_fields h' ! a"
      note h' = 4(2) and g = ext_field [OF 4(1) cf(1)]
      have cf': "a < length (vh_fields h')" "cf_name ?cf = name" "cf_tag ?cf = tag" "cf_kind ?cf = kind_of v"
        "cf_typ ?cf = type_of v" "flags_ok ?cf" "kind_of v \<in> {KSlice, KArray, KMap} \<longrightarrow> elem_done ?cf"
        using g cf by (auto simp: learns_def same_static_def)
      have tags: "cf_tags ?cf = cts" "cf_dive ?cf \<longleftrightarrow> d \<noteq> None"
        using 4(3) cts unfolding tags_done_def cf'(2,3) by auto
      have eq: "check_tags V val cur (Some v) name ?cf cts = check_tags V val cur (Some v) name (plain_field 0 name tag v) cts"
        using cf' by (intro check_tags_cong) (simp_all add: plain_field_def)
      have dv: "dives h' a name t dt" if "d = Some dt" "type_Elem (type_of v) = Inr t" "kind_of v \<in> {KSlice, KArray, KMap}" for t dt
        using that cf' 4(3) cts by (simp add: dives_def)
      show ?case
        unfolding computes_field_at tags(1) eq
      proof (rule computes_lift_bind [OF h'], goal_cases)
        case (1 x)
        show ?case
        proof (cases x)
          case Passed
          show ?thesis
          proof (cases d)
            case None
            with Passed tags(2) h' show ?thesis by auto
          next
            case (Some dt)
            have *: "cf_dive ?cf" using tags(2) Some by simp
            show ?thesis
            proof (cases "kind_of v \<in> {KSlice, KArray, KMap}")
              case True
              with cf'(7) have e: "elem_done ?cf" by auto
              show ?thesis
                using True assms dv [OF Some] e *
                by (cases v) (auto simp: Passed Some elem_done_def placeholder_def cf' h' cong: if_cong
                    intro!: computes_map slice_agrees map_agrees)
            next
              case False
              then show ?thesis
                using cf'(4,6) * h' by (cases v) (auto simp: Passed Some flags_ok_def)
            qed
          qed
        qed (use h' in auto)
      qed
    qed (simp_all add: cf cts)
  qed
qed

text \<open>An object that is made for a value is ready; tags that cannot be read are the panic of the parser.\<close>

lemma fresh_field_ready:
  assumes "wt V ft v"
  shows "\<exists>cf. fresh_field name tag v = Inr cf \<and> cf_tags cf = [] \<and> (\<forall>h. ready (h\<lparr>vh_fields := vh_fields h @ [cf]\<rparr>) (length (vh_fields h)) name tag v)"
proof -
  let ?p = "plain_field 0 name tag v"
  have p: "tags_ok ?p" "flags_ok ?p" by (simp_all add: plain_field_def tags_ok_def flags_ok_def)
  show ?thesis
    using assms
    by (cases v)
      (auto simp: fresh_field_def Let_def ready_def nth_append plain_field_def tags_ok_def flags_ok_def elem_done_def with_elem_def)
qed

lemma check_field_fail:
  assumes "heap_ok V ft h" "cf_tags cf = []" "cf_kind cf = kind_of v" "cf_typ cf = type_of v"
    "parsed_tag name tag = Inl e"
  shows "computes V ft (bindV (new_field cf) (check_field V val cur f (Some v) tag name False)) h (valid_checked V val cur v tag name)"
proof -
  let ?h = "h\<lparr>vh_fields := vh_fields h @ [cf]\<rparr>" and ?a = "length (vh_fields h)"
  have a: "?a < length (vh_fields ?h)" "vh_fields ?h ! ?a = cf" by simp_all
  from a assms(2) ensure_tags_fail [of ?a ?h name tag e] assms(5) obtain ts where
    ts: "ensure_tags ?a name tag False ?h = (Inl e, set_tags ?a ts ?h)" by auto
  have "ext h (set_tags ?a ts ?h)"
    by (auto simp: ext_def set_tags_def upd_field_def nth_append)
  moreover from this have "heap_ok V ft (set_tags ?a ts ?h)"
    by (rule heap_ok_ext) (simp_all add: assms(1) set_tags_def upd_field_def)
  ultimately show ?thesis
    using assms(1,3,4) ext_new_field [of h cf] heap_ok_ext [OF ext_new_field [of h cf] assms(1)] a ts assms(5)
    by (auto simp: computes_def bindV_def new_field_def check_field.simps valid_checked.simps field_at_def throwV_def thenV_run)
qed

text \<open>A value without a cached field gets a new one, for this call.\<close>

lemma fresh_step:
  assumes "wt V ft v" "checked_agrees V ft v" and h: "heap_ok V ft h"
  shows "computes V ft
    (bindV (liftV (fresh_field name tag v)) (\<lambda>cf. bindV (new_field cf) (check_field V val cur (Some v) (Some v) tag name False))) h
    (valid_checked V val cur v tag name)"
proof -
  obtain cf where cf: "fresh_field name tag v = Inr cf" "cf_tags cf = []"
      "\<And>h. ready (h\<lparr>vh_fields := vh_fields h @ [cf]\<rparr>) (length (vh_fields h)) name tag v"
    using fresh_field_ready [OF assms(1), of name tag] by auto
  have k: "cf_kind cf = kind_of v" "cf_typ cf = type_of v" using cf(3) [of h] by (simp_all add: ready_def)
  have run: "computes V ft (bindV (liftV (fresh_field name tag v)) K) h r \<longleftrightarrow> computes V ft (K cf) h r" for K r
    by (simp add: computes_def bindV_def liftV_def cf(1))
  show ?thesis
    unfolding run
  proof (cases "parsed_tag name tag")
    case (Inl e)
    from check_field_fail [OF h cf(2) k this]
    show "computes V ft (bindV (new_field cf) (check_field V val cur (Some v) (Some v) tag name False)) h
      (valid_checked V val cur v tag name)" .
  next
    case (Inr r)
    show "computes V ft (bindV (new_field cf) (check_field V val cur (Some v) (Some v) tag name False)) h
      (valid_checked V val cur v tag name)"
      by (rule computes_new_field [OF h]) (use assms(2) cf(3) Inr in \<open>auto simp: checked_agrees_def\<close>)
  qed
qed

lemma named_step:
  assumes "wt_iface V ft f" "\<And>v. f = Some v \<Longrightarrow> checked_agrees V ft v"
  shows "named_agrees V ft f"
  unfolding named_agrees_def
proof (intro allI impI)
  fix val cur tag name ca h
  assume h: "heap_ok V ft h"
    and ca: "\<forall>a. ca = Some a \<longrightarrow> (\<exists>v. f = Some v \<and> ready h a name tag v) \<and> (tag = [] \<or> (\<exists>r. parsed_tag name tag = Inr r))"
  show "computes V ft (fieldWithNameAndValue V val cur f tag name False ca) h (valid_named V val cur f tag name)"
  proof (cases "tag = noValidationTag \<or> tag = []")
    case True
    with h show ?thesis by (auto simp: fieldWithNameAndValue.simps valid_named.simps)
  next
    case False
    have checked: "computes V ft
        (case ca of
           Some a \<Rightarrow> check_field V val cur f f tag name False a
         | None \<Rightarrow>
             (case f of
                None \<Rightarrow> liftV (value_error ''Type'' f)
              | Some v0 \<Rightarrow>
                  let v = follow v0
                  in bindV (liftV (fresh_field name tag v)) (\<lambda>cf.
                       bindV (new_field cf) (\<lambda>a.
                         check_field V val cur (to_iface v) (Some v) tag name
                           (False \<and> kind_of v \<notin> {KSlice, KArray, KMap}) a)))) h
        (case f of None \<Rightarrow> value_error ''Type'' f | Some v \<Rightarrow> valid_checked V val cur v tag name)"
    proof (cases ca)
      case (Some a)
      with ca False obtain v r where "f = Some v" "ready h a name tag v" "parsed_tag name tag = Inr r" by auto
      with assms(2) h Some show ?thesis by (simp add: checked_agrees_def)
    next
      case None
      show ?thesis
      proof (cases f)
        case f: (Some v)
        with assms(1) have v: "wt V ft v" "kind_of v \<noteq> KInterface" by simp_all
        with None f fresh_step [OF v(1) assms(2) [OF f] h] show ?thesis by (simp add: to_iface_plain)
      qed (use None h in auto)
    qed
    have "computes V ft (bindV (liftV hv) (\<lambda>has. if \<not> has then returnV None else M)) h
        (bindG hv (\<lambda>has. if \<not> has then Inr None else R))" if "computes V ft M h R" for hv and M :: "'a FieldError option vm" and R
      using that h by (intro computes_lift_bind) auto
    from this [OF checked] show ?thesis
      unfolding fieldWithNameAndValue.simps valid_named.simps if_not_P [OF False] .
  qed
qed

section \<open>Elements and fields\<close>

lemma struct_agreesD: "struct_agrees V ft s \<Longrightarrow> heap_ok V ft h \<Longrightarrow>
    computes V ft (structRecursive V tp cur s) h (valid_iface V tp cur s)"
  by (simp add: struct_agrees_def)

lemma named_agreesD: "named_agrees V ft f \<Longrightarrow> heap_ok V ft h \<Longrightarrow>
    computes V ft (fieldWithNameAndValue V val cur f tag name False None) h (valid_named V val cur f tag name)"
  by (simp add: named_agrees_def)

lemma computes_same_update:
  "g (vh_fields h ! a) = vh_fields h ! a \<Longrightarrow> computes V ft (thenV (update_field a g) n) h r = computes V ft n h r"
  by (simp add: computes_def thenV_run update_field_run upd_field_def)

lemma computes_lifted: "computes V ft (bindV (liftV (Inr x)) f) h r = computes V ft (f x) h r"
  by (simp add: computes_def bindV_def liftV_def)

lemma computes_lifted_panic: "heap_ok V ft h \<Longrightarrow> computes V ft (bindV (liftV (Inl e)) f) h (Inl e)"
  by (simp add: computes_def bindV_def liftV_def)

lemma elem_step:
  assumes "wt V ft x" "type_of x = t" "struct_agrees V ft (to_iface x)" "named_agrees V ft (to_iface x)"
  shows "elem_agrees V ft t x"
  unfolding elem_agrees_def
proof (intro allI impI)
  fix val cur a name dt ename h
  assume h: "heap_ok V ft h" and d: "dives h a name t dt"
  note f = dives_facts [OF d]
  have k: "kind_of_type t = kind_of x" using assms(2) by (simp add: kind_of_def)
  have p: "kind_of x \<noteq> KPtr" using wt_no_ptr [OF assms(1)] .
  have same: "(vh_fields h ! a)\<lparr>cf_subKind := kind_of x\<rparr> = vh_fields h ! a" using f(5) k by simp
  note go = computes_map [OF struct_agreesD [OF assms(3) h]] computes_map [OF named_agreesD [OF assms(4) h]]
    computes_return [OF h]
  have p': "(kind_of x = KPtr) = False" using p by simp
  note unfold = dive_element.simps valid_elem.simps computes_field_at Let_def f k p' simp_thms if_False
    computes_same_update [where g = "\<lambda>cf. cf\<lparr>cf_subKind := kind_of x\<rparr>", OF same]
  show "computes V ft (dive_element V val cur a ename x) h (valid_elem V val cur t dt ename x)"
    unfolding unfold using go assms(1,2)
    by (cases x rule: elems.cases) (auto simp: time_type_def to_iface_plain split: option.splits)
qed

definition field_agrees :: "'f Validate \<Rightarrow> field_types \<Rightarrow> 'f rval \<Rightarrow> bool" where
  "field_agrees V ft v \<longleftrightarrow> (\<forall>tp cur c a h st i. heap_ok V ft h \<longrightarrow> a < length (vh_fields h) \<longrightarrow>
     field_ok V ft st i (vh_fields h ! a) \<longrightarrow> ft st ! i = type_of v \<longrightarrow>
     keep V (st_fields st ! i) (type_of v) \<longrightarrow> parsable V (st_fields st ! i) \<longrightarrow>
     computes V ft (validate_field V tp cur c a (fi_exported (st_fields st ! i)) v) h
       (valid_field V tp cur (st_fields st ! i) v))"

lemma named_at:
  assumes "named_agrees V ft (Some v)" "heap_ok V ft h" "ready h a (fi_Name fi) (tag_of V fi) v" "parsable V fi"
  shows "computes V ft (fieldWithNameAndValue V val cur (Some v) (tag_of V fi) (fi_Name fi) False (Some a)) h
    (valid_named V val cur (Some v) (tag_of V fi) (fi_Name fi))"
  using assms by (auto simp: named_agrees_def parsable_def)

lemma thenV_assoc: "thenV (bindV (liftV (Inr t)) f) n = thenV (f t) n"
  by (rule HOL.ext) (simp add: thenV_run bindV_def liftV_def)

text \<open>A container learns the type of its elements.\<close>

lemma container_step:
  assumes "heap_ok V ft h" "a < length (vh_fields h)" "field_ok V ft st i (vh_fields h ! a)" "ft st ! i = type_of v"
    "type_Elem (type_of v) = Inr t" "sl \<longleftrightarrow> kind_of v \<in> {KSlice, KArray}" "mp \<longleftrightarrow> kind_of v = KMap"
    "\<And>cf. g cf = (with_elem t cf)\<lparr>cf_isSliceOrArray := sl \<or> cf_isSliceOrArray cf, cf_isMap := mp \<or> cf_isMap cf\<rparr>"
    "sl \<or> mp"
    "\<And>h'. heap_ok V ft h' \<Longrightarrow> ready h' a (fi_Name (st_fields st ! i)) (tag_of V (st_fields st ! i)) v \<Longrightarrow> computes V ft n h' r"
  shows "computes V ft (thenV (update_field a g) n) h r"
proof -
  let ?cf = "vh_fields h ! a"
  note f = assms(3) [unfolded field_ok_def assms(4)]
  have gr: "learns ?cf (g ?cf)"
    using f assms(5-7) by (auto simp: learns_def same_static_def assms(8) with_elem_def tags_ok_def tags_done_def elem_done_def
        flags_ok_def kind_of_def)
  have "tags_ok (g ?cf)" "flags_ok (g ?cf)" using gr f by (simp_all add: learns_def)
  moreover have "elem_done (g ?cf)"
    using f assms(5-7) by (auto simp: elem_done_def assms(8) with_elem_def flags_ok_def kind_of_def)
  ultimately have "ready (upd_field a g h) a (fi_Name (st_fields st ! i)) (tag_of V (st_fields st ! i)) v"
    using f assms(2) gr by (simp add: ready_def learns_def same_static_def kind_of_def)
  from computes_update [OF assms(2) gr assms(10) [OF heap_ok_upd_field [of a h g, OF assms(2) gr assms(1)] this]]
  show ?thesis .
qed

text \<open>The cached field of a value, and what is known about it.\<close>

definition cached_at :: "'f Validate \<Rightarrow> field_types \<Rightarrow> vheap \<Rightarrow> nat \<Rightarrow> struct_type \<Rightarrow> nat \<Rightarrow> 'f rval \<Rightarrow> bool" where
  "cached_at V ft h a st i v \<longleftrightarrow> wt V ft v \<and> heap_ok V ft h \<and> a < length (vh_fields h) \<and> field_ok V ft st i (vh_fields h ! a) \<and>
     ft st ! i = type_of v \<and> keep V (st_fields st ! i) (type_of v) \<and> parsable V (st_fields st ! i)"

lemma cached_atD:
  assumes "cached_at V ft h a st i v"
  shows "wt V ft v" "heap_ok V ft h" "a < length (vh_fields h)" "field_ok V ft st i (vh_fields h ! a)" "ft st ! i = type_of v"
    "keep V (st_fields st ! i) (type_of v)" "parsable V (st_fields st ! i)"
  using assms unfolding cached_at_def by blast+

lemma cached_at_fields:
  assumes "cached_at V ft h a st i v"
  shows "cf_kind (vh_fields h ! a) = kind_of v" "cf_name (vh_fields h ! a) = fi_Name (st_fields st ! i)"
    "cf_tag (vh_fields h ! a) = tag_of V (st_fields st ! i)" "cf_isTime (vh_fields h ! a) = time_type (type_of v)"
    "cf_typ (vh_fields h ! a) = type_of v" "(kind_of v = KPtr) = False" "(\<not> keep V (st_fields st ! i) (type_of v)) = False"
    "(vh_fields h ! a)\<lparr>cf_kind := kind_of v\<rparr> = vh_fields h ! a"
proof -
  note f = cached_atD(4) [OF assms, unfolded field_ok_def cached_atD(5) [OF assms]]
  show k: "cf_kind (vh_fields h ! a) = kind_of v" using f by (simp add: kind_of_def)
  then show "(vh_fields h ! a)\<lparr>cf_kind := kind_of v\<rparr> = vh_fields h ! a" by simp
  show "(kind_of v = KPtr) = False" using wt_no_ptr [OF cached_atD(1) [OF assms]] by simp
qed (use cached_atD(4-6) [OF assms] in \<open>simp_all add: field_ok_def\<close>)

lemma cached_at_ready:
  assumes "cached_at V ft h a st i v" "kind_of v \<notin> {KSlice, KArray, KMap}"
  shows "ready h a (fi_Name (st_fields st ! i)) (tag_of V (st_fields st ! i)) v"
  using cached_atD [OF assms(1)] assms(2) by (auto simp: ready_def field_ok_def kind_of_def)

lemmas validate_unfold = validate_field.simps valid_field.simps computes_field_at Let_def simp_thms if_False

text \<open>A struct or an interface is validated through what it holds; a time as it is.\<close>

lemma field_step_sub:
  assumes c: "cached_at V ft h a st i v" and s: "struct_agrees V ft (to_iface v)" "named_agrees V ft (to_iface v)"
    and kind: "kind_of v = KStruct \<or> kind_of v = KInterface"
  shows "computes V ft (validate_field V tp cur c' a (fi_exported (st_fields st ! i)) v) h (valid_field V tp cur (st_fields st ! i) v)"
proof -
  let ?fi = "st_fields st ! i"
  note h = cached_atD(2) [OF c] and k = cached_at_fields [OF c]
  note go = computes_map [OF struct_agreesD [OF s(1) h]] computes_map [OF named_agreesD [OF s(2) h]]
    computes_return [OF h] computes_lift [OF h]
  note unfold = validate_unfold k(1-7) computes_same_update [where g = "\<lambda>cf. cf\<lparr>cf_kind := kind_of v\<rparr>", OF k(8)]
  have r: "ready h a (fi_Name ?fi) (tag_of V ?fi) v" using kind by (intro cached_at_ready [OF c]) auto
  have u: "upper_initial (fi_Name ?fi)" "type_of v \<noteq> RTime \<Longrightarrow> \<not> Contains (tag_of V ?fi) structOnlyTag"
    using cached_atD(6) [OF c] kind by (auto simp: keep_def Let_def kind_of_def)
  from kind consider (time) j l where "v = TimeV j l" | (iface) z where "v = InterfaceV z" | (struct) st' vs where "v = StructV st' vs"
    by (cases v) auto
  then show ?thesis
  proof cases
    case time
    from named_at [OF _ h r cached_atD(7) [OF c]] s(2) have "computes V ft
        (fieldWithNameAndValue V tp cur (Some v) (tag_of V ?fi) (fi_Name ?fi) False (Some a)) h
        (valid_named V tp cur (Some v) (tag_of V ?fi) (fi_Name ?fi))" by (simp add: time)
    then show ?thesis unfolding unfold using time u(1) go(4) by (auto simp: time_type_def intro!: computes_map)
  next
    case iface
    then show ?thesis unfolding unfold using u go cached_atD(1) [OF c]
      by (auto simp: time_type_def to_iface_plain value_Interface_def unexported_def computes_lifted computes_lifted_panic [OF h]
          split: option.splits)
  next
    case struct
    then show ?thesis unfolding unfold using u go by (auto simp: time_type_def)
  qed
qed

text \<open>The other fields go through their tags; what a slice or a map holds is first noted in the cached field.\<close>

lemma field_step_flat:
  assumes c: "cached_at V ft h a st i v" and s: "named_agrees V ft (to_iface v)"
    and kind: "\<not> (kind_of v = KStruct \<or> kind_of v = KInterface)"
  shows "computes V ft (validate_field V tp cur c' a (fi_exported (st_fields st ! i)) v) h (valid_field V tp cur (st_fields st ! i) v)"
proof -
  let ?fi = "st_fields st ! i"
  note k = cached_at_fields [OF c]
  note unfold = validate_unfold k(1-7) computes_same_update [where g = "\<lambda>cf. cf\<lparr>cf_kind := kind_of v\<rparr>", OF k(8)]
  have kc: "(kind_of v = KStruct \<or> kind_of v = KInterface) = False" using kind by simp
  have v: "to_iface v = Some v" using kind by (simp add: to_iface_plain)
  let ?named = "if \<not> fi_exported ?fi then liftV unexported
      else mapV FieldDone (fieldWithNameAndValue V tp cur (to_iface v) (tag_of V ?fi) (fi_Name ?fi) False (Some a))"
  have named: "computes V ft ?named h' (if \<not> fi_exported ?fi then unexported
        else mapG FieldDone (valid_named V tp cur (Some v) (tag_of V ?fi) (fi_Name ?fi)))"
    if "heap_ok V ft h'" "ready h' a (fi_Name ?fi) (tag_of V ?fi) v" for h'
    using that cached_atD(7) [OF c] s v by (simp add: computes_lift computes_map named_at)
  show ?thesis
  proof (cases "kind_of v \<in> {KSlice, KArray, KMap}")
    case True
    then obtain t where el: "type_Elem (type_of v) = Inr t" by (cases v) auto
    note step = container_step [OF cached_atD(2-5) [OF c] el, where ?n = ?named, OF _ _ _ _ named]
    show ?thesis
    proof (cases "kind_of v = KMap")
      case True
      then have m: "(kind_of v = KSlice \<or> kind_of v = KArray) = False" "(kind_of v = KMap) = True" by simp_all
      show ?thesis unfolding unfold kc el m if_True thenV_assoc using m
        by (intro step [of False True]) (auto simp: with_elem_def)
    next
      case False
      with \<open>_ \<in> _\<close> have sl: "(kind_of v = KSlice \<or> kind_of v = KArray) = True" by auto
      show ?thesis unfolding unfold kc el sl if_True thenV_assoc using sl False
        by (intro step [of True False]) (auto simp: with_elem_def)
    qed
  next
    case False
    show ?thesis unfolding unfold kc using False named [OF cached_atD(2) [OF c] cached_at_ready [OF c False]] by simp
  qed
qed

lemma field_step:
  assumes "wt V ft v" "struct_agrees V ft (to_iface v)" "named_agrees V ft (to_iface v)"
  shows "field_agrees V ft v"
  unfolding field_agrees_def
proof (intro allI impI)
  fix tp cur c a h i and st :: struct_type
  assume "heap_ok V ft h" "a < length (vh_fields h)" "field_ok V ft st i (vh_fields h ! a)"
    "ft st ! i = type_of v" "keep V (st_fields st ! i) (type_of v)" "parsable V (st_fields st ! i)"
  with assms(1) have c: "cached_at V ft h a st i v" by (simp add: cached_at_def)
  show "computes V ft (validate_field V tp cur c a (fi_exported (st_fields st ! i)) v) h (valid_field V tp cur (st_fields st ! i) v)"
    using field_step_sub [OF c assms(2,3)] field_step_flat [OF c assms(3)] by blast
qed

end
