(* ===== verification/ValidatorCases.thy ===== *)
theory ValidatorCases
  imports Validator BakedInProps
begin

text \<open>
  Runs of the validator that show how its caches decide what is validated. Which fields of a type are
  looked at is settled by the first value of the type that is seen, and changes with later ones.
\<close>

section \<open>Types and values\<close>

text \<open>
  \<open>Inner\<close> requires its field \<open>B\<close>. \<open>Outer\<close> points to an \<open>Inner\<close> without a tag; \<open>Only\<close> points to one
  that is optional and not to be looked into, and requires its second field.
\<close>

definition plain_info :: "string \<Rightarrow> string \<Rightarrow> field_info" where
  "plain_info n t = \<lparr>fi_Name = n, fi_exported = True, fi_Tag = [(''binding'', t)]\<rparr>"

definition inner_t :: struct_type where
  "inner_t = \<lparr>st_id = 1, st_Name = ''Inner'', st_fields = [plain_info ''B'' ''required''], st_comparable = True\<rparr>"

definition outer_t :: struct_type where
  "outer_t = \<lparr>st_id = 2, st_Name = ''Outer'', st_fields = [plain_info ''A'' []], st_comparable = True\<rparr>"

definition only_t :: struct_type where
  "only_t = \<lparr>st_id = 3, st_Name = ''Only'', st_fields = [plain_info ''A'' ''omitempty,structonly'', plain_info ''C'' ''required''],
     st_comparable = True\<rparr>"

definition baked_in :: "nat Validate" where
  "baked_in = New sample_venv ''binding'' (map_of BakedInValidators)"

definition bad_inner :: "nat rval" where "bad_inner = StructV inner_t [StringV []]"
definition outer_nil :: "nat rval" where "outer_nil = StructV outer_t [PtrV (RStruct inner_t) None]"
definition outer_bad :: "nat rval" where "outer_bad = StructV outer_t [PtrV (RStruct inner_t) (Some bad_inner)]"
definition only_nil :: "nat rval" where "only_nil = StructV only_t [PtrV (RStruct inner_t) None, StringV ''x'']"
definition only_bad :: "nat rval" where "only_bad = StructV only_t [PtrV (RStruct inner_t) (Some bad_inner), StringV []]"

text \<open>Whether the values were found invalid, validated one after the other from an empty cache.\<close>

definition invalid_of :: "'f StructErrors option go \<Rightarrow> bool option" where
  "invalid_of r = (case r of Inl _ \<Rightarrow> None | Inr e \<Rightarrow> Some (e \<noteq> None))"

definition found_invalid :: "nat Validate \<Rightarrow> nat rval list \<Rightarrow> bool option list" where
  "found_invalid V vs = map invalid_of (fst (Structs V (map Some vs) empty_heap))"

section \<open>Evaluation\<close>

lemmas walk_eqs = structRecursive.simps struct_loop.simps validate_field.simps fieldWithNameAndValue.simps check_field.simps
  dive_element.simps

lemmas vm_defs = bindV_def returnV_def liftV_def throwV_def thenV_def mapV_def field_at_def update_field_def new_field_def
  struct_at_def update_struct_def new_struct_def structCache_Get_def structCache_Set_def fieldsCache_Get_def
  fieldsCache_Set_def dec_children_def

lemmas tag_defs = ensure_tags_def noValidationTag_def diveTag_def omitempty_def structOnlyTag_def HasPrefix_def split2_def
  TrimSpace_def is_space_def update_last_tag_def fieldWithNameAndSingleTag_def single_check_def BakedInValidators_def
  hasValue_def equals_zero_def time_type_def upper_initial_def fresh_field_def with_elem_def kind_of_iface_def
  set_kind_type_def nil_error_def value_Interface_def unexported_def tag_of_def plain_field_def

lemmas case_defs = plain_info_def inner_t_def outer_t_def only_t_def baked_in_def bad_inner_def outer_nil_def outer_bad_def
  only_nil_def only_bad_def empty_heap_def invalid_of_def found_invalid_def Struct_def New_def SetTag_def sample_venv_def

lemmas run_defs = case_defs vm_defs walk_eqs tag_defs Let_def

section \<open>What the caches do\<close>

text \<open>The inner struct is invalid, and is found so when the pointer is set in the first value of the type.\<close>

lemma inner_checked: "found_invalid baked_in [outer_bad] = [Some True]"
  by (simp add: run_defs)

text \<open>A value with a nil pointer that comes first switches the check off for all later ones.\<close>

lemma nil_first_hides: "found_invalid baked_in [outer_nil, outer_bad] = [Some False, Some False]"
  by (simp add: run_defs)

text \<open>The nil pointer alone is valid, but it is not after a value in which the pointer was set.\<close>

lemma nil_later_invalid:
  "found_invalid baked_in [outer_nil] = [Some False]"
  "found_invalid baked_in [outer_bad, outer_nil] = [Some True, Some True]"
  by (simp_all add: run_defs)

text \<open>
  With \<open>structonly\<close> every validation of a set pointer lowers the number of fields that later ones look at:
  the required second field is checked once and then never again.
\<close>

lemma structonly_erodes: "found_invalid baked_in [only_nil, only_bad, only_bad] = [Some False, Some True, Some False]"
  by (simp add: run_defs)

text \<open>The cache is shared by all validators and does not know the name of the tag.\<close>

lemma tag_name_cached:
  "found_invalid baked_in [bad_inner] = [Some True]"
  "map invalid_of (fst (Structs baked_in [Some bad_inner]
     (snd (Structs (SetTag baked_in ''other'') [Some bad_inner] empty_heap)))) = [Some False]"
  by (simp_all add: run_defs)

text \<open>
  A group of alternatives that holds ends the check of its field: the tags behind it are not looked at.
  The tag of a dive is what follows the first occurrence of the word, also inside a parameter.
\<close>

definition failed_tag :: "nat Validate \<Rightarrow> nat iface \<Rightarrow> string \<Rightarrow> string option go" where
  "failed_tag V f tag = mapG (map_option fe_Tag) (fst (Field V f tag empty_heap))"

lemma or_ends_check:
  "failed_tag baked_in (Some (StringV ''ab'')) ''alpha|numeric,len=5'' = Inr None"
  "failed_tag baked_in (Some (StringV ''ab'')) ''len=5,alpha|numeric'' = Inr (Some ''len'')"
  by (simp_all add: run_defs failed_tag_def Field_def FieldWithValue_def isAlpha_def matchesRegex_def as_string_def
      alphaRegex_def match_simps hasLengthOf_def compare_size_def RuneCountInString_def asInt_def panicIf_def
      ParseInt64_def ParseUint64_def digit_of_def)

lemma dive_inside_parameter: "after_first diveTag ''excludes=diver,dive,required'' = ''r,dive,required''"
  by (simp add: diveTag_def HasPrefix_def)

end
