(* ===== verification/ValidatorStruct.thy ===== *)
theory ValidatorStruct
  imports ValidatorRefine ValidatorCases
begin

text \<open>
  The loop over the fields of a struct, with and without the cached object of its type, and the walk as a
  whole: whatever was validated before, each struct gets the answer that was promised.
\<close>

section \<open>The fields by their indices\<close>

fun go_fields :: "'f Validate \<Rightarrow> 'f iface \<Rightarrow> 'f iface \<Rightarrow> struct_type \<Rightarrow> 'f rval list \<Rightarrow> nat list \<Rightarrow>
    (string \<times> 'f FieldError) list \<Rightarrow> (string \<times> 'f StructErrors) list \<Rightarrow>
    ((string \<times> 'f FieldError) list \<times> (string \<times> 'f StructErrors) list) go" where
  "go_fields V tp cur st vs [] errs serrs = Inr (errs, serrs)"
| "go_fields V tp cur st vs (i # is) errs serrs =
     bindG (valid_field V tp cur (st_fields st ! i) (vs ! i)) (\<lambda>r.
       go_fields V tp cur st vs is (add_error r errs) (add_struct (fi_Name (st_fields st ! i)) r serrs))"

lemma valid_fields_go:
  assumes "length vs = length (st_fields st)" "i \<le> length vs"
  shows "valid_fields V tp cur (drop i (st_fields st)) (drop i vs) errs serrs =
    go_fields V tp cur st vs [i..<length vs] errs serrs"
  using assms(2)
proof (induction "length vs - i" arbitrary: i errs serrs)
  case 0
  then show ?case using assms(1) by simp
next
  case (Suc k)
  then have i: "i < length vs" by simp
  with assms(1) have "drop i (st_fields st) = st_fields st ! i # drop (Suc i) (st_fields st)" "drop i vs = vs ! i # drop (Suc i) vs"
    by (simp_all add: Cons_nth_drop_Suc)
  moreover have "valid_fields V tp cur (drop (Suc i) (st_fields st)) (drop (Suc i) vs) errs serrs =
      go_fields V tp cur st vs [Suc i..<length vs] errs serrs" for errs serrs
    using Suc i by (intro Suc.hyps(1)) simp_all
  ultimately show ?case using i by (simp add: upt_conv_Cons)
qed

lemma go_fields_keep:
  assumes "\<And>i. i \<in> set is \<Longrightarrow> \<not> P i \<Longrightarrow> \<not> keep V (st_fields st ! i) (type_of (vs ! i))"
  shows "go_fields V tp cur st vs (filter P is) errs serrs = go_fields V tp cur st vs is errs serrs"
  using assms
proof (induction "is" arbitrary: errs serrs)
  case (Cons i "is")
  have IH: "go_fields V tp cur st vs (filter P is) errs serrs = go_fields V tp cur st vs is errs serrs" for errs serrs
    using Cons.prems by (intro Cons.IH) auto
  show ?case
  proof (cases "P i")
    case False
    with Cons.prems [of i] have "valid_field V tp cur (st_fields st ! i) (vs ! i) = Inr Skip"
      by (simp add: valid_field.simps)
    with False IH show ?thesis by (simp add: add_error_def add_struct_def)
  qed (simp add: IH)
qed simp

lemma kept_snoc: "kept V ft st (Suc i) = kept V ft st i @ (if keep V (st_fields st ! i) (ft st ! i) then [i] else [])"
  by (simp add: kept_def)

lemma kept_length: "length (kept V ft st n) \<le> n"
  using length_filter_le [of _ "[0..<n]"] by (simp add: kept_def)

lemma kept_nth: "j < length (kept V ft st n) \<Longrightarrow> kept V ft st n ! j < n \<and>
    keep V (st_fields st ! (kept V ft st n ! j)) (ft st ! (kept V ft st n ! j))"
  using nth_mem [of j "kept V ft st n"] by (simp add: kept_def)

lemma valid_field_kept:
  assumes "keep V fi (type_of v)" "valid_field V tp cur fi v = Inr r"
  shows "r \<noteq> Skip"
  using assms by (auto simp: valid_field.simps Let_def mapG_def unexported_def split: if_splits sum.splits rval.splits option.splits)

section \<open>With a cached object\<close>

lemma loop_errors: "(case r of FieldDone (Some e) \<Rightarrow> AList.update (fe_Field e) e errs | _ \<Rightarrow> errs) = add_error r errs"
  "(case r of StructDone (Some e) \<Rightarrow> AList.update name e serrs | _ \<Rightarrow> serrs) = add_struct name r serrs"
  by (simp_all add: add_error_def add_struct_def)

lemma wt_struct_nth:
  assumes "wt V ft (StructV st vs)" "i < length vs"
  shows "ft st ! i = type_of (vs ! i)" "parsable V (st_fields st ! i)" "wt V ft (vs ! i)"
proof -
  from assms(1) have *: "ft st = map type_of vs" "length vs = length (st_fields st)"
    "\<forall>fi \<in> set (st_fields st). parsable V fi" "\<forall>v \<in> set vs. wt V ft v" by simp_all
  with assms(2) show "ft st ! i = type_of (vs ! i)" "parsable V (st_fields st ! i)" "wt V ft (vs ! i)" by simp_all
qed

lemma cached_loop:
  assumes "wt V ft (StructV st vs)" "\<forall>v \<in> set vs. field_agrees V ft v" "heap_ok V ft h"
    "partial_ok V ft h st c (length vs)" "n = length (kept V ft st (length vs))" "i \<le> n"
  shows "computes V ft (struct_loop V tp cur st vs c True n i errs serrs) h
    (go_fields V tp cur st vs (drop i (kept V ft st (length vs))) errs serrs)"
  using assms(3,4,6)
proof (induction "n - i" arbitrary: i h errs serrs)
  case 0
  then show ?case using assms(5) by (subst struct_loop.simps) (auto simp: computes_return)
next
  case (Suc k)
  then have i: "i < n" by simp
  let ?k = "kept V ft st (length vs)" and ?cs = "vh_structs h ! c"
  let ?j = "?k ! i" and ?a = "cs_fields ?cs ! i"
  have p: "list_all2 (\<lambda>i a. a < length (vh_fields h) \<and> field_ok V ft st i (vh_fields h ! a)) ?k (cs_fields ?cs)"
    using Suc.prems(2) by (simp add: partial_ok_def)
  with i assms(5) have len: "i < length (cs_fields ?cs)" and a: "?a < length (vh_fields h)" "field_ok V ft st ?j (vh_fields h ! ?a)"
    by (auto simp: list_all2_conv_all_nth)
  have j: "?j < length vs" "keep V (st_fields st ! ?j) (ft st ! ?j)" using kept_nth i assms(5) by blast+
  have t: "ft st ! ?j = type_of (vs ! ?j)" "parsable V (st_fields st ! ?j)" "wt V ft (vs ! ?j)"
    using wt_struct_nth [OF assms(1) j(1)] by simp_all
  have c: "cf_index (vh_fields h ! ?a) = ?j" "cf_name (vh_fields h ! ?a) = fi_Name (st_fields st ! ?j)"
    using a(2) by (simp_all add: field_ok_def)
  have field: "computes V ft (validate_field V tp cur c ?a (fi_exported (st_fields st ! ?j)) (vs ! ?j)) h
      (valid_field V tp cur (st_fields st ! ?j) (vs ! ?j))"
    using assms(2) a t j Suc.prems(1) by (simp add: field_agrees_def)
  have rest: "computes V ft (struct_loop V tp cur st vs c True n (Suc i) errs serrs) h'
      (go_fields V tp cur st vs (drop (Suc i) ?k) errs serrs)" if "ext h h'" "heap_ok V ft h'" for h' errs serrs
    using Suc i that partial_ok_ext [OF that(1) Suc.prems(2)] by (intro Suc.hyps(1)) simp_all
  have d: "drop i ?k = ?j # drop (Suc i) ?k" using i assms(5) by (simp add: Cons_nth_drop_Suc)
  from i len j(1) t(3) c show ?case
    by (subst struct_loop.simps) (simp add: d loop_errors computes_bind [OF field] rest)
qed

section \<open>The first time\<close>

text \<open>While the object \<open>c\<close> is built, it is changed and nothing in the cache points to it.\<close>

definition ext_but :: "nat \<Rightarrow> vheap \<Rightarrow> vheap \<Rightarrow> bool" where
  "ext_but c h h' \<longleftrightarrow> length (vh_fields h) \<le> length (vh_fields h') \<and>
     (\<forall>a < length (vh_fields h). learns (vh_fields h ! a) (vh_fields h' ! a)) \<and>
     length (vh_structs h) \<le> length (vh_structs h') \<and>
     (\<forall>d < length (vh_structs h). d \<noteq> c \<longrightarrow> vh_structs h' ! d = vh_structs h ! d) \<and>
     (\<forall>st. vh_structCache h' st = vh_structCache h st \<or>
        (\<exists>c. vh_structCache h' st = Some c \<and> length (vh_structs h) \<le> c))"

lemma ext_but_refl [simp]: "ext_but c h h"
  by (simp add: ext_but_def)

lemma ext_ext_but: "ext h h' \<Longrightarrow> ext_but c h h'"
  by (simp add: ext_def ext_but_def)

lemma ext_but_trans:
  assumes "ext_but c h1 h2" "ext_but c h2 h3"
  shows "ext_but c h1 h3"
proof -
  have "vh_structCache h3 st = vh_structCache h1 st \<or> (\<exists>c. vh_structCache h3 st = Some c \<and> length (vh_structs h1) \<le> c)" for st
    using assms unfolding ext_but_def by (metis le_trans)
  moreover have "\<forall>a < length (vh_fields h1). learns (vh_fields h1 ! a) (vh_fields h3 ! a)"
    using assms unfolding ext_but_def by (meson learns_trans less_le_trans)
  ultimately show ?thesis using assms unfolding ext_but_def by auto
qed

definition upd_struct :: "nat \<Rightarrow> (cachedStruct \<Rightarrow> cachedStruct) \<Rightarrow> vheap \<Rightarrow> vheap" where
  "upd_struct c f h = h\<lparr>vh_structs := (vh_structs h)[c := f (vh_structs h ! c)]\<rparr>"

definition unused :: "nat \<Rightarrow> vheap \<Rightarrow> bool" where
  "unused c h \<longleftrightarrow> (\<forall>st. vh_structCache h st \<noteq> Some c)"

lemma ext_but_upd_struct: "ext_but c h (upd_struct c f h)"
  by (simp add: ext_but_def upd_struct_def)

lemma unused_upd_struct: "unused c h \<Longrightarrow> unused c (upd_struct c f h)"
  by (simp add: unused_def upd_struct_def)

lemma partial_ok_other: "d \<noteq> c \<Longrightarrow> partial_ok V ft h st d n \<Longrightarrow> partial_ok V ft (upd_struct c f h) st d n"
  by (simp add: partial_ok_def upd_struct_def)

lemma heap_ok_upd_struct:
  assumes "heap_ok V ft h" "unused c h"
  shows "heap_ok V ft (upd_struct c f h)"
  unfolding heap_ok_def
proof (intro allI impI)
  fix st d
  assume "vh_structCache (upd_struct c f h) st = Some d"
  then have d: "vh_structCache h st = Some d" by (simp add: upd_struct_def)
  with assms(2) have "d \<noteq> c" by (auto simp: unused_def)
  with d assms(1) show "partial_ok V ft (upd_struct c f h) st d (length (st_fields st))"
    by (simp add: partial_ok_other heap_ok_def)
qed

lemma bindV_run: "bindV m f h = (case m h of (Inl e, h') \<Rightarrow> (Inl e, h') | (Inr x, h') \<Rightarrow> f x h')"
  by (simp add: bindV_def)

lemma update_struct_run: "update_struct c f h = (Inr (), upd_struct c f h)"
  by (simp add: update_struct_def upd_struct_def)

text \<open>A field that is not kept leaves no trace but the number of children.\<close>

lemma partial_ok_skip:
  assumes "partial_ok V ft h st c i" "\<not> keep V (st_fields st ! i) (ft st ! i)"
  shows "partial_ok V ft (upd_struct c (\<lambda>cs. cs\<lparr>cs_children := cs_children cs - 1\<rparr>) h) st c (Suc i)"
  using assms kept_length [of V ft st i] by (simp add: partial_ok_def upd_struct_def kept_snoc Suc_diff_le)

lemma partial_ok_take:
  assumes "partial_ok V ft h st c i" "keep V (st_fields st ! i) (ft st ! i)" "a < length (vh_fields h)"
    "field_ok V ft st i (vh_fields h ! a)"
  shows "partial_ok V ft (upd_struct c (\<lambda>cs. cs\<lparr>cs_fields := cs_fields cs @ [a]\<rparr>) h) st c (Suc i)"
  using assms by (simp add: partial_ok_def upd_struct_def kept_snoc list_all2_appendI)

lemma skip_run:
  assumes "\<not> keep V fi (type_of v)" "tag_of V fi \<noteq> noValidationTag"
    "\<not> (tag_of V fi = [] \<and> (kind_of v \<noteq> KStruct \<and> kind_of v \<noteq> KInterface \<or> type_of v = RTime))" "kind_of v \<noteq> KPtr"
    "a < length (vh_fields h)" "cf_kind (vh_fields h ! a) = kind_of v" "cf_name (vh_fields h ! a) = fi_Name fi"
    "cf_tag (vh_fields h ! a) = tag_of V fi" "cf_isTime (vh_fields h ! a) = time_type (type_of v)"
  shows "validate_field V tp cur c a ex v h = (Inr Skip, upd_struct c (\<lambda>cs. cs\<lparr>cs_children := cs_children cs - 1\<rparr>) h)"
proof -
  have s: "kind_of v = KStruct \<or> kind_of v = KInterface"
    "\<not> upper_initial (fi_Name fi) \<or> type_of v \<noteq> RTime \<and> Contains (tag_of V fi) structOnlyTag"
    using assms(1-3) by (auto simp: keep_def Let_def kind_of_def)
  have "type_of v \<noteq> RPtr RTime" using assms(4) by (auto simp: kind_of_def)
  moreover have "(vh_fields h ! a)\<lparr>cf_kind := kind_of v\<rparr> = vh_fields h ! a" using assms(6) by simp
  then have "update_field a (\<lambda>cf. cf\<lparr>cf_kind := K\<rparr>) h = (Inr (), h)" if "K = kind_of v" for K
    using that by (simp add: update_field_run upd_field_def)
  ultimately show ?thesis using s assms(4-9)
    by (auto simp: validate_field.simps bindV_run field_at_def thenV_run dec_children_def
        update_struct_run returnV_def time_type_def Let_def)
qed

definition builds :: "'f Validate \<Rightarrow> field_types \<Rightarrow> struct_type \<Rightarrow> nat \<Rightarrow> nat \<Rightarrow> 'a vm \<Rightarrow> vheap \<Rightarrow> 'a go \<Rightarrow> bool" where
  "builds V ft st c n m h r \<longleftrightarrow> (\<exists>h'. m h = (r, h') \<and> ext_but c h h' \<and> heap_ok V ft h' \<and>
     ((\<exists>x. r = Inr x) \<longrightarrow> partial_ok V ft h' st c n))"

lemma builds_after:
  assumes "m h = m' h'" "ext_but c h h'" "builds V ft st c n m' h' r"
  shows "builds V ft st c n m h r"
  using assms ext_but_trans unfolding builds_def by metis

lemma unused_ext_but:
  assumes "ext_but c h h'" "c < length (vh_structs h)" "unused c h"
  shows "unused c h'"
  using assms unfolding ext_but_def unused_def by (metis leD option.inject)

lemma partial_ok_bound: "partial_ok V ft h st c i \<Longrightarrow> c < length (vh_structs h)"
  by (simp add: partial_ok_def)

text \<open>The object of a new field.\<close>

definition first_field :: "'f Validate \<Rightarrow> field_info \<Rightarrow> nat \<Rightarrow> 'f rval \<Rightarrow> cachedField" where
  "first_field V fi i v = (plain_field i (fi_Name fi) (tag_of V fi) v)\<lparr>cf_isTime := time_type (type_of v)\<rparr>"

lemma first_field_ok: "ft st ! i = type_of v \<Longrightarrow> field_ok V ft st i (first_field V (st_fields st ! i) i v)"
  by (simp add: field_ok_def first_field_def plain_field_def tags_ok_def flags_ok_def kind_of_def)

text \<open>
  A round of the first walk over a struct: it stands at a field, and the rest is known to build up the cached
  struct. The field is left out at once, left out after its cached field was made, or taken.
\<close>

definition building :: "'f Validate \<Rightarrow> field_types \<Rightarrow> vheap \<Rightarrow> struct_type \<Rightarrow> 'f rval list \<Rightarrow> nat \<Rightarrow> nat \<Rightarrow> bool" where
  "building V ft h st vs c i \<longleftrightarrow> wt V ft (StructV st vs) \<and> heap_ok V ft h \<and> partial_ok V ft h st c i \<and> unused c h \<and> i < length vs"

definition left_out :: "'f Validate \<Rightarrow> struct_type \<Rightarrow> 'f rval list \<Rightarrow> nat \<Rightarrow> bool" where
  "left_out V st vs i \<longleftrightarrow> tag_of V (st_fields st ! i) = noValidationTag \<or> tag_of V (st_fields st ! i) = [] \<and>
     (kind_of (vs ! i) \<noteq> KStruct \<and> kind_of (vs ! i) \<noteq> KInterface \<or> type_of (vs ! i) = RTime)"

definition new_first :: "'f Validate \<Rightarrow> struct_type \<Rightarrow> 'f rval list \<Rightarrow> nat \<Rightarrow> vheap \<Rightarrow> vheap" where
  "new_first V st vs i h = h\<lparr>vh_fields := vh_fields h @ [first_field V (st_fields st ! i) i (vs ! i)]\<rparr>"

lemma buildingD:
  assumes "building V ft h st vs c i"
  shows "wt V ft (StructV st vs)" "heap_ok V ft h" "partial_ok V ft h st c i" "unused c h" "i < length vs"
    "ft st ! i = type_of (vs ! i)" "wt V ft (vs ! i)" "parsable V (st_fields st ! i)"
  using assms wt_struct_nth [of V ft st vs i] by (simp_all add: building_def)

lemma go_fields_step:
  "i < length vs \<Longrightarrow> go_fields V tp cur st vs [i..<length vs] errs serrs =
    bindG (valid_field V tp cur (st_fields st ! i) (vs ! i)) (\<lambda>r.
      go_fields V tp cur st vs [Suc i..<length vs] (add_error r errs) (add_struct (fi_Name (st_fields st ! i)) r serrs))"
  by (simp add: upt_conv_Cons)

lemma go_fields_skip:
  "i < length vs \<Longrightarrow> \<not> keep V (st_fields st ! i) (type_of (vs ! i)) \<Longrightarrow>
    go_fields V tp cur st vs [i..<length vs] errs serrs = go_fields V tp cur st vs [Suc i..<length vs] errs serrs"
  by (simp add: go_fields_step valid_field.simps add_error_def add_struct_def)

lemma first_left_out:
  assumes b: "building V ft h st vs c i" and out: "left_out V st vs i"
    and rest: "\<And>h' errs serrs. heap_ok V ft h' \<Longrightarrow> partial_ok V ft h' st c (Suc i) \<Longrightarrow> unused c h' \<Longrightarrow>
      builds V ft st c (length vs) (struct_loop V tp cur st vs c False (length vs) (Suc i) errs serrs) h'
        (go_fields V tp cur st vs [Suc i..<length vs] errs serrs)"
  shows "builds V ft st c (length vs) (struct_loop V tp cur st vs c False (length vs) i errs serrs) h
    (go_fields V tp cur st vs [i..<length vs] errs serrs)"
proof -
  let ?dec = "upd_struct c (\<lambda>cs. cs\<lparr>cs_children := cs_children cs - 1\<rparr>)"
  note f = buildingD [OF b]
  have nk: "\<not> keep V (st_fields st ! i) (type_of (vs ! i))" using out by (auto simp: left_out_def keep_def Let_def kind_of_def)
  have "struct_loop V tp cur st vs c False (length vs) i errs serrs h =
      struct_loop V tp cur st vs c False (length vs) (Suc i) errs serrs (?dec h)"
    using f(5,7) out
    by (subst struct_loop.simps) (simp add: left_out_def Let_def dec_children_def thenV_run update_struct_run)
  then show ?thesis
    unfolding go_fields_skip [OF f(5) nk]
  proof (rule builds_after [where h' = "?dec h", OF _ ext_but_upd_struct])
    show "builds V ft st c (length vs) (struct_loop V tp cur st vs c False (length vs) (Suc i) errs serrs) (?dec h)
        (go_fields V tp cur st vs [Suc i..<length vs] errs serrs)"
      using f nk by (intro rest heap_ok_upd_struct unused_upd_struct partial_ok_skip) simp_all
  qed
qed

lemma building_new:
  assumes b: "building V ft h st vs c i"
  shows "ext h (new_first V st vs i h)" "building V ft (new_first V st vs i h) st vs c i"
    "length (vh_fields h) < length (vh_fields (new_first V st vs i h))"
    "field_ok V ft st i (vh_fields (new_first V st vs i h) ! length (vh_fields h))"
proof -
  note f = buildingD [OF b]
  show e: "ext h (new_first V st vs i h)" unfolding new_first_def by (rule ext_new_field)
  have "unused c (new_first V st vs i h)" using f(4) by (simp add: unused_def new_first_def)
  with f heap_ok_ext [OF e f(2)] partial_ok_ext [OF e f(3)] show "building V ft (new_first V st vs i h) st vs c i"
    by (simp add: building_def new_first_def)
qed (use buildingD(6) [OF b] first_field_ok [of ft st i "vs ! i" V] in \<open>simp_all add: new_first_def\<close>)

lemma first_run:
  assumes b: "building V ft h st vs c i" and stay: "\<not> left_out V st vs i"
  shows "struct_loop V tp cur st vs c False (length vs) i errs serrs h =
    bindV (validate_field V tp cur c (length (vh_fields h)) (fi_exported (st_fields st ! i)) (vs ! i)) (\<lambda>r.
      thenV (case r of Skip \<Rightarrow> returnV ()
             | _ \<Rightarrow> update_struct c (\<lambda>cs. cs\<lparr>cs_fields := cs_fields cs @ [length (vh_fields h)]\<rparr>))
        (struct_loop V tp cur st vs c False (length vs) (Suc i) (add_error r errs) (add_struct (fi_Name (st_fields st ! i)) r serrs)))
      (new_first V st vs i h)"
  using buildingD(5,7) [OF b] stay
  by (subst struct_loop.simps)
    (auto simp: left_out_def new_first_def Let_def bindV_run [of "new_field _"] new_field_def loop_errors first_field_def)

lemma first_dropped:
  assumes b: "building V ft h st vs c i" and stay: "\<not> left_out V st vs i"
    and nk: "\<not> keep V (st_fields st ! i) (type_of (vs ! i))"
    and rest: "\<And>h' errs serrs. heap_ok V ft h' \<Longrightarrow> partial_ok V ft h' st c (Suc i) \<Longrightarrow> unused c h' \<Longrightarrow>
      builds V ft st c (length vs) (struct_loop V tp cur st vs c False (length vs) (Suc i) errs serrs) h'
        (go_fields V tp cur st vs [Suc i..<length vs] errs serrs)"
  shows "builds V ft st c (length vs) (struct_loop V tp cur st vs c False (length vs) i errs serrs) h
    (go_fields V tp cur st vs [i..<length vs] errs serrs)"
proof -
  let ?h = "new_first V st vs i h" and ?a = "length (vh_fields h)"
  let ?dec = "upd_struct c (\<lambda>cs. cs\<lparr>cs_children := cs_children cs - 1\<rparr>)"
  note n = building_new [OF b]
  note f = buildingD [OF n(2)]
  have "validate_field V tp cur c ?a (fi_exported (st_fields st ! i)) (vs ! i) ?h = (Inr Skip, ?dec ?h)"
    using nk stay n(3,4) f(6) wt_no_ptr [OF f(7)] by (intro skip_run) (auto simp: left_out_def field_ok_def kind_of_def)
  then have "struct_loop V tp cur st vs c False (length vs) i errs serrs h =
      struct_loop V tp cur st vs c False (length vs) (Suc i) errs serrs (?dec ?h)"
    by (simp add: first_run [OF b stay] bindV_run thenV_run returnV_def add_error_def add_struct_def)
  then show ?thesis
    unfolding go_fields_skip [OF f(5) nk]
  proof (rule builds_after [where h' = "?dec ?h", OF _ ext_but_trans [OF ext_ext_but [OF n(1)] ext_but_upd_struct]])
    show "builds V ft st c (length vs) (struct_loop V tp cur st vs c False (length vs) (Suc i) errs serrs) (?dec ?h)
        (go_fields V tp cur st vs [Suc i..<length vs] errs serrs)"
      using f nk by (intro rest heap_ok_upd_struct unused_upd_struct partial_ok_skip) simp_all
  qed
qed

lemma first_taken:
  assumes b: "building V ft h st vs c i" and stay: "\<not> left_out V st vs i"
    and kp: "keep V (st_fields st ! i) (type_of (vs ! i))" and agrees: "field_agrees V ft (vs ! i)"
    and rest: "\<And>h' errs serrs. heap_ok V ft h' \<Longrightarrow> partial_ok V ft h' st c (Suc i) \<Longrightarrow> unused c h' \<Longrightarrow>
      builds V ft st c (length vs) (struct_loop V tp cur st vs c False (length vs) (Suc i) errs serrs) h'
        (go_fields V tp cur st vs [Suc i..<length vs] errs serrs)"
  shows "builds V ft st c (length vs) (struct_loop V tp cur st vs c False (length vs) i errs serrs) h
    (go_fields V tp cur st vs [i..<length vs] errs serrs)"
proof -
  let ?h = "new_first V st vs i h" and ?a = "length (vh_fields h)" and ?fi = "st_fields st ! i"
  note n = building_new [OF b] and run = first_run [OF b stay, of tp cur errs serrs]
  note f = buildingD [OF n(2)]
  have "computes V ft (validate_field V tp cur c ?a (fi_exported ?fi) (vs ! i)) ?h (valid_field V tp cur ?fi (vs ! i))"
    using agrees n f kp by (simp add: field_agrees_def)
  then obtain h' where h': "validate_field V tp cur c ?a (fi_exported ?fi) (vs ! i) ?h = (valid_field V tp cur ?fi (vs ! i), h')"
      "ext ?h h'" "heap_ok V ft h'" by (auto simp: computes_def)
  have e: "ext_but c h h'" using ext_but_trans [OF ext_ext_but [OF n(1)] ext_ext_but [OF h'(2)]] .
  have u: "unused c h'" using unused_ext_but [OF e partial_ok_bound [OF buildingD(3) [OF b]] buildingD(4) [OF b]] .
  show ?thesis
  proof (cases "valid_field V tp cur ?fi (vs ! i)")
    case (Inl err)
    with run h'(1,3) e show ?thesis unfolding go_fields_step [OF f(5)] builds_def by (simp add: bindV_run)
  next
    case (Inr r)
    let ?h' = "upd_struct c (\<lambda>cs. cs\<lparr>cs_fields := cs_fields cs @ [?a]\<rparr>) h'"
    from valid_field_kept [OF kp Inr] have "r \<noteq> Skip" .
    then have m: "struct_loop V tp cur st vs c False (length vs) i errs serrs h =
        struct_loop V tp cur st vs c False (length vs) (Suc i) (add_error r errs) (add_struct (fi_Name ?fi) r serrs) ?h'"
      unfolding run using h'(1) Inr by (cases r) (simp_all add: bindV_run thenV_run update_struct_run)
    have "partial_ok V ft h' st c i" using partial_ok_ext [OF h'(2) f(3)] .
    moreover have "?a < length (vh_fields h')" "field_ok V ft st i (vh_fields h' ! ?a)"
      using ext_field [OF h'(2) n(3)] field_ok_learns [OF n(4)] by simp_all
    ultimately have "partial_ok V ft ?h' st c (Suc i)" using kp f(6) by (intro partial_ok_take) simp_all
    note r = rest [OF heap_ok_upd_struct [OF h'(3) u] this unused_upd_struct [OF u]]
    from m show ?thesis
      unfolding go_fields_step [OF f(5)] Inr bindG_simps
      by (rule builds_after [where h' = ?h', OF _ ext_but_trans [OF e ext_but_upd_struct] r])
  qed
qed

lemma first_loop:
  assumes "wt V ft (StructV st vs)" "\<forall>v \<in> set vs. field_agrees V ft v" "heap_ok V ft h"
    "partial_ok V ft h st c i" "unused c h" "i \<le> length vs"
  shows "builds V ft st c (length vs) (struct_loop V tp cur st vs c False (length vs) i errs serrs) h
    (go_fields V tp cur st vs [i..<length vs] errs serrs)"
  using assms(3-)
proof (induction "length vs - i" arbitrary: i h errs serrs)
  case 0
  then show ?case by (subst struct_loop.simps) (auto simp: builds_def returnV_def)
next
  case (Suc k)
  then have b: "building V ft h st vs c i" using assms(1) by (simp add: building_def)
  have i: "i < length vs" "field_agrees V ft (vs ! i)" using Suc.hyps(2) assms(2) by simp_all
  have rest: "builds V ft st c (length vs) (struct_loop V tp cur st vs c False (length vs) (Suc i) errs serrs) h'
      (go_fields V tp cur st vs [Suc i..<length vs] errs serrs)"
    if "heap_ok V ft h'" "partial_ok V ft h' st c (Suc i)" "unused c h'" for h' errs serrs
    using Suc.hyps(2) i that by (intro Suc.hyps(1)) simp_all
  show ?case
    using first_left_out [OF b _ rest] first_dropped [OF b _ _ rest] first_taken [OF b _ _ i(2) rest] by blast
qed

section \<open>Structs\<close>

lemma ext_but_new:
  assumes "ext_but c h1 h2" "h1 = h\<lparr>vh_structs := vh_structs h @ [cs]\<rparr>" "c = length (vh_structs h)"
  shows "ext h h2"
proof -
  have "vh_structCache h2 st = vh_structCache h st \<or> (\<exists>c. vh_structCache h2 st = Some c \<and> length (vh_structs h) \<le> c)" for st
    using assms unfolding ext_but_def by (metis Suc_leD length_append_singleton vheap.select_convs(2,3) vheap.surjective
        vheap.update_convs(2))
  moreover have "vh_structs h2 ! d = vh_structs h ! d" if "d < length (vh_structs h)" for d
    using assms that by (simp add: ext_but_def nth_append)
  ultimately show ?thesis using assms by (auto simp: ext_but_def ext_def)
qed

lemma structCache_Set_run: "structCache_Set st c h = (Inr (), h\<lparr>vh_structCache := (vh_structCache h)(st \<mapsto> c)\<rparr>)"
  by (simp add: structCache_Set_def)

lemma partial_ok_cache [simp]: "partial_ok V ft (h\<lparr>vh_structCache := k\<rparr>) st c n = partial_ok V ft h st c n"
  by (simp add: partial_ok_def)

lemma heap_ok_cache:
  "heap_ok V ft h \<Longrightarrow> partial_ok V ft h st c (length (st_fields st)) \<Longrightarrow> heap_ok V ft (h\<lparr>vh_structCache := (vh_structCache h)(st \<mapsto> c)\<rparr>)"
  by (simp add: heap_ok_def)

lemma ext_cache:
  "ext h h' \<Longrightarrow> vh_structCache h st = Some c \<or> length (vh_structs h) \<le> c \<Longrightarrow>
    ext h (h'\<lparr>vh_structCache := (vh_structCache h')(st \<mapsto> c)\<rparr>)"
  by (auto simp: ext_def)

lemma unused_new: "heap_ok V ft h \<Longrightarrow> unused (length (vh_structs h)) h"
  by (auto simp: heap_ok_def partial_ok_def unused_def)

text \<open>A struct whose loop has run: its cached struct is entered under the type, and the errors are the answer.\<close>

definition struct_answer :: "struct_type \<Rightarrow> (string \<times> 'f FieldError) list \<times> (string \<times> 'f StructErrors) list \<Rightarrow> 'f StructErrors option" where
  "struct_answer st = (\<lambda>(errs, serrs). if errs = [] \<and> serrs = [] then None else Some (StructErrors (st_Name st) errs serrs))"

definition enter :: "struct_type \<Rightarrow> nat \<Rightarrow> vheap \<Rightarrow> vheap" where
  "enter st c h = h\<lparr>vh_structCache := (vh_structCache h)(st \<mapsto> c)\<rparr>"

lemma valid_iface_struct:
  assumes "wt V ft (StructV st vs)"
  shows "valid_iface V tp cur (Some (StructV st vs)) = mapG (struct_answer st) (go_fields V tp cur st vs [0..<length vs] [] [])"
proof -
  have n: "length vs = length (st_fields st)" using assms by simp
  have "valid_fields V tp cur (st_fields st) vs [] [] = go_fields V tp cur st vs [0..<length vs] [] []"
    using valid_fields_go [OF n, of 0 V tp cur "[]" "[]"] by simp
  then show ?thesis by (subst valid_iface.simps) (simp add: struct_answer_def)
qed

lemma struct_entered:
  assumes w: "wt V ft (StructV st vs)"
    and run: "structRecursive V tp cur (Some (StructV st vs)) h =
      (case go_fields V tp cur st vs [0..<length vs] [] [] of
         Inl e \<Rightarrow> (Inl e, h') | Inr x \<Rightarrow> (Inr (struct_answer st x), enter st c h'))"
    and h': "ext h h'" "heap_ok V ft h'"
      "\<And>x. go_fields V tp cur st vs [0..<length vs] [] [] = Inr x \<Longrightarrow> partial_ok V ft h' st c (length vs)"
    and c: "vh_structCache h st = Some c \<or> length (vh_structs h) \<le> c"
  shows "computes V ft (structRecursive V tp cur (Some (StructV st vs))) h (valid_iface V tp cur (Some (StructV st vs)))"
  unfolding valid_iface_struct [OF w]
proof (cases "go_fields V tp cur st vs [0..<length vs] [] []")
  case (Inl e)
  with run h'(1,2) show "computes V ft (structRecursive V tp cur (Some (StructV st vs))) h
      (mapG (struct_answer st) (go_fields V tp cur st vs [0..<length vs] [] []))" by (simp add: computes_def)
next
  case (Inr x)
  have "length vs = length (st_fields st)" using w by simp
  with h' Inr c have "heap_ok V ft (enter st c h')" "ext h (enter st c h')" by (simp_all add: heap_ok_cache ext_cache enter_def)
  with run Inr show "computes V ft (structRecursive V tp cur (Some (StructV st vs))) h
      (mapG (struct_answer st) (go_fields V tp cur st vs [0..<length vs] [] []))" by (simp add: computes_def)
qed

lemmas struct_run = structCache_Get_def bindV_run returnV_def struct_at_def new_struct_def thenV_run structCache_Set_run
  struct_answer_def enter_def

lemma struct_cached:
  assumes w: "wt V ft (StructV st vs)" and f: "\<forall>v \<in> set vs. field_agrees V ft v" and h: "heap_ok V ft h"
    and Some: "vh_structCache h st = Some c"
  shows "computes V ft (structRecursive V tp cur (Some (StructV st vs))) h (valid_iface V tp cur (Some (StructV st vs)))"
proof -
  let ?n = "length vs" and ?k = "kept V ft st (length vs)"
  have n: "?n = length (st_fields st)" using w by simp
  with h Some have ok: "partial_ok V ft h st c ?n" by (simp add: heap_ok_def)
  then have c: "nat (cs_children (vh_structs h ! c)) = length ?k" "cs_name (vh_structs h ! c) = st_Name st"
    using kept_length [of V ft st ?n] n by (simp_all add: partial_ok_def)
  have kept: "go_fields V tp cur st vs ?k [] [] = go_fields V tp cur st vs [0..<?n] [] []"
    unfolding kept_def using wt_struct_nth(1) [OF w] by (intro go_fields_keep) auto
  have "computes V ft (struct_loop V tp cur st vs c True (length ?k) 0 [] []) h (go_fields V tp cur st vs ?k [] [])"
    using cached_loop [OF w f h ok refl, of 0] by simp
  then obtain h' where h': "struct_loop V tp cur st vs c True (length ?k) 0 [] [] h = (go_fields V tp cur st vs [0..<?n] [] [], h')"
      "ext h h'" "heap_ok V ft h'" by (auto simp: computes_def kept)
  show ?thesis
  proof (rule struct_entered [OF w _ h'(2,3)])
    show "partial_ok V ft h' st c ?n" using partial_ok_ext [OF h'(2) ok] .
  qed (use Some h'(1) c in \<open>simp_all add: structRecursive.simps [of V tp cur "Some (StructV st vs)"] struct_run
      split: sum.splits prod.splits\<close>)
qed

lemma struct_first:
  assumes w: "wt V ft (StructV st vs)" and f: "\<forall>v \<in> set vs. field_agrees V ft v" and h: "heap_ok V ft h"
    and None: "vh_structCache h st = None"
  shows "computes V ft (structRecursive V tp cur (Some (StructV st vs))) h (valid_iface V tp cur (Some (StructV st vs)))"
proof -
  let ?n = "length vs" and ?c = "length (vh_structs h)"
  have n: "?n = length (st_fields st)" using w by simp
  let ?h = "h\<lparr>vh_structs := vh_structs h @ [\<lparr>cs_children = int (length (st_fields st)), cs_name = st_Name st, cs_fields = []\<rparr>]\<rparr>"
  have e: "ext h ?h" by (simp add: ext_def nth_append)
  have ok: "heap_ok V ft ?h" "partial_ok V ft ?h st ?c 0" "unused ?c ?h"
    using heap_ok_ext [OF e h] unused_new [OF h] by (simp_all add: partial_ok_def kept_def unused_def)
  from first_loop [OF w f ok, where tp = tp and cur = cur and errs = "[]" and serrs = "[]"] obtain h' where
    h': "struct_loop V tp cur st vs ?c False ?n 0 [] [] ?h = (go_fields V tp cur st vs [0..<?n] [] [], h')"
      "ext_but ?c ?h h'" "heap_ok V ft h'"
      "\<And>x. go_fields V tp cur st vs [0..<?n] [] [] = Inr x \<Longrightarrow> partial_ok V ft h' st ?c ?n"
    by (auto simp: builds_def)
  show ?thesis
    by (rule struct_entered [OF w _ ext_but_new [OF h'(2) refl refl] h'(3,4)])
      (use None h'(1) n in \<open>simp_all add: structRecursive.simps [of V tp cur "Some (StructV st vs)"] struct_run
        split: sum.splits prod.splits\<close>)
qed

lemma struct_step:
  assumes "wt_iface V ft s" "\<And>st vs v. s = Some (StructV st vs) \<Longrightarrow> v \<in> set vs \<Longrightarrow> field_agrees V ft v"
  shows "struct_agrees V ft s"
  unfolding struct_agrees_def
proof (intro allI impI)
  fix tp cur h
  assume h: "heap_ok V ft h"
  show "computes V ft (structRecursive V tp cur s) h (valid_iface V tp cur s)"
  proof (cases "\<exists>st vs. s = Some (StructV st vs)")
    case False
    with assms(1) h show ?thesis
      by (subst structRecursive.simps, subst valid_iface.simps)
        (auto simp: computes_return computes_throw split: option.splits rval.splits)
  next
    case True
    then obtain st vs where s: "s = Some (StructV st vs)" by blast
    with assms have w: "wt V ft (StructV st vs)" and f: "\<forall>v \<in> set vs. field_agrees V ft v" by auto
    show ?thesis
      unfolding s using struct_cached [OF w f h] struct_first [OF w f h] by (cases "vh_structCache h st") blast+
  qed
qed

section \<open>The walk\<close>

lemma wt_to_iface: "wt V ft v \<Longrightarrow> wt_iface V ft (to_iface v)"
  by (cases v) (auto split: option.splits)

lemma elems_smaller:
  assumes "wt V ft v" "(t, x) \<in> set (elems v)"
  shows "size x < size v" "wt V ft x" "type_of x = t"
proof -
  show "size x < size v"
    using assms(2) member_smaller [of x _ size]
      member_smaller [of _ "_ :: ('a rval \<times> 'a rval) list" "size_prod size size"]
    by (cases v) (fastforce simp: less_Suc_eq_le)+
  show "wt V ft x" "type_of x = t" using assms by (cases v; fastforce)+
qed

lemma fields_smaller: "v \<in> set vs \<Longrightarrow> size v < size (StructV st vs)"
  using member_smaller [of v vs size] by simp

definition all_agree :: "'f Validate \<Rightarrow> field_types \<Rightarrow> 'f rval \<Rightarrow> bool" where
  "all_agree V ft v \<longleftrightarrow> checked_agrees V ft v \<and> elem_agrees V ft (type_of v) v \<and> field_agrees V ft v"

lemma struct_of_smaller:
  assumes "\<And>x. size x < n \<Longrightarrow> wt V ft x \<Longrightarrow> all_agree V ft x" "isize s \<le> n" "wt_iface V ft s"
  shows "struct_agrees V ft s"
proof (rule struct_step [OF assms(3)])
  fix st vs v
  assume "s = Some (StructV st vs)" "v \<in> set vs"
  with assms show "field_agrees V ft v"
    using fields_smaller [of v vs st] by (auto simp: all_agree_def)
qed

lemma walk_agrees: "wt V ft v \<Longrightarrow> all_agree V ft v"
proof (induction v rule: measure_induct_rule [of size])
  case (less v)
  have checked: "checked_agrees V ft x" if x: "size x \<le> size v" "wt V ft x" for x
  proof (rule checked_step [OF x(2)])
    show "\<forall>(t, y) \<in> set (elems x). elem_agrees V ft t y"
    proof (intro ballI, clarify)
      fix t y
      assume "(t, y) \<in> set (elems x)"
      note y = elems_smaller [OF x(2) this]
      with less.IH [of y] x(1) show "elem_agrees V ft t y" by (simp add: all_agree_def)
    qed
  qed
  have i: "isize (to_iface v) \<le> size v" "wt_iface V ft (to_iface v)"
    using isize_to_iface wt_to_iface less.prems by blast+
  have "named_agrees V ft (to_iface v)"
    by (rule named_step [OF i(2)]) (use i checked in \<open>auto simp: wt_iface_def\<close>)
  moreover have "struct_agrees V ft (to_iface v)"
    using struct_of_smaller [OF less.IH i] by blast
  ultimately show ?case
    using checked [of v] elem_step [of V ft v] field_step [of V ft v] less.prems by (simp add: all_agree_def)
qed

section \<open>Validation\<close>

text \<open>The argument of \<open>Struct\<close> may be a pointer.\<close>

fun argument_ok :: "'f Validate \<Rightarrow> field_types \<Rightarrow> 'f iface \<Rightarrow> bool" where
  "argument_ok V ft (Some (PtrV t (Some x))) \<longleftrightarrow> wt V ft x"
| "argument_ok V ft s \<longleftrightarrow> wt_iface V ft s"

lemma argument_agrees:
  assumes "argument_ok V ft s" "heap_ok V ft h"
  shows "computes V ft (structRecursive V tp cur s) h (valid_iface V tp cur s)"
proof -
  have *: "computes V ft (structRecursive V tp cur s) h (valid_iface V tp cur s)" if "wt_iface V ft s" for s
    using struct_of_smaller [of "isize s" V ft, OF walk_agrees order.refl that] assms(2) by (simp add: struct_agrees_def)
  show ?thesis
  proof (cases "\<exists>t x. s = Some (PtrV t (Some x))")
    case True
    then obtain t x where s: "s = Some (PtrV t (Some x))" by blast
    with assms(1) have "wt_iface V ft (to_iface x)" by (simp add: wt_to_iface)
    from * [OF this] show ?thesis
      unfolding s by (subst structRecursive.simps, subst valid_iface.simps) simp
  next
    case False
    with assms(1) have "wt_iface V ft s" by (cases "(V, ft, s)" rule: argument_ok.cases) auto
    with * show ?thesis .
  qed
qed

lemma heap_ok_empty: "heap_ok V ft empty_heap"
  by (simp add: heap_ok_def empty_heap_def)

text \<open>A list of structs in a struct, the first of them invalid, then a valid one.\<close>

definition list_t :: struct_type where
  "list_t = \<lparr>st_id = 4, st_Name = ''List'', st_fields = [plain_info ''Items'' ''required,dive''], st_comparable = False\<rparr>"

definition sample_types :: field_types where
  "sample_types st = (if st = list_t then [RSlice (RStruct inner_t)] else [RString])"

definition list_of :: "string list \<Rightarrow> nat iface" where
  "list_of ss = Some (StructV list_t [SliceV (RStruct inner_t) (map (\<lambda>s. StructV inner_t [StringV s]) ss)])"

end
