(* ===== verification/DefaultValidator.thy ===== *)
theory DefaultValidator
  imports ValidatorStruct Binding
begin

text \<open>
  Validation of what was bound: gin's interface \<open>StructValidator\<close>, its default implementation on top of the
  struct validator (\<open>default_validator.go\<close>), and requests that are bound one after the other while the
  validator keeps its caches.
\<close>

section \<open>The default validator\<close>

text \<open>The validator, made at the first use, and the heap of the package it lives on.\<close>

type_synonym 'f defaultValidator = "'f Validate option \<times> vheap"

definition binding_validator :: "'f venv \<Rightarrow> 'f Validate" where
  "binding_validator venv = New venv ''binding'' (map_of BakedInValidators)"

definition lazyinit :: "'f venv \<Rightarrow> 'f defaultValidator \<Rightarrow> 'f defaultValidator" where
  "lazyinit venv d = (case d of (None, h) \<Rightarrow> (Some (binding_validator venv), h) | (Some V, h) \<Rightarrow> (Some V, h))"

text \<open>The kind of a value or of what it points to; \<open>Elem\<close> of a nil pointer is the invalid value.\<close>

fun kindOfData :: "'f iface \<Rightarrow> kind" where
  "kindOfData None = Invalid"
| "kindOfData (Some (PtrV t p)) = kind_of_iface p"
| "kindOfData (Some v) = kind_of v"

definition ValidateStruct :: "'f venv \<Rightarrow> 'f iface \<Rightarrow> 'f defaultValidator \<Rightarrow> 'f StructErrors option go \<times> 'f defaultValidator" where
  "ValidateStruct venv obj d =
     (if kindOfData obj = KStruct then
        (case lazyinit venv d of
           (None, h) \<Rightarrow> (Inl ''runtime error: invalid memory address or nil pointer dereference'', (None, h))
         | (Some V, h) \<Rightarrow> (case Struct V obj h of (r, h) \<Rightarrow> (r, (Some V, h))))
      else (Inr None, d))"

text \<open>\<open>binding.validate\<close>: \<open>Validator\<close> is nil after \<open>DisableBindValidation\<close>.\<close>

definition validate_obj :: "('o \<Rightarrow> 's \<Rightarrow> 'e option go \<times> 's) option \<Rightarrow> 'o \<Rightarrow> 's \<Rightarrow> 'e option go \<times> 's" where
  "validate_obj Validator obj s = (case Validator of None \<Rightarrow> (Inr None, s) | Some check \<Rightarrow> check obj s)"

section \<open>Requests bound one after the other\<close>

text \<open>
  A call of \<open>Bind\<close>: the binding, the request, the fields and the value of the target, and what reflection
  shows of the target when it holds some fields. The decoders fill the target before it is validated, so
  they are \<open>binding_Bind\<close> without a validator.
\<close>

record ('f, 'o) bind_call =
  bc_binding :: binding
  bc_request :: bind_request
  bc_fields :: fields
  bc_target :: "'f gval list"
  bc_view :: "'f gval list \<Rightarrow> 'o"

definition decoded :: "'f bind_env \<Rightarrow> ('f, 'o) bind_call \<Rightarrow> (bind_error option \<times> 'f gval list) go" where
  "decoded env c = binding_Bind (env\<lparr>be_validator := None\<rparr>) (bc_binding c) (bc_request c) (bc_fields c) (bc_target c)"

definition Bind_checked :: "('o \<Rightarrow> 's \<Rightarrow> 'e option go \<times> 's) option \<Rightarrow> 'f bind_env \<Rightarrow> ('f, 'o) bind_call \<Rightarrow> 's \<Rightarrow>
    ((bind_error + 'e) option \<times> 'f gval list) go \<times> 's" where
  "Bind_checked Validator env c s =
     (case decoded env c of
        Inl e \<Rightarrow> (Inl e, s)
      | Inr (Some err, vs) \<Rightarrow> (Inr (Some (Inl err), vs), s)
      | Inr (None, vs) \<Rightarrow>
          (case validate_obj Validator (bc_view c vs) s of (r, s) \<Rightarrow> (mapG (\<lambda>e. (map_option Inr e, vs)) r, s)))"

fun Binds :: "('o \<Rightarrow> 's \<Rightarrow> 'e option go \<times> 's) option \<Rightarrow> 'f bind_env \<Rightarrow> ('f, 'o) bind_call list \<Rightarrow> 's \<Rightarrow>
    ((bind_error + 'e) option \<times> 'f gval list) go list \<times> 's" where
  "Binds Validator env [] s = ([], s)"
| "Binds Validator env (c # cs) s =
     (case Bind_checked Validator env c s of (r, s) \<Rightarrow> (case Binds Validator env cs s of (rs, s) \<Rightarrow> (r # rs, s)))"

text \<open>With a validator that keeps no state this is \<open>binding_Bind\<close>.\<close>

lemma Bind_checked_pure:
  "be_validator env = Some (\<lambda>fs vs. check (bc_view c vs)) \<Longrightarrow>
   mapG (\<lambda>(err, vs). (map_option (case_sum id Foreign) err, vs))
     (fst (Bind_checked (Some (\<lambda>obj s. (Inr (check obj), s))) env c s)) =
   binding_Bind env (bc_binding c) (bc_request c) (bc_fields c) (bc_target c)"
  by (cases "bc_binding c")
    (auto simp: Bind_checked_def decoded_def validate_obj_def then_validate_def validate_def mapG_def option.map_comp comp_def
      split: option.splits sum.splits prod.splits)

text \<open>What a request gets when the validator answers by the object alone.\<close>

definition bind_answer :: "('o \<Rightarrow> 'e option go) \<Rightarrow> 'f bind_env \<Rightarrow> ('f, 'o) bind_call \<Rightarrow>
    ((bind_error + 'e) option \<times> 'f gval list) go" where
  "bind_answer promise env c =
     bindG (decoded env c) (\<lambda>(err, vs).
       case err of Some err \<Rightarrow> Inr (Some (Inl err), vs) | None \<Rightarrow> mapG (\<lambda>e. (map_option Inr e, vs)) (promise (bc_view c vs)))"

section \<open>The interface of a validator\<close>

text \<open>
  What binding relies on: on the objects it is made for, a validator answers by the object alone, and
  keeps itself in a state in which that holds.
\<close>

locale struct_validator =
  fixes check :: "'o \<Rightarrow> 's \<Rightarrow> 'e option go \<times> 's"
    and promise :: "'o \<Rightarrow> 'e option go"
    and accepts :: "'o \<Rightarrow> bool"
    and inv :: "'s \<Rightarrow> bool"
  assumes promised: "inv s \<Longrightarrow> accepts obj \<Longrightarrow> fst (check obj s) = promise obj"
    and kept: "inv s \<Longrightarrow> accepts obj \<Longrightarrow> inv (snd (check obj s))"
begin

lemma Bind_answer:
  assumes "inv s" "\<And>vs. decoded env c = Inr (None, vs) \<Longrightarrow> accepts (bc_view c vs)"
  shows "fst (Bind_checked (Some check) env c s) = bind_answer promise env c \<and> inv (snd (Bind_checked (Some check) env c s))"
proof (cases "\<exists>vs. decoded env c = Inr (None, vs)")
  case True
  then obtain vs where d: "decoded env c = Inr (None, vs)" by blast
  with assms promised [of s "bc_view c vs"] kept [of s "bc_view c vs"] show ?thesis
    by (auto simp: Bind_checked_def bind_answer_def validate_obj_def split: prod.splits)
next
  case False
  then show ?thesis using assms(1)
    by (auto simp: Bind_checked_def bind_answer_def split: sum.splits prod.splits option.splits)
qed

lemma Binds_answers:
  assumes "inv s" "\<forall>c \<in> set cs. \<forall>vs. decoded env c = Inr (None, vs) \<longrightarrow> accepts (bc_view c vs)"
  shows "fst (Binds (Some check) env cs s) = map (bind_answer promise env) cs"
  using assms
proof (induction cs arbitrary: s)
  case (Cons c cs)
  obtain r s' where b: "Bind_checked (Some check) env c s = (r, s')" by fastforce
  with Bind_answer [of s env c] Cons.prems have "r = bind_answer promise env c" "inv s'" by auto
  with Cons.IH [of s'] Cons.prems(2) b show ?case by (cases "Binds (Some check) env cs s'") simp
qed simp

end

section \<open>The default validator keeps the contract\<close>

definition validated :: "'f venv \<Rightarrow> 'f iface \<Rightarrow> 'f StructErrors option go" where
  "validated venv obj =
     (if kindOfData obj = KStruct then valid_iface (binding_validator venv) obj obj obj else Inr None)"

definition dv_ok :: "'f venv \<Rightarrow> field_types \<Rightarrow> 'f defaultValidator \<Rightarrow> bool" where
  "dv_ok venv ft d \<longleftrightarrow> (fst d = None \<or> fst d = Some (binding_validator venv)) \<and>
     heap_ok (binding_validator venv) ft (snd d)"

definition object_ok :: "'f venv \<Rightarrow> field_types \<Rightarrow> 'f iface \<Rightarrow> bool" where
  "object_ok venv ft obj \<longleftrightarrow> (kindOfData obj = KStruct \<longrightarrow> argument_ok (binding_validator venv) ft obj)"

lemma ValidateStruct_validated:
  assumes "dv_ok venv ft d" "object_ok venv ft obj"
  shows "\<exists>d'. ValidateStruct venv obj d = (validated venv obj, d') \<and> dv_ok venv ft d'"
proof (cases "kindOfData obj = KStruct")
  case True
  let ?V = "binding_validator venv"
  have l: "lazyinit venv d = (Some ?V, snd d)" using assms(1) by (cases d) (auto simp: lazyinit_def dv_ok_def)
  from True assms have "argument_ok ?V ft obj" "heap_ok ?V ft (snd d)" by (simp_all add: object_ok_def dv_ok_def)
  from argument_agrees [OF this, of obj obj] obtain h where
    "structRecursive ?V obj obj obj (snd d) = (valid_iface ?V obj obj obj, h)" "heap_ok ?V ft h"
    by (auto simp: computes_def)
  with True l show ?thesis by (simp add: ValidateStruct_def validated_def Struct_def dv_ok_def)
qed (use assms in \<open>simp add: ValidateStruct_def validated_def\<close>)

interpretation default: struct_validator "ValidateStruct venv" "validated venv" "object_ok venv ft" "dv_ok venv ft"
  for venv :: "'f venv" and ft
  by unfold_locales (use ValidateStruct_validated [of venv ft] in \<open>metis fst_conv snd_conv\<close>)+

lemma dv_ok_initial: "dv_ok venv ft (None, empty_heap)"
  by (simp add: dv_ok_def heap_ok_empty)

text \<open>
  C36: binding is stateless. Requests that are bound one after the other, by any of the bindings, share
  the validator that the first one makes and the caches it fills with the types it meets; yet each gets
  the answer that depends on itself alone: the error of its decoder, or else what validation promises
  for the decoded object, its tags read anew, panics included. The objects have types whose tags can be
  read, and no pointers but one to the struct itself (with pointers in their fields it is false: see
  \<open>nil_first_hides\<close>).
\<close>

theorem binds_stateless:
  assumes "\<forall>c \<in> set cs. \<forall>vs. decoded env c = Inr (None, vs) \<longrightarrow> object_ok venv ft (bc_view c vs)"
  shows "fst (Binds (Some (ValidateStruct venv)) env cs (None, empty_heap)) = map (bind_answer (validated venv) env) cs"
  using assms by (intro default.Binds_answers [of venv ft]) (auto simp: dv_ok_initial)

text \<open>A form without a value for the required field, and then one with it.\<close>

definition sample_call :: "form \<Rightarrow> (nat, nat iface) bind_call" where
  "sample_call fm = \<lparr>bc_binding = Form,
     bc_request = \<lparr>rq_Body = [], rq_ParseForm = None, rq_Form = fm, rq_PostForm = fm, rq_ParseMultipartForm = None,
       rq_MultipartValue = fm\<rparr>,
     bc_fields = [(''B'', [], True, TString)], bc_target = [VString []],
     bc_view = (\<lambda>vs. Some (PtrV (RStruct inner_t)
       (Some (StructV inner_t (map (\<lambda>v. case v of VString s \<Rightarrow> StringV s | _ \<Rightarrow> OtherV) vs)))))\<rparr>"

definition sample_bind_env :: "nat bind_env" where
  "sample_bind_env = \<lparr>be_floats = \<lparr>fl_parse = \<lambda>_ _. Inl ErrSyntax, fl_show = \<lambda>_. [], fl_zero = 0\<rparr>,
     be_json = \<lambda>_ _ vs. (None, vs), be_xml = \<lambda>_ _ vs. (None, vs), be_validator = None\<rparr>"

definition bound_well :: "((bind_error + 'e) option \<times> 'f gval list) go \<Rightarrow> bool" where
  "bound_well r = (case r of Inr (None, vs) \<Rightarrow> True | _ \<Rightarrow> False)"

lemmas sample_defs = sample_call_def sample_bind_env_def sample_types_def list_t_def inner_t_def plain_info_def
  binding_validator_def sample_venv_def New_def tag_of_def diveTag_def split2_def TrimSpace_def is_space_def

theorem binds_stateless_witness:
  "map bound_well (fst (Binds (Some (ValidateStruct sample_venv)) sample_bind_env
     [sample_call Map.empty, sample_call [''B'' \<mapsto> [''x'']], sample_call Map.empty] (None, empty_heap))) = [False, True, False]"
proof -
  let ?cs = "[sample_call Map.empty, sample_call [''B'' \<mapsto> [''x'']], sample_call Map.empty]"
  have ok: "\<forall>c \<in> set ?cs. \<forall>vs. decoded sample_bind_env c = Inr (None, vs) \<longrightarrow> object_ok sample_venv sample_types (bc_view c vs)"
    by (simp add: sample_defs decoded_def then_validate_def validate_def nested_struct_def set_field_def at_def object_ok_def
        parsable_def parsed_tag_def)
  show ?thesis
    unfolding binds_stateless [OF ok]
    by (simp add: sample_defs decoded_def then_validate_def validate_def nested_struct_def set_field_def at_def bind_answer_def
        validated_def bound_well_def valid_iface.simps valid_field.simps valid_named.simps valid_checked.simps keep_def
        parsed_tag_def add_error_def add_struct_def tag_defs Let_def)
qed

text \<open>The contract of \<open>StructValidator\<close> forbids panics; a tag that names no function is one.\<close>

definition odd_t :: struct_type where
  "odd_t = \<lparr>st_id = 5, st_Name = ''Odd'', st_fields = [plain_info ''A'' ''nosuch''], st_comparable = True\<rparr>"

lemma validator_panics:
  "fst (ValidateStruct sample_venv (Some (StructV odd_t [StringV ''x''])) (None, empty_heap)) =
     Inl ''Undefined validation function on field A''"
  by (simp add: ValidateStruct_def lazyinit_def binding_validator_def odd_t_def run_defs)

end
