(* ===== verification/ValidatorErrors.thy ===== *)
theory ValidatorErrors
  imports DefaultValidator
begin

text \<open>
  The errors of the validator as its callers see them: \<open>Error\<close> and \<open>Flatten\<close> of \<open>FieldError\<close> and
  \<open>StructErrors\<close> (\<open>validator.go\<close>). Flattening puts pointers into new maps and changes the names of what they
  point to, so the errors are objects here, with addresses in a store.
\<close>

section \<open>Errors as objects\<close>

text \<open>
  \<open>Flatten\<close> changes the name of a field error only. The entries of a placeholder are listed in the order
  in which the loop over the map happens to visit them, and a map that \<open>Flatten\<close> has built is
  visited in the order of its insertions (one of the orders Go may choose); a key is given by its texts under \<open>%v\<close> and \<open>%#v\<close>.
\<close>

record fobj =
  fo_Field :: string
  fo_Tag :: string

type_synonym estore = "fobj list"

datatype fptr = FPtr (fp_addr: nat) (fp_nested: fnested)
and fnested = Leaf | Entries bool "((string \<times> string) \<times> eptr) list"
and eptr = EField fptr | EStruct sptr
and sptr = SPtr (sp_Struct: string) (sp_Errors: "(string \<times> fptr) list") (sp_StructErrors: "(string \<times> sptr) list")

definition IsPlaceholderErr :: "fptr \<Rightarrow> bool" where
  "IsPlaceholderErr f \<longleftrightarrow> fp_nested f \<noteq> Leaf"

definition name_at :: "estore \<Rightarrow> nat \<Rightarrow> string" where
  "name_at st a = fo_Field (st ! a)"

definition rename :: "nat \<Rightarrow> string \<Rightarrow> estore \<Rightarrow> estore" where
  "rename a name st = st[a := (st ! a)\<lparr>fo_Field := name\<rparr>]"

section \<open>\<open>Error\<close>\<close>

definition dquoted :: "string \<Rightarrow> string" where
  "dquoted s = [CHR 0x22] @ s @ [CHR 0x22]"

definition fieldErrMsg :: "string \<Rightarrow> string \<Rightarrow> string" where
  "fieldErrMsg fld tag = ''Field validation for '' @ dquoted fld @ '' failed on the '' @ dquoted tag @ '' tag''"

definition sliceErrMsg :: "string \<Rightarrow> string \<Rightarrow> string \<Rightarrow> string" where
  "sliceErrMsg fld i err = ''Field validation for '' @ dquoted fld @ '' failed at index '' @ dquoted i @ '' with error(s): '' @ err"

definition mapErrMsg :: "string \<Rightarrow> string \<Rightarrow> string \<Rightarrow> string" where
  "mapErrMsg fld key err = ''Field validation for '' @ dquoted fld @ '' failed on key '' @ dquoted key @ '' with error(s): '' @ err"

definition structErrMsg :: "string \<Rightarrow> string" where
  "structErrMsg name = ''Struct:'' @ name @ [LF]"

function field_Error :: "estore \<Rightarrow> fptr \<Rightarrow> string" and
  entries_Error :: "estore \<Rightarrow> string \<Rightarrow> bool \<Rightarrow> ((string \<times> string) \<times> eptr) list \<Rightarrow> string" and
  nested_Error :: "estore \<Rightarrow> eptr \<Rightarrow> string" and
  struct_Error :: "estore \<Rightarrow> sptr \<Rightarrow> string" and
  errors_Error :: "estore \<Rightarrow> (string \<times> fptr) list \<Rightarrow> string" and
  structs_Error :: "estore \<Rightarrow> (string \<times> sptr) list \<Rightarrow> string"
where
  "field_Error st (FPtr a Leaf) = fieldErrMsg (fo_Field (st ! a)) (fo_Tag (st ! a))"
| "field_Error st (FPtr a (Entries m es)) = TrimSpace (entries_Error st (fo_Field (st ! a)) m es)"
| "entries_Error st fld m [] = []"
| "entries_Error st fld m ((key, e) # es) =
     (if m then mapErrMsg fld (fst key) ([LF] @ nested_Error st e)
      else [LF] @ sliceErrMsg fld (fst key) ([LF] @ nested_Error st e)) @ entries_Error st fld m es"
| "nested_Error st (EField f) = field_Error st f"
| "nested_Error st (EStruct s) = struct_Error st s"
| "struct_Error st (SPtr name errs serrs) = TrimSpace (structErrMsg name @ errors_Error st errs @ structs_Error st serrs)"
| "errors_Error st [] = []"
| "errors_Error st ((k, f) # errs) = field_Error st f @ [LF] @ errors_Error st errs"
| "structs_Error st [] = []"
| "structs_Error st ((k, s) # serrs) = struct_Error st s @ structs_Error st serrs"
  by pat_completeness auto

termination
  by (relation "measure (case_sum
      (case_sum (\<lambda>(st, f). size f) (case_sum (\<lambda>(st, fld, m, es). size_list (size_prod (\<lambda>_. 0) size) es) (\<lambda>(st, e). size e)))
      (case_sum (\<lambda>(st, s). size s)
        (case_sum (\<lambda>(st, fs). size_list (size_prod (\<lambda>_. 0) size) fs) (\<lambda>(st, ss). size_list (size_prod (\<lambda>_. 0) size) ss))))") auto

section \<open>\<open>Flatten\<close>\<close>

type_synonym flat = "(string \<times> fptr) list"

text \<open>The inner loop over the flat errors of an entry: the key of each and the map it is put into.\<close>

definition put_all :: "(string \<Rightarrow> string) \<Rightarrow> flat \<Rightarrow> flat \<Rightarrow> flat" where
  "put_all key flat errs = fold (\<lambda>(k, v) errs. AList.update (key k) v errs) flat errs"

text \<open>The inner loop over the errors of a nested struct renames the errors it finds.\<close>

fun put_renamed :: "string \<Rightarrow> flat \<Rightarrow> flat \<Rightarrow> estore \<Rightarrow> flat \<times> estore" where
  "put_renamed key [] errs st = (errs, st)"
| "put_renamed key ((k, f) # flat) errs st =
     (let name = key @ ''.'' @ name_at st (fp_addr f)
      in put_renamed key flat (AList.update name f errs) (rename (fp_addr f) name st))"

function field_Flatten :: "fptr \<Rightarrow> estore \<Rightarrow> flat \<times> estore" and
  entries_Flatten :: "((string \<times> string) \<times> eptr) list \<Rightarrow> flat \<Rightarrow> estore \<Rightarrow> flat \<times> estore" and
  struct_Flatten :: "sptr \<Rightarrow> estore \<Rightarrow> flat \<times> estore" and
  errors_Flatten :: "(string \<times> fptr) list \<Rightarrow> flat \<Rightarrow> estore \<Rightarrow> flat \<times> estore" and
  structs_Flatten :: "(string \<times> sptr) list \<Rightarrow> flat \<Rightarrow> estore \<Rightarrow> flat \<times> estore"
where
  "field_Flatten (FPtr a Leaf) st = ([(name_at st a, FPtr a Leaf)], st)"
| "field_Flatten (FPtr a (Entries m es)) st = entries_Flatten es [] st"
| "entries_Flatten [] errs st = (errs, st)"
| "entries_Flatten ((key, EField fe) # es) errs st =
     (case field_Flatten fe st of
        (flat, st) \<Rightarrow>
          entries_Flatten es
            (put_all (\<lambda>k. ''['' @ snd key @ '']'' @ (if IsPlaceholderErr fe then k else [])) flat errs) st)"
| "entries_Flatten ((key, EStruct se) # es) errs st =
     (case struct_Flatten se st of
        (flat, st) \<Rightarrow> entries_Flatten es (put_all (\<lambda>k. ''['' @ snd key @ ''].'' @ sp_Struct se @ ''.'' @ k) flat errs) st)"
| "struct_Flatten (SPtr name errs serrs) st =
     (case errors_Flatten errs [] st of (flat, st) \<Rightarrow> structs_Flatten serrs flat st)"
| "errors_Flatten [] errs st = (errs, st)"
| "errors_Flatten ((key, f) # fs) errs st =
     (case field_Flatten f st of
        (flat, st) \<Rightarrow>
          errors_Flatten fs (put_all (\<lambda>k. (if IsPlaceholderErr f then name_at st (fp_addr f) else []) @ k) flat errs) st)"
| "structs_Flatten [] errs st = (errs, st)"
| "structs_Flatten ((key, val) # vs) errs st =
     (case struct_Flatten val st of
        (otherErrs, st) \<Rightarrow> (case put_renamed key otherErrs errs st of (errs, st) \<Rightarrow> structs_Flatten vs errs st))"
  by pat_completeness auto

termination
  by (relation "measure (case_sum
      (case_sum (\<lambda>(f, st). size f) (\<lambda>(es, errs, st). size_list (size_prod (\<lambda>_. 0) size) es))
      (case_sum (\<lambda>(s, st). size s)
        (case_sum (\<lambda>(fs, errs, st). size_list (size_prod (\<lambda>_. 0) size) fs)
          (\<lambda>(ss, errs, st). size_list (size_prod (\<lambda>_. 0) size) ss))))") auto

section \<open>What flattening does\<close>

text \<open>Flattening without nested structs changes nothing, so it can be repeated.\<close>

fun no_structs :: "fptr \<Rightarrow> bool" and no_structs_in :: "((string \<times> string) \<times> eptr) list \<Rightarrow> bool" where
  "no_structs (FPtr a Leaf) \<longleftrightarrow> True"
| "no_structs (FPtr a (Entries m es)) \<longleftrightarrow> no_structs_in es"
| "no_structs_in [] \<longleftrightarrow> True"
| "no_structs_in ((key, EField f) # es) \<longleftrightarrow> no_structs f \<and> no_structs_in es"
| "no_structs_in ((key, EStruct s) # es) \<longleftrightarrow> False"

lemma field_Flatten_pure:
  "no_structs f \<Longrightarrow> snd (field_Flatten f st) = st"
  "no_structs_in es \<Longrightarrow> snd (entries_Flatten es errs st) = st"
proof (induction f and es arbitrary: st and errs st rule: no_structs_no_structs_in.induct)
  case (4 key f es)
  then show ?case by (cases "field_Flatten f st") (metis entries_Flatten.simps(2) no_structs_in.simps(2) prod.case snd_conv)
qed simp_all

text \<open>The store keeps its size and the tags: only names change.\<close>

definition renamed :: "estore \<Rightarrow> estore \<Rightarrow> bool" where
  "renamed st st' \<longleftrightarrow> map fo_Tag st' = map fo_Tag st"

lemma renamed_rename: "renamed st (rename a name st)"
proof (cases "a < length st")
  case True
  then have "(map fo_Tag st)[a := fo_Tag (st ! a)] = map fo_Tag st" by (metis list_update_id nth_map)
  then show ?thesis by (simp add: renamed_def rename_def map_update)
qed (simp add: renamed_def rename_def list_update_beyond)

lemma put_renamed_tags: "renamed st (snd (put_renamed key flat errs st))"
proof (induction key flat errs st rule: put_renamed.induct)
  case (2 key k f flat errs st)
  then show ?case using renamed_rename by (simp add: Let_def renamed_def)
qed (simp add: renamed_def)

lemma Flatten_tags:
  "renamed st (snd (field_Flatten f st))" "renamed st (snd (entries_Flatten es errs st))"
  "renamed st (snd (struct_Flatten s st))" "renamed st (snd (errors_Flatten fs errs st))"
  "renamed st (snd (structs_Flatten ss errs st))"
proof (induction f st and es errs st and s st and fs errs st and ss errs st
    rule: field_Flatten_entries_Flatten_struct_Flatten_errors_Flatten_structs_Flatten.induct)
  case (10 key val vs errs st)
  then show ?case
    using put_renamed_tags [of _ key "fst (struct_Flatten val st)" errs]
    by (auto simp: renamed_def split: prod.splits) (metis snd_conv)
qed (use put_renamed_tags in \<open>auto simp: renamed_def split: prod.splits\<close>)

text \<open>The keys of the map of a struct that holds no other struct.\<close>

lemma flat_names:
  assumes "\<forall>(k, f) \<in> set fs. \<not> IsPlaceholderErr f"
  shows "errors_Flatten fs errs st = (fold (\<lambda>(k, f). AList.update (name_at st (fp_addr f)) f) fs errs, st)"
  using assms
proof (induction fs arbitrary: errs)
  case (Cons kf fs)
  obtain k a n where kf: "kf = (k, FPtr a n)" by (metis fptr.exhaust prod.exhaust)
  with Cons.prems have n: "n = Leaf" by (simp add: IsPlaceholderErr_def)
  have "errors_Flatten fs errs st = (fold (\<lambda>(k, f). AList.update (name_at st (fp_addr f)) f) fs errs, st)" for errs
    using Cons.prems by (intro Cons.IH) simp
  then show ?case by (simp add: kf n put_all_def IsPlaceholderErr_def)
qed simp

text \<open>Each call puts the name of the field in front of the names in it, so a second call finds other keys.\<close>

definition nested_errors :: sptr where
  "nested_errors = SPtr ''User'' [] [(''Home'', SPtr ''Address'' [(''City'', FPtr 0 Leaf)] [])]"

lemma flatten_twice:
  "map fst (fst (struct_Flatten nested_errors [\<lparr>fo_Field = ''City'', fo_Tag = ''required''\<rparr>])) = [''Home.City'']"
  "map fst (fst (struct_Flatten nested_errors (snd (struct_Flatten nested_errors [\<lparr>fo_Field = ''City'', fo_Tag = ''required''\<rparr>])))) =
     [''Home.Home.City'']"
  by (simp_all add: nested_errors_def name_at_def rename_def put_all_def IsPlaceholderErr_def Let_def)

text \<open>
  An outer struct keys the errors below by their names alone: errors of two elements of a slice, which
  the inner map tells apart, fall together, and one is lost.
\<close>

definition slice_errors :: sptr where
  "slice_errors = SPtr ''List'' [(''Items'', FPtr 0 (Entries False
     [((''0'', ''0''), EStruct (SPtr ''Item'' [(''B'', FPtr 1 Leaf)] [])),
      ((''1'', ''1''), EStruct (SPtr ''Item'' [(''B'', FPtr 2 Leaf)] []))]))] []"

definition slice_store :: estore where
  "slice_store = [\<lparr>fo_Field = ''Items'', fo_Tag = []\<rparr>, \<lparr>fo_Field = ''B'', fo_Tag = ''required''\<rparr>,
     \<lparr>fo_Field = ''B'', fo_Tag = ''required''\<rparr>]"

lemma flatten_loses:
  "map fst (fst (struct_Flatten slice_errors slice_store)) = [''Items[0].Item.B'', ''Items[1].Item.B'']"
  "map fst (fst (struct_Flatten (SPtr ''Outer'' [] [(''L'', slice_errors)]) slice_store)) = [''L.B'']"
  by (simp_all add: slice_errors_def slice_store_def name_at_def rename_def put_all_def IsPlaceholderErr_def Let_def)

end
