(* ===== verification/ValidatorFlatten.thy ===== *)
theory ValidatorFlatten
  imports ValidatorErrors "HOL-Library.Sublist"
begin

text \<open>
  What \<open>Flatten\<close> of the validator's errors gives: one entry for each leaf, under the path that leads to it, as long
  as no two paths are the same; and what it does to the names of the errors on the way.
\<close>

section \<open>Leaves and their paths\<close>

text \<open>
  A leaf with its path and the name it has afterwards. The path takes in the keys of slices and maps; a
  struct in a field is entered by the key of the field and the name below, without the path to it.
\<close>

type_synonym leaf = "string \<times> fptr \<times> string"

definition under :: "(string \<Rightarrow> string) \<Rightarrow> leaf list \<Rightarrow> leaf list" where
  "under f = map (\<lambda>(p, v, n). (f p, v, n))"

definition renamed_under :: "string \<Rightarrow> leaf list \<Rightarrow> leaf list" where
  "renamed_under key = map (\<lambda>(p, v, n). (key @ ''.'' @ n, v, key @ ''.'' @ n))"

function field_leaves :: "estore \<Rightarrow> fptr \<Rightarrow> leaf list" and
  entries_leaves :: "estore \<Rightarrow> ((string \<times> string) \<times> eptr) list \<Rightarrow> leaf list" and
  struct_leaves :: "estore \<Rightarrow> sptr \<Rightarrow> leaf list" and
  errors_leaves :: "estore \<Rightarrow> (string \<times> fptr) list \<Rightarrow> leaf list" and
  structs_leaves :: "estore \<Rightarrow> (string \<times> sptr) list \<Rightarrow> leaf list"
where
  "field_leaves st (FPtr a Leaf) = [(name_at st a, FPtr a Leaf, name_at st a)]"
| "field_leaves st (FPtr a (Entries m es)) = entries_leaves st es"
| "entries_leaves st [] = []"
| "entries_leaves st ((key, EField f) # es) =
     under (\<lambda>k. ''['' @ snd key @ '']'' @ (if IsPlaceholderErr f then k else [])) (field_leaves st f) @ entries_leaves st es"
| "entries_leaves st ((key, EStruct s) # es) =
     under (\<lambda>k. ''['' @ snd key @ ''].'' @ sp_Struct s @ ''.'' @ k) (struct_leaves st s) @ entries_leaves st es"
| "struct_leaves st (SPtr name errs serrs) = errors_leaves st errs @ structs_leaves st serrs"
| "errors_leaves st [] = []"
| "errors_leaves st ((key, f) # fs) =
     under (\<lambda>k. (if IsPlaceholderErr f then name_at st (fp_addr f) else []) @ k) (field_leaves st f) @ errors_leaves st fs"
| "structs_leaves st [] = []"
| "structs_leaves st ((key, s) # ss) = renamed_under key (struct_leaves st s) @ structs_leaves st ss"
  by pat_completeness auto

termination
  by (relation "measure (case_sum
      (case_sum (\<lambda>(st, f). size f) (\<lambda>(st, es). size_list (size_prod (\<lambda>_. 0) size) es))
      (case_sum (\<lambda>(st, s). size s)
        (case_sum (\<lambda>(st, fs). size_list (size_prod (\<lambda>_. 0) size) fs) (\<lambda>(st, ss). size_list (size_prod (\<lambda>_. 0) size) ss))))") auto

text \<open>All addresses of an error, those of placeholders too.\<close>

function field_addrs :: "fptr \<Rightarrow> nat list" and
  entries_addrs :: "((string \<times> string) \<times> eptr) list \<Rightarrow> nat list" and
  struct_addrs :: "sptr \<Rightarrow> nat list" and
  errors_addrs :: "(string \<times> fptr) list \<Rightarrow> nat list" and
  structs_addrs :: "(string \<times> sptr) list \<Rightarrow> nat list"
where
  "field_addrs (FPtr a Leaf) = [a]"
| "field_addrs (FPtr a (Entries m es)) = a # entries_addrs es"
| "entries_addrs [] = []"
| "entries_addrs ((key, EField f) # es) = field_addrs f @ entries_addrs es"
| "entries_addrs ((key, EStruct s) # es) = struct_addrs s @ entries_addrs es"
| "struct_addrs (SPtr name errs serrs) = errors_addrs errs @ structs_addrs serrs"
| "errors_addrs [] = []"
| "errors_addrs ((key, f) # fs) = field_addrs f @ errors_addrs fs"
| "structs_addrs [] = []"
| "structs_addrs ((key, s) # ss) = struct_addrs s @ structs_addrs ss"
  by pat_completeness auto

termination
  by (relation "measure (case_sum
      (case_sum size (size_list (size_prod (\<lambda>_. 0) size)))
      (case_sum size (case_sum (size_list (size_prod (\<lambda>_. 0) size)) (size_list (size_prod (\<lambda>_. 0) size)))))") auto

text \<open>No two paths fall together, neither at the top nor in any struct below.\<close>

function field_told :: "estore \<Rightarrow> fptr \<Rightarrow> bool" and
  entries_told :: "estore \<Rightarrow> ((string \<times> string) \<times> eptr) list \<Rightarrow> bool" and
  struct_told :: "estore \<Rightarrow> sptr \<Rightarrow> bool" and
  errors_told :: "estore \<Rightarrow> (string \<times> fptr) list \<Rightarrow> bool" and
  structs_told :: "estore \<Rightarrow> (string \<times> sptr) list \<Rightarrow> bool"
where
  "field_told st (FPtr a Leaf) \<longleftrightarrow> True"
| "field_told st (FPtr a (Entries m es)) \<longleftrightarrow> distinct (map fst (entries_leaves st es)) \<and> entries_told st es"
| "entries_told st [] \<longleftrightarrow> True"
| "entries_told st ((key, EField f) # es) \<longleftrightarrow> field_told st f \<and> entries_told st es"
| "entries_told st ((key, EStruct s) # es) \<longleftrightarrow> struct_told st s \<and> entries_told st es"
| "struct_told st (SPtr name errs serrs) \<longleftrightarrow>
     distinct (map fst (errors_leaves st errs @ structs_leaves st serrs)) \<and> errors_told st errs \<and> structs_told st serrs"
| "errors_told st [] \<longleftrightarrow> True"
| "errors_told st ((key, f) # fs) \<longleftrightarrow> field_told st f \<and> errors_told st fs"
| "structs_told st [] \<longleftrightarrow> True"
| "structs_told st ((key, s) # ss) \<longleftrightarrow> struct_told st s \<and> structs_told st ss"
  by pat_completeness auto

termination
  by (relation "measure (case_sum
      (case_sum (\<lambda>(st, f). size f) (\<lambda>(st, es). size_list (size_prod (\<lambda>_. 0) size) es))
      (case_sum (\<lambda>(st, s). size s)
        (case_sum (\<lambda>(st, fs). size_list (size_prod (\<lambda>_. 0) size) fs) (\<lambda>(st, ss). size_list (size_prod (\<lambda>_. 0) size) ss))))") auto

text \<open>The map that is given back, and the store with the new names.\<close>

definition flat_of :: "leaf list \<Rightarrow> flat" where
  "flat_of = map (\<lambda>(p, v, n). (p, v))"

definition names_of :: "leaf list \<Rightarrow> (nat \<times> string) list" where
  "names_of = map (\<lambda>(p, v, n). (fp_addr v, n))"

definition rename_all :: "(nat \<times> string) list \<Rightarrow> estore \<Rightarrow> estore" where
  "rename_all ns = fold (\<lambda>(a, n). rename a n) ns"

lemma under_simps [simp]:
  "names_of (under f ls) = names_of ls"
  "map fst (under f ls) = map (f \<circ> fst) ls" "length (under f ls) = length ls"
  by (auto simp: names_of_def under_def)

lemma flat_of_append [simp]: "flat_of (xs @ ys) = flat_of xs @ flat_of ys" "flat_of [] = []"
  by (simp_all add: flat_of_def)

lemma names_of_append [simp]: "names_of (xs @ ys) = names_of xs @ names_of ys" "names_of [] = []"
  by (simp_all add: names_of_def)

lemma names_of_renamed_under: "names_of (renamed_under key ls) = map (\<lambda>(a, n). (a, key @ ''.'' @ n)) (names_of ls)"
  by (auto simp: names_of_def renamed_under_def)

lemma fp_addr_in [simp]: "fp_addr f \<in> set (field_addrs f)"
  by (cases f rule: field_addrs.cases) simp_all

section \<open>What the leaves depend on\<close>

lemmas addrs_induct = field_addrs_entries_addrs_struct_addrs_errors_addrs_structs_addrs.induct

lemma leaves_cong:
  "(\<And>a. a \<in> set (field_addrs f) \<Longrightarrow> name_at st a = name_at st' a) \<Longrightarrow> field_leaves st f = field_leaves st' f"
  "(\<And>a. a \<in> set (entries_addrs es) \<Longrightarrow> name_at st a = name_at st' a) \<Longrightarrow> entries_leaves st es = entries_leaves st' es"
  "(\<And>a. a \<in> set (struct_addrs s) \<Longrightarrow> name_at st a = name_at st' a) \<Longrightarrow> struct_leaves st s = struct_leaves st' s"
  "(\<And>a. a \<in> set (errors_addrs fs) \<Longrightarrow> name_at st a = name_at st' a) \<Longrightarrow> errors_leaves st fs = errors_leaves st' fs"
  "(\<And>a. a \<in> set (structs_addrs ss) \<Longrightarrow> name_at st a = name_at st' a) \<Longrightarrow> structs_leaves st ss = structs_leaves st' ss"
  by (induction f and es and s and fs and ss rule: addrs_induct) simp_all

lemma told_cong:
  "(\<And>a. a \<in> set (field_addrs f) \<Longrightarrow> name_at st a = name_at st' a) \<Longrightarrow> field_told st f = field_told st' f"
  "(\<And>a. a \<in> set (entries_addrs es) \<Longrightarrow> name_at st a = name_at st' a) \<Longrightarrow> entries_told st es = entries_told st' es"
  "(\<And>a. a \<in> set (struct_addrs s) \<Longrightarrow> name_at st a = name_at st' a) \<Longrightarrow> struct_told st s = struct_told st' s"
  "(\<And>a. a \<in> set (errors_addrs fs) \<Longrightarrow> name_at st a = name_at st' a) \<Longrightarrow> errors_told st fs = errors_told st' fs"
  "(\<And>a. a \<in> set (structs_addrs ss) \<Longrightarrow> name_at st a = name_at st' a) \<Longrightarrow> structs_told st ss = structs_told st' ss"
proof (induction f and es and s and fs and ss rule: addrs_induct)
  case (2 a m es)
  then show ?case using leaves_cong(2) [of es st st'] by simp
next
  case (6 name errs serrs)
  then show ?case using leaves_cong(4) [of errs st st'] leaves_cong(5) [of serrs st st'] by simp
qed simp_all

text \<open>The leaves are found in the order of their addresses.\<close>

definition leaf_addrs :: "leaf list \<Rightarrow> nat list" where
  "leaf_addrs ls = map fst (names_of ls)"

lemma leaf_addrs_simps [simp]:
  "leaf_addrs [] = []" "leaf_addrs (xs @ ys) = leaf_addrs xs @ leaf_addrs ys" "leaf_addrs (under f ls) = leaf_addrs ls"
  "leaf_addrs (renamed_under key ls) = leaf_addrs ls" "leaf_addrs ((p, v, n) # ls) = fp_addr v # leaf_addrs ls"
  by (simp_all add: leaf_addrs_def names_of_renamed_under o_def case_prod_beta) (simp add: names_of_def)

lemma leaves_addrs:
  "subseq (leaf_addrs (field_leaves st f)) (field_addrs f)"
  "subseq (leaf_addrs (entries_leaves st es)) (entries_addrs es)"
  "subseq (leaf_addrs (struct_leaves st s)) (struct_addrs s)"
  "subseq (leaf_addrs (errors_leaves st fs)) (errors_addrs fs)"
  "subseq (leaf_addrs (structs_leaves st ss)) (structs_addrs ss)"
  by (induction f and es and s and fs and ss rule: addrs_induct) (auto intro: list_emb_append_mono)

section \<open>Renaming\<close>

lemma length_rename [simp]: "length (rename a n st) = length st"
  by (simp add: rename_def)

lemma length_rename_all [simp]: "length (rename_all ns st) = length st"
  unfolding rename_all_def by (induction ns arbitrary: st) auto

lemma rename_all_simps [simp]:
  "rename_all [] st = st" "rename_all ((a, n) # ns) st = rename_all ns (rename a n st)"
  "rename_all (ms @ ns) st = rename_all ns (rename_all ms st)"
  by (simp_all add: rename_all_def)

lemma nth_rename_all:
  "distinct (map fst ns) \<Longrightarrow> a < length st \<Longrightarrow>
    rename_all ns st ! a = (case map_of ns a of None \<Rightarrow> st ! a | Some n \<Rightarrow> (st ! a)\<lparr>fo_Field := n\<rparr>)"
proof (induction ns arbitrary: st)
  case (Cons bn ns)
  obtain b n where bn: "bn = (b, n)" by fastforce
  from Cons.prems have "rename_all ns (rename b n st) ! a =
      (case map_of ns a of None \<Rightarrow> rename b n st ! a | Some n' \<Rightarrow> (rename b n st ! a)\<lparr>fo_Field := n'\<rparr>)"
    by (intro Cons.IH) simp_all
  moreover have "map_of ns b = None" using Cons.prems(1) by (simp add: bn map_of_eq_None_iff)
  ultimately show ?case using Cons.prems(2) by (auto simp: bn rename_def nth_list_update split: option.splits)
qed simp

lemma name_rename_all:
  assumes "distinct (map fst ns)" "a < length st"
  shows "name_at (rename_all ns st) a = (case map_of ns a of None \<Rightarrow> name_at st a | Some n \<Rightarrow> n)"
  using assms by (simp add: name_at_def nth_rename_all split: option.split)

lemma rename_all_twice:
  assumes "distinct (map fst ns)" "map fst ms = map fst ns"
  shows "rename_all ms (rename_all ns st) = rename_all ms st"
proof (rule nth_equalityI)
  fix a
  assume "a < length (rename_all ms (rename_all ns st))"
  then have a: "a < length st" by simp
  have "map_of ms a = None \<longleftrightarrow> map_of ns a = None"
    unfolding map_of_eq_None_iff using assms(2) by (metis list.set_map)
  with a assms show "rename_all ms (rename_all ns st) ! a = rename_all ms st ! a"
    by (auto simp: nth_rename_all split: option.splits)
qed simp

text \<open>A field error outside structs keeps its name.\<close>

lemma rename_same: "rename a (name_at st a) st = st"
proof (cases "a < length st")
  case True
  have "(st ! a)\<lparr>fo_Field := fo_Field (st ! a)\<rparr> = st ! a" by simp
  then show ?thesis by (simp add: rename_def name_at_def)
qed (simp add: rename_def list_update_beyond)

section \<open>Filling a map\<close>

lemma update_new: "k \<notin> fst ` set m \<Longrightarrow> AList.update k v m = m @ [(k, v)]"
  by (induction m) auto

lemma put_all_new:
  "distinct (map fst errs @ map (key \<circ> fst) flat) \<Longrightarrow> put_all key flat errs = errs @ map (\<lambda>(k, v). (key k, v)) flat"
proof (induction flat arbitrary: errs)
  case (Cons kv flat)
  obtain k v where kv: "kv = (k, v)" by fastforce
  from Cons.prems have "key k \<notin> fst ` set errs" by (auto simp: kv)
  then have "AList.update (key k) v errs = errs @ [(key k, v)]" by (rule update_new)
  moreover have "put_all key flat (errs @ [(key k, v)]) = (errs @ [(key k, v)]) @ map (\<lambda>(k, v). (key k, v)) flat"
    using Cons.prems by (intro Cons.IH) (auto simp: kv)
  ultimately show ?case by (simp add: put_all_def kv)
qed (simp add: put_all_def)

lemma put_renamed_new:
  assumes "\<And>p v n. (p, v, n) \<in> set ls \<Longrightarrow> name_at st (fp_addr v) = n" "distinct (leaf_addrs ls)"
    "distinct (map fst errs @ map fst (renamed_under key ls))" "\<forall>a \<in> set (leaf_addrs ls). a < length st"
  shows "put_renamed key (flat_of ls) errs st =
    (errs @ flat_of (renamed_under key ls), rename_all (names_of (renamed_under key ls)) st)"
  using assms
proof (induction ls arbitrary: errs st)
  case (Cons l ls)
  obtain p v n where l: "l = (p, v, n)" using prod_cases3 by blast
  let ?k = "key @ ''.'' @ n" and ?st = "rename (fp_addr v) (key @ ''.'' @ n) st"
  have n: "name_at st (fp_addr v) = n" using Cons.prems(1) [of p v n] by (simp add: l)
  have "?k \<notin> fst ` set errs" using Cons.prems(3) by (auto simp: l renamed_under_def)
  then have up: "AList.update ?k v errs = errs @ [(?k, v)]" by (rule update_new)
  have "put_renamed key (flat_of ls) (errs @ [(?k, v)]) ?st =
      ((errs @ [(?k, v)]) @ flat_of (renamed_under key ls), rename_all (names_of (renamed_under key ls)) ?st)"
  proof (rule Cons.IH)
    show "name_at ?st (fp_addr v') = n'" if "(p', v', n') \<in> set ls" for p' v' n'
    proof -
      have "fp_addr v' \<in> set (leaf_addrs ls)" using that by (force simp: leaf_addrs_def names_of_def)
      then have "fp_addr v' \<noteq> fp_addr v" using Cons.prems(2) by (auto simp: l)
      with Cons.prems(1) [of p' v' n'] that show ?thesis by (simp add: l name_at_def rename_def)
    qed
  qed (use Cons.prems in \<open>auto simp: l renamed_under_def rename_def\<close>)
  with n up show ?case by (simp add: l flat_of_def renamed_under_def names_of_def Let_def)
qed (simp add: flat_of_def renamed_under_def names_of_def)

section \<open>Flattening\<close>

lemma subseq_set: "subseq xs ys \<Longrightarrow> set xs \<subseteq> set ys"
  by (auto elim: list_emb_set)

lemma subseq_distinct: "subseq xs ys \<Longrightarrow> distinct ys \<Longrightarrow> distinct xs"
  by (induction rule: list_emb.induct) (auto dest: subseq_set)

lemma flat_of_keys [simp]: "map fst (flat_of ls) = map fst ls" "map (f \<circ> fst) (flat_of ls) = map (f \<circ> fst) ls"
  by (auto simp: flat_of_def)

lemma put_all_under:
  assumes "distinct (map fst errs @ map fst (under key ls @ rest))"
  shows "put_all key (flat_of ls) errs = errs @ flat_of (under key ls)"
proof -
  have "map (\<lambda>(k, v). (key k, v)) (flat_of ls) = flat_of (under key ls)" by (auto simp: flat_of_def under_def)
  with put_all_new [of errs key "flat_of ls"] assms show ?thesis by (simp add: Int_Un_distrib)
qed

lemma name_other:
  "a \<notin> set (leaf_addrs ls) \<Longrightarrow> name_at (rename_all (names_of ls) st) a = name_at st a"
proof (induction ls arbitrary: st)
  case (Cons l ls)
  obtain p v n where l: "l = (p, v, n)" using prod_cases3 by blast
  have "names_of (l # ls) = (fp_addr v, n) # names_of ls" by (simp add: l names_of_def)
  with Cons show ?case by (auto simp: l name_at_def rename_def)
qed simp

definition inside :: "nat list \<Rightarrow> estore \<Rightarrow> bool" where
  "inside as st \<longleftrightarrow> (\<forall>a \<in> set as. a < length st)"

lemma inside_simps [simp]:
  "inside (xs @ ys) st \<longleftrightarrow> inside xs st \<and> inside ys st" "inside (a # xs) st \<longleftrightarrow> a < length st \<and> inside xs st" "inside [] st"
  "inside xs (rename_all ns st) \<longleftrightarrow> inside xs st"
  by (auto simp: inside_def)

text \<open>What one part renames leaves the other parts as they are.\<close>

lemma name_apart:
  assumes "subseq (leaf_addrs ls) as" "distinct (as @ bs)" "b \<in> set bs"
  shows "name_at (rename_all (names_of ls) st) b = name_at st b"
  using assms by (intro name_other) (auto dest: subseq_set)

lemma placeholder_name:
  assumes "distinct (field_addrs f)" "IsPlaceholderErr f"
  shows "name_at (rename_all (names_of (field_leaves st f)) st) (fp_addr f) = name_at st (fp_addr f)"
proof (rule name_other)
  from assms(2) obtain a m es where f: "f = FPtr a (Entries m es)"
    by (cases f rule: field_addrs.cases) (auto simp: IsPlaceholderErr_def)
  then show "fp_addr f \<notin> set (leaf_addrs (field_leaves st f))"
    using assms(1) leaves_addrs(2) [of st es] by (auto dest: subseq_set)
qed

text \<open>The names below a struct, once it is flattened.\<close>

lemma names_after:
  assumes "subseq (leaf_addrs ls) as" "distinct as" "inside as st" "(p, v, n) \<in> set ls"
  shows "name_at (rename_all (names_of ls) st) (fp_addr v) = n"
proof -
  have d: "distinct (map fst (names_of ls))" using assms(1,2) subseq_distinct unfolding leaf_addrs_def by blast
  have "(fp_addr v, n) \<in> set (names_of ls)" using assms(4) by (force simp: names_of_def)
  with d have "map_of (names_of ls) (fp_addr v) = Some n" by simp
  moreover have "fp_addr v \<in> set as"
    using assms(1,4) by (force simp: leaf_addrs_def names_of_def dest: subseq_set)
  ultimately show ?thesis using d assms(3) by (simp add: name_rename_all inside_def)
qed

lemma rename_again:
  assumes "subseq (leaf_addrs ls) as" "distinct as"
  shows "rename_all (names_of (renamed_under key ls)) (rename_all (names_of ls) st) = rename_all (names_of (renamed_under key ls)) st"
proof (rule rename_all_twice)
  show "distinct (map fst (names_of ls))" using assms subseq_distinct unfolding leaf_addrs_def by blast
  show "map fst (names_of (renamed_under key ls)) = map fst (names_of ls)"
    using leaf_addrs_simps(4) [of key ls] unfolding leaf_addrs_def .
qed

lemma structs_step:
  assumes sub: "subseq (leaf_addrs ls) as" "distinct as" "inside as st"
    and keys: "distinct (map fst errs @ map fst (renamed_under key ls))"
  shows "put_renamed key (flat_of ls) errs (rename_all (names_of ls) st) =
    (errs @ flat_of (renamed_under key ls), rename_all (names_of (renamed_under key ls)) st)"
proof -
  have "set (leaf_addrs ls) \<subseteq> set as" using sub(1) by (rule subseq_set)
  then have "\<forall>a \<in> set (leaf_addrs ls). a < length (rename_all (names_of ls) st)" using sub(3) by (auto simp: inside_def)
  moreover have "distinct (leaf_addrs ls)" using sub(1,2) subseq_distinct by blast
  ultimately have "put_renamed key (flat_of ls) errs (rename_all (names_of ls) st) =
      (errs @ flat_of (renamed_under key ls), rename_all (names_of (renamed_under key ls)) (rename_all (names_of ls) st))"
    using names_after [OF sub] keys by (intro put_renamed_new) simp_all
  then show ?thesis by (simp add: rename_again [OF sub(1,2)])
qed

lemma Flatten_leaves:
  "distinct (field_addrs f) \<Longrightarrow> inside (field_addrs f) st \<Longrightarrow> field_told st f \<Longrightarrow>
    field_Flatten f st = (flat_of (field_leaves st f), rename_all (names_of (field_leaves st f)) st)"
  "distinct (entries_addrs es) \<Longrightarrow> inside (entries_addrs es) st \<Longrightarrow> entries_told st es \<Longrightarrow>
    distinct (map fst errs @ map fst (entries_leaves st es)) \<Longrightarrow>
    entries_Flatten es errs st = (errs @ flat_of (entries_leaves st es), rename_all (names_of (entries_leaves st es)) st)"
  "distinct (struct_addrs s) \<Longrightarrow> inside (struct_addrs s) st \<Longrightarrow> struct_told st s \<Longrightarrow>
    struct_Flatten s st = (flat_of (struct_leaves st s), rename_all (names_of (struct_leaves st s)) st)"
  "distinct (errors_addrs fs) \<Longrightarrow> inside (errors_addrs fs) st \<Longrightarrow> errors_told st fs \<Longrightarrow>
    distinct (map fst errs @ map fst (errors_leaves st fs)) \<Longrightarrow>
    errors_Flatten fs errs st = (errs @ flat_of (errors_leaves st fs), rename_all (names_of (errors_leaves st fs)) st)"
  "distinct (structs_addrs ss) \<Longrightarrow> inside (structs_addrs ss) st \<Longrightarrow> structs_told st ss \<Longrightarrow>
    distinct (map fst errs @ map fst (structs_leaves st ss)) \<Longrightarrow>
    structs_Flatten ss errs st = (errs @ flat_of (structs_leaves st ss), rename_all (names_of (structs_leaves st ss)) st)"
proof (induction f st and es errs st and s st and fs errs st and ss errs st
    rule: field_Flatten_entries_Flatten_struct_Flatten_errors_Flatten_structs_Flatten.induct)
  case (1 a st)
  then show ?case by (simp add: flat_of_def names_of_def rename_same)
next
  case (4 key fe es errs st)
  let ?ls = "field_leaves st fe" and ?f = "\<lambda>k. ''['' @ snd key @ '']'' @ (if IsPlaceholderErr fe then k else [])"
  let ?st = "rename_all (names_of ?ls) st"
  have same: "entries_leaves ?st es = entries_leaves st es" "entries_told ?st es = entries_told st es"
    using name_apart [OF leaves_addrs(1)] 4(3) by (auto intro!: leaves_cong told_cong)
  have run: "field_Flatten fe st = (flat_of ?ls, ?st)" using 4 by simp
  have put: "put_all ?f (flat_of ?ls) errs = errs @ flat_of (under ?f ?ls)"
    using 4(6) by (intro put_all_under [where rest = "entries_leaves st es"]) simp
  have "entries_Flatten es (errs @ flat_of (under ?f ?ls)) ?st =
      ((errs @ flat_of (under ?f ?ls)) @ flat_of (entries_leaves ?st es), rename_all (names_of (entries_leaves ?st es)) ?st)"
    using 4(3-) same by (intro 4(2) [OF run [symmetric], unfolded put]) simp_all
  with run put show ?case by (simp add: same)
next
  case (5 key se es errs st)
  let ?ls = "struct_leaves st se" and ?f = "\<lambda>k. ''['' @ snd key @ ''].'' @ sp_Struct se @ ''.'' @ k"
  let ?st = "rename_all (names_of ?ls) st"
  have same: "entries_leaves ?st es = entries_leaves st es" "entries_told ?st es = entries_told st es"
    using name_apart [OF leaves_addrs(3)] 5(3) by (auto intro!: leaves_cong told_cong)
  have run: "struct_Flatten se st = (flat_of ?ls, ?st)" using 5 by simp
  have put: "put_all ?f (flat_of ?ls) errs = errs @ flat_of (under ?f ?ls)"
    using 5(6) by (intro put_all_under [where rest = "entries_leaves st es"]) simp
  have "entries_Flatten es (errs @ flat_of (under ?f ?ls)) ?st =
      ((errs @ flat_of (under ?f ?ls)) @ flat_of (entries_leaves ?st es), rename_all (names_of (entries_leaves ?st es)) ?st)"
    using 5(3-) same by (intro 5(2) [OF run [symmetric], unfolded put]) simp_all
  with run put show ?case by (simp add: same)
next
  case (6 name errs serrs st)
  let ?ls = "errors_leaves st errs"
  let ?st = "rename_all (names_of ?ls) st"
  have same: "structs_leaves ?st serrs = structs_leaves st serrs" "structs_told ?st serrs = structs_told st serrs"
    using name_apart [OF leaves_addrs(4)] 6(3) by (auto intro!: leaves_cong told_cong)
  have "errors_Flatten errs [] st = ([] @ flat_of ?ls, ?st)" using 6(3-) by (intro 6(1)) simp_all
  then have run: "errors_Flatten errs [] st = (flat_of ?ls, ?st)" by simp
  have "structs_Flatten serrs (flat_of ?ls) ?st =
      (flat_of ?ls @ flat_of (structs_leaves ?st serrs), rename_all (names_of (structs_leaves ?st serrs)) ?st)"
    using 6(3-) same by (intro 6(2) [OF run [symmetric]]) simp_all
  with run show ?case by (simp add: same)
next
  case (8 key f fs errs st)
  let ?ls = "field_leaves st f" and ?f = "(@) (if IsPlaceholderErr f then name_at st (fp_addr f) else [])"
  let ?st = "rename_all (names_of ?ls) st"
  have same: "errors_leaves ?st fs = errors_leaves st fs" "errors_told ?st fs = errors_told st fs"
    using name_apart [OF leaves_addrs(1)] 8(3) by (auto intro!: leaves_cong told_cong)
  have run: "field_Flatten f st = (flat_of ?ls, ?st)" using 8 by simp
  have name: "(if IsPlaceholderErr f then name_at ?st (fp_addr f) else []) = (if IsPlaceholderErr f then name_at st (fp_addr f) else [])"
    using placeholder_name [of f st] 8(3) by auto
  have put: "put_all ?f (flat_of ?ls) errs = errs @ flat_of (under ?f ?ls)"
    using 8(6) by (intro put_all_under [where rest = "errors_leaves st fs"]) simp
  have "errors_Flatten fs (errs @ flat_of (under ?f ?ls)) ?st =
      ((errs @ flat_of (under ?f ?ls)) @ flat_of (errors_leaves ?st fs), rename_all (names_of (errors_leaves ?st fs)) ?st)"
    using 8(3-) same by (intro 8(2) [OF run [symmetric], unfolded name put]) simp_all
  with run put name show ?case by (simp add: same)
next
  case (10 key s ss errs st)
  let ?ls = "struct_leaves st s" and ?rs = "renamed_under key (struct_leaves st s)"
  let ?st = "rename_all (names_of ?rs) st"
  have same: "structs_leaves ?st ss = structs_leaves st ss" "structs_told ?st ss = structs_told st ss"
    using name_apart [of ?rs "struct_addrs s"] leaves_addrs(3) [of st s] 10(3) by (auto intro!: leaves_cong told_cong)
  have run: "struct_Flatten s st = (flat_of ?ls, rename_all (names_of ?ls) st)" using 10 by simp
  have put: "put_renamed key (flat_of ?ls) errs (rename_all (names_of ?ls) st) = (errs @ flat_of ?rs, ?st)"
    using 10(3-) by (intro structs_step [OF leaves_addrs(3)]) auto
  have "structs_Flatten ss (errs @ flat_of ?rs) ?st =
      ((errs @ flat_of ?rs) @ flat_of (structs_leaves ?st ss), rename_all (names_of (structs_leaves ?st ss)) ?st)"
    using 10(3-) same by (intro 10(2) [OF run [symmetric] put [symmetric]]) simp_all
  with run put show ?case by (simp add: same)
qed simp_all

section \<open>The property\<close>


definition deep_errors :: sptr where
  "deep_errors = SPtr ''User''
     [(''Tags'', FPtr 0 (Entries False [((''0'', ''0''), EField (FPtr 1 Leaf)),
        ((''2'', ''2''), EStruct (SPtr ''Item'' [(''B'', FPtr 2 Leaf)] []))]))]
     [(''Home'', SPtr ''Address'' [(''City'', FPtr 3 Leaf)] [(''Geo'', SPtr ''Point'' [(''X'', FPtr 4 Leaf)] [])])]"

definition deep_store :: estore where
  "deep_store = map (\<lambda>n. \<lparr>fo_Field = n, fo_Tag = ''required''\<rparr>) [''Tags'', ''Tags[0]'', ''B'', ''City'', ''X'']"


end
